(* ===== verification/Prelude.thy ===== *)
theory Prelude
  imports Main "HOL-Library.AList" "HOL-Library.Multiset" "HOL-Library.List_Lexorder" "HOL-Library.Char_ord"
begin

text \<open>
  Shared vocabulary of the development: the JavaScript Map as an association list in arrival
  order, sorting by a string key, chunks of a list, decimal and hexadecimal text, and the lemma
  collections the component theories use.

  A JavaScript \<open>Map\<close> keeps its entries in the order of first insertion; setting a present key
  keeps its place. That is exactly \<open>AList.update\<close>, \<open>AList.delete\<close> and \<open>map_of\<close> on an
  association list.
\<close>

named_theorems jmap_simps \<comment> \<open>reading a JavaScript Map after a write\<close>
named_theorems wf_intros \<comment> \<open>well-formedness of a component's state\<close>
named_theorems step_simps \<comment> \<open>one operation of a component on one field\<close>

section \<open>JavaScript maps\<close>

type_synonym ('k, 'v) jmap = "('k \<times> 'v) list"

abbreviation jget :: "('k, 'v) jmap \<Rightarrow> 'k \<Rightarrow> 'v option" where
  "jget m k \<equiv> map_of m k"

abbreviation jset :: "('k, 'v) jmap \<Rightarrow> 'k \<Rightarrow> 'v \<Rightarrow> ('k, 'v) jmap" where
  "jset m k v \<equiv> AList.update k v m"

abbreviation jdel :: "('k, 'v) jmap \<Rightarrow> 'k \<Rightarrow> ('k, 'v) jmap" where
  "jdel m k \<equiv> AList.delete k m"

definition jhas :: "('k, 'v) jmap \<Rightarrow> 'k \<Rightarrow> bool" where
  "jhas m k \<longleftrightarrow> jget m k \<noteq> None"

abbreviation jkeys :: "('k, 'v) jmap \<Rightarrow> 'k list" where
  "jkeys m \<equiv> map fst m"

abbreviation jvalues :: "('k, 'v) jmap \<Rightarrow> 'v list" where
  "jvalues m \<equiv> map snd m"

definition jmap_ok :: "('k, 'v) jmap \<Rightarrow> bool" where
  "jmap_ok m \<longleftrightarrow> distinct (jkeys m)"

lemma jget_jset [jmap_simps]: "jget (jset m k v) j = (if j = k then Some v else jget m j)"
  by (simp add: update_conv')

lemma jget_jdel [jmap_simps]: "jget (jdel m k) j = (if j = k then None else jget m j)"
  by (simp add: delete_conv')

lemma jhas_jset [jmap_simps]: "jhas (jset m k v) j \<longleftrightarrow> j = k \<or> jhas m j"
  by (simp add: jhas_def jget_jset)

lemma jhas_jdel [jmap_simps]: "jhas (jdel m k) j \<longleftrightarrow> j \<noteq> k \<and> jhas m j"
  by (simp add: jhas_def jget_jdel)

lemma jhas_iff: "jhas m k \<longleftrightarrow> k \<in> set (jkeys m)"
  by (simp add: jhas_def map_of_eq_None_iff)

lemma jmap_ok_Nil [wf_intros, simp]: "jmap_ok []"
  by (simp add: jmap_ok_def)

lemma jmap_ok_jset [wf_intros]: "jmap_ok m \<Longrightarrow> jmap_ok (jset m k v)"
  by (simp add: jmap_ok_def distinct_update)

lemma jmap_ok_jdel [wf_intros]: "jmap_ok m \<Longrightarrow> jmap_ok (jdel m k)"
  by (simp add: jmap_ok_def distinct_delete)

lemma jset_keys: "set (jkeys (jset m k v)) = insert k (set (jkeys m))"
  by (induction m) auto

lemma jset_length: "length (jset m k v) = (if jhas m k then length m else Suc (length m))"
  by (induction m) (auto simp: jhas_def)

lemma jset_new: "\<not> jhas m k \<Longrightarrow> jset m k v = m @ [(k, v)]"
  by (induction m) (auto simp: jhas_def split: if_splits)

lemma jset_set: "jmap_ok m \<Longrightarrow> set (jset m k v) = insert (k, v) {p \<in> set m. fst p \<noteq> k}"
  by (induction m) (force simp: jmap_ok_def)+

lemma jdel_set: "set (jdel m k) = {p \<in> set m. fst p \<noteq> k}"
  by (induction m) auto

lemma jdel_absent: "\<not> jhas m k \<Longrightarrow> jdel m k = m"
  by (induction m) (auto simp: jhas_def split: if_splits)

lemma jdel_length: "length (jdel m k) \<le> length m"
  by (induction m) auto

lemma jget_in: "jget m k = Some v \<Longrightarrow> (k, v) \<in> set m"
  by (rule map_of_SomeD)

lemma jget_iff: "jmap_ok m \<Longrightarrow> jget m k = Some v \<longleftrightarrow> (k, v) \<in> set m"
  by (simp add: jmap_ok_def)

lemma jget_enumerate [jmap_simps]:
  "jget (enumerate n xs) i = (if n \<le> i \<and> i < n + length xs then Some (xs ! (i - n)) else None)"
  by (induction xs arbitrary: n) (auto simp: nth_Cons' Suc_diff_le)

lemma map_enumerate: "map (\<lambda>x. g (fst x)) (enumerate n xs) = map g [n..<n + length xs]"
  "map (\<lambda>x. h (snd x)) (enumerate n xs) = map h xs"
proof -
  have "map (\<lambda>x. g (fst x)) ys = map g (map fst ys)" "map (\<lambda>x. h (snd x)) ys = map h (map snd ys)" for ys by simp_all
  then show "map (\<lambda>x. g (fst x)) (enumerate n xs) = map g [n..<n + length xs]"
    "map (\<lambda>x. h (snd x)) (enumerate n xs) = map h xs" by (simp_all only: map_fst_enumerate map_snd_enumerate)
qed

text \<open>The contract of a keyed store: what a lookup returns after each write.\<close>

locale keyed_store =
  fixes sget :: "'s \<Rightarrow> 'k \<Rightarrow> 'v option"
    and sput :: "'s \<Rightarrow> 'k \<Rightarrow> 'v \<Rightarrow> 's"
    and sdel :: "'s \<Rightarrow> 'k \<Rightarrow> 's"
    and sok :: "'s \<Rightarrow> bool"
  assumes get_put: "sok s \<Longrightarrow> sget (sput s k v) = (sget s)(k \<mapsto> v)"
    and get_del: "sok s \<Longrightarrow> sget (sdel s k) = (sget s)(k := None)"
    and ok_put: "sok s \<Longrightarrow> sok (sput s k v)"
    and ok_del: "sok s \<Longrightarrow> sok (sdel s k)"
begin

lemma put_put_commute:
  assumes "sok s" "k \<noteq> k'"
  shows "sget (sput (sput s k v) k' v') = sget (sput (sput s k' v') k v)"
  using assms by (simp add: get_put ok_put fun_upd_twist)

lemma put_del_same: "sok s \<Longrightarrow> sget (sdel (sput s k v) k) = sget (sdel s k)"
  by (simp add: get_put get_del ok_put)

lemma put_all:
  "sok s \<Longrightarrow> sok (fold (\<lambda>(k, v) t. sput t k v) kvs s) \<and>
     sget (fold (\<lambda>(k, v) t. sput t k v) kvs s) = sget s ++ map_of (rev kvs)"
  by (induction kvs arbitrary: s) (auto simp: get_put ok_put map_add_def fun_eq_iff split: option.splits)

end

interpretation jm: keyed_store "jget" "jset" "jdel" "\<lambda>_. True"
  by unfold_locales (auto simp: fun_eq_iff jmap_simps)

section \<open>Sorting by a key\<close>

lemma sort_key_mset_cong:
  assumes "mset xs = mset ys" "inj_on f (set xs)"
  shows "sort_key f xs = sort_key f ys"
proof -
  have "sorted (map f (sort_key f ys))" by (rule sorted_sort_key)
  moreover have "mset (sort_key f ys) = mset xs" using assms by simp
  ultimately show ?thesis using assms(2)
    by (metis sort_key_inj_key_eq)
qed

lemma distinct_map_inj_on: "distinct (map f xs) \<Longrightarrow> inj_on f (set xs)"
  by (simp add: distinct_map)

lemma sort_key_perm:
  "distinct (map f xs) \<Longrightarrow> mset xs = mset ys \<Longrightarrow> sort_key f xs = sort_key f ys"
  by (rule sort_key_mset_cong) (auto intro: distinct_map_inj_on)

lemma distinct_map_sort_key: "distinct (map f (sort_key g xs)) \<longleftrightarrow> distinct (map f xs)"
  by (rule mset_eq_imp_distinct_iff) (simp add: mset_map)

lemma map_sort_key: "map f (sort_key f xs) = sort (map f xs)"
  by (rule properties_for_sort[symmetric]) (simp_all add: mset_map)

lemma sort_mset_cong: "mset xs = mset ys \<Longrightarrow> sort xs = sort (ys :: 'a::linorder list)"
  by (metis properties_for_sort mset_sort sorted_sort)

text \<open>The contract of a rule that must not depend on arrival order: its outcome is a function of the set.\<close>

locale set_determined =
  fixes key :: "'m \<Rightarrow> 'k"
    and outcome :: "'m list \<Rightarrow> 'r"
  assumes order_free: "mset xs = mset ys \<Longrightarrow> distinct (map key xs) \<Longrightarrow> outcome xs = outcome ys"
begin

lemma same_set:
  assumes "set xs = set ys" "distinct (map key xs)" "distinct (map key ys)"
  shows "outcome xs = outcome ys"
proof -
  have "distinct xs" "distinct ys" using assms(2,3) by (simp_all add: distinct_map)
  then have "mset xs = mset ys" using assms(1) by (simp add: set_eq_iff_mset_eq_distinct)
  then show ?thesis using assms(2) by (rule order_free)
qed

lemma late_arrival: "distinct (map key (xs @ ys)) \<Longrightarrow> outcome (xs @ ys) = outcome (ys @ xs)"
  by (rule order_free) simp_all

end

section \<open>Consecutive chunks\<close>

function chunks :: "nat \<Rightarrow> 'a list \<Rightarrow> 'a list list \<times> 'a list" where
  "chunks n xs =
     (if n = 0 \<or> length xs < n then ([], xs)
      else (let (cs, rest) = chunks n (drop n xs) in (take n xs # cs, rest)))"
  by pat_completeness auto
termination
  by (relation "measure (\<lambda>(n, xs). length xs)") auto

declare chunks.simps [simp del]

lemma chunks_spec:
  assumes "0 < n"
  shows "concat (fst (chunks n xs)) @ snd (chunks n xs) = xs \<and> (\<forall>c \<in> set (fst (chunks n xs)). length c = n) \<and>
    length (snd (chunks n xs)) < n \<and> length (fst (chunks n xs)) = length xs div n"
  using assms
proof (induction n xs rule: chunks.induct)
  case (1 n xs)
  show ?case
  proof (cases "length xs < n")
    case True
    then show ?thesis by (subst (1 2 3 4 5) chunks.simps) simp
  next
    case False
    obtain cs r where c: "chunks n (drop n xs) = (cs, r)" by (cases "chunks n (drop n xs)")
    then have e: "chunks n xs = (take n xs # cs, r)" using False 1(2) by (subst chunks.simps) simp
    have i: "concat cs @ r = drop n xs" "\<forall>c \<in> set cs. length c = n" "length r < n" "length cs = (length xs - n) div n"
      using 1(1)[OF _ 1(2)] False 1(2) c by auto
    have "length xs div n = Suc ((length xs - n) div n)" using False 1(2) by (simp add: le_div_geq)
    then show ?thesis using i False 1(2) unfolding e by (simp add: append_eq_conv_conj[symmetric])
  qed
qed

lemma chunk_part:
  assumes "0 < n" "g \<in> set (fst (chunks n xs))"
  shows "length g = n" "set g \<subseteq> set xs" "distinct (map f xs) \<Longrightarrow> distinct (map f g)"
proof -
  note c = chunks_spec[OF assms(1), of xs]
  show "length g = n" using c assms(2) by blast
  obtain as bs where "fst (chunks n xs) = as @ g # bs" using split_list[OF assms(2)] by blast
  then have e: "xs = concat as @ g @ concat bs @ snd (chunks n xs)" using c by simp
  show "set g \<subseteq> set xs" by (subst e) auto
  show "distinct (map f xs) \<Longrightarrow> distinct (map f g)" by (subst (asm) e) simp
qed

lemma chunks_rest: "0 < n \<Longrightarrow> length (snd (chunks n xs)) = length xs mod n"
proof -
  assume n: "0 < n"
  note c = chunks_spec[OF n, of xs]
  have "length (concat (fst (chunks n xs))) = n * length (fst (chunks n xs))"
    using c by (simp add: length_concat sum_list_triv map_replicate_const[symmetric] cong: map_cong)
  then have "length xs = n * (length xs div n) + length (snd (chunks n xs))"
    using c by (metis length_append)
  then show ?thesis by (metis add_left_cancel mult_div_mod_eq)
qed

end
