(* ===== verification/JsValue.thy ===== *)
theory JsValue
  imports Prelude
begin

text \<open>
  The JavaScript values the program passes around and the standard-library operations it uses on
  them: truthiness, \<open>typeof\<close>, \<open>String(v)\<close>, property reads and writes, \<open>JSON.stringify\<close>,
  and the textual tests that the source writes as regular expressions.

  Numbers: \<open>JInt\<close> is an integer-valued number (exact for the safe integers, the range in which
  every number of the program lives), \<open>JFrac\<close> a finite number that is not an integer, kept as its
  canonical text, \<open>JNaN\<close> and \<open>JInf neg\<close> the others. \<open>JBig\<close> is a BigInt. An object is the
  list of its own enumerable properties in the order \<open>Object.keys\<close> gives them; characters are
  bytes, so text is Latin-1.
\<close>

section \<open>Decimal and hexadecimal text\<close>

fun show_nat :: "nat \<Rightarrow> string" where
  "show_nat n = (if n < 10 then [char_of (48 + n)] else show_nat (n div 10) @ [char_of (48 + n mod 10)])"

declare show_nat.simps [simp del]

definition show_int :: "int \<Rightarrow> string" where
  "show_int i = (if i < 0 then CHR ''-'' # show_nat (nat (- i)) else show_nat (nat i))"

definition is_digit :: "char \<Rightarrow> bool" where
  "is_digit c \<longleftrightarrow> 48 \<le> (of_char c :: nat) \<and> (of_char c :: nat) \<le> 57"

definition is_hex :: "char \<Rightarrow> bool" where
  "is_hex c \<longleftrightarrow> is_digit c \<or> 97 \<le> (of_char c :: nat) \<and> (of_char c :: nat) \<le> 102"

definition digit_val :: "char \<Rightarrow> nat" where
  "digit_val c = of_char c - 48"

definition hex_val :: "char \<Rightarrow> nat" where
  "hex_val c = (if is_digit c then of_char c - 48 else of_char c - 87)"

definition read_nat :: "string \<Rightarrow> nat" where
  "read_nat s = foldl (\<lambda>n c. 10 * n + digit_val c) 0 s"

definition read_hex :: "string \<Rightarrow> nat" where
  "read_hex s = foldl (\<lambda>n c. 16 * n + hex_val c) 0 s"

definition hex_char :: "nat \<Rightarrow> char" where
  "hex_char n = (if n < 10 then char_of (48 + n) else char_of (87 + n))"

definition all_digits :: "string \<Rightarrow> bool" where
  "all_digits s \<longleftrightarrow> s \<noteq> [] \<and> (\<forall>c \<in> set s. is_digit c)"

definition is_hex_str :: "nat \<Rightarrow> nat \<Rightarrow> string \<Rightarrow> bool" where
  "is_hex_str lo hi s \<longleftrightarrow> lo \<le> length s \<and> length s \<le> hi \<and> (\<forall>c \<in> set s. is_hex c)"

abbreviation hex64 :: "string \<Rightarrow> bool" where
  "hex64 s \<equiv> is_hex_str 64 64 s"

lemma digit_char_val: "n < 10 \<Longrightarrow> of_char (char_of (48 + n :: nat)) = 48 + n"
  by simp

lemma is_digit_char: "n < 10 \<Longrightarrow> is_digit (char_of (48 + n :: nat))"
  by (simp add: is_digit_def)

lemma char_0 [simp]: "char_of (48 :: nat) = CHR ''0''"
  by code_simp

lemma show_nat_digits: "\<forall>c \<in> set (show_nat n). is_digit c"
proof (induction n rule: show_nat.induct)
  case (1 n)
  then show ?case
    by (subst show_nat.simps) (auto intro: is_digit_char)
qed

lemma show_nat_nonempty [simp]: "show_nat n \<noteq> []"
  by (subst show_nat.simps) simp

lemma read_nat_snoc: "read_nat (s @ [c]) = 10 * read_nat s + digit_val c"
  by (simp add: read_nat_def)

lemma read_show_nat [simp]: "read_nat (show_nat n) = n"
proof (induction n rule: show_nat.induct)
  case (1 n)
  show ?case
  proof (cases "n < 10")
    case True
    then show ?thesis by (subst show_nat.simps) (simp add: read_nat_def digit_val_def)
  next
    case False
    then have "read_nat (show_nat n) = 10 * (n div 10) + n mod 10"
      using 1 by (subst show_nat.simps) (simp add: read_nat_snoc digit_val_def)
    then show ?thesis by simp
  qed
qed

lemma show_nat_inj: "show_nat m = show_nat n \<longleftrightarrow> m = n"
  by (metis read_show_nat)

lemma all_digits_show_nat [simp]: "all_digits (show_nat n)"
  using show_nat_digits[of n] by (simp add: all_digits_def)

lemma not_digit_minus: "\<not> is_digit (CHR ''-'')"
  by (simp add: is_digit_def)

lemma show_int_inj: "show_int i = show_int j \<longleftrightarrow> i = j"
proof -
  have a: "CHR ''-'' # show_nat m \<noteq> show_nat n" for m n
    using show_nat_digits[of n] not_digit_minus by (metis list.set_intros(1))
  have b: "show_nat n \<noteq> CHR ''-'' # show_nat m" for m n
    using a[of m n] by metis
  show ?thesis
    by (auto simp: show_int_def show_nat_inj a b split: if_splits)
qed

lemma is_hex_strD: "is_hex_str lo hi s \<Longrightarrow> length s \<le> hi \<and> lo \<le> length s"
  by (simp add: is_hex_str_def)

lemma hex64_length: "hex64 s \<Longrightarrow> length s = 64"
  by (simp add: is_hex_str_def)

lemma hex_val_less: "is_hex c \<Longrightarrow> hex_val c < 16"
  by (auto simp: is_hex_def hex_val_def is_digit_def)

lemma is_hex_hex_char: "n < 16 \<Longrightarrow> is_hex (hex_char n)"
  by (auto simp: is_hex_def is_digit_def hex_char_def)

lemma hex_val_char: "n < 16 \<Longrightarrow> hex_val (hex_char n) = n"
  by (auto simp: is_digit_def hex_char_def hex_val_def)

section \<open>Bytes and their hexadecimal text\<close>

definition hex_of :: "string \<Rightarrow> string" where
  "hex_of s = concat (map (\<lambda>c. [hex_char (of_char c div 16), hex_char (of_char c mod 16)]) s)"

text \<open>\<open>Buffer.from(s, 'hex')\<close>: pairs of digits of either case, up to the first that is none.\<close>

definition hex_nib :: "char \<Rightarrow> nat option" where
  "hex_nib c = (let n = (of_char c :: nat) in
     if is_hex c then Some (hex_val c) else if 65 \<le> n \<and> n \<le> 70 then Some (n - 55) else None)"

fun unhex :: "string \<Rightarrow> string" where
  "unhex (a # b # s) =
     (case (hex_nib a, hex_nib b) of (Some x, Some y) \<Rightarrow> char_of (16 * x + y) # unhex s | _ \<Rightarrow> [])"
| "unhex s = []"

lemma of_char_less256: "(of_char c :: nat) < 256"
  using nat_of_char_less_256[of c] by simp

lemma unhex_hex_of [simp]: "unhex (hex_of s) = s"
proof (induction s)
  case Nil
  then show ?case by (simp add: hex_of_def)
next
  case (Cons c s)
  have lt: "(of_char c :: nat) div 16 < 16" "(of_char c :: nat) mod 16 < 16"
    by (rule less_mult_imp_div_less, simp add: of_char_less256, simp)
  have "char_of (16 * hex_val (hex_char (of_char c div 16)) + hex_val (hex_char (of_char c mod 16))) = c"
    using lt by (simp add: hex_val_char)
  then show ?case
    using Cons lt by (simp add: hex_of_def hex_nib_def is_hex_hex_char)
qed

lemma hex_of_inj: "hex_of s = hex_of t \<longleftrightarrow> s = t"
  by (metis unhex_hex_of)

lemma hex_of_length [simp]: "length (hex_of s) = 2 * length s"
  by (induction s) (simp_all add: hex_of_def)

lemma hex_of_hex: "\<forall>c \<in> set (hex_of s). is_hex c"
proof (induction s)
  case Nil
  then show ?case by (simp add: hex_of_def)
next
  case (Cons c s)
  have lt: "(of_char c :: nat) div 16 < 16" "(of_char c :: nat) mod 16 < 16"
    by (rule less_mult_imp_div_less, simp add: of_char_less256, simp)
  with Cons show ?case by (simp add: hex_of_def is_hex_hex_char)
qed

lemma hex_of_hex64: "length s = 32 \<Longrightarrow> hex64 (hex_of s)"
  using hex_of_hex[of s] by (simp add: is_hex_str_def)

section \<open>Values\<close>

datatype jsval =
    JUndef
  | JNull
  | JBool bool
  | JInt int
  | JFrac string
  | JNaN
  | JInf bool
  | JBig int
  | JStr string
  | JArr "jsval list"
  | JObj "(string \<times> jsval) list"

fun truthy :: "jsval \<Rightarrow> bool" where
  "truthy JUndef = False"
| "truthy JNull = False"
| "truthy (JBool b) = b"
| "truthy (JInt n) = (n \<noteq> 0)"
| "truthy JNaN = False"
| "truthy (JBig n) = (n \<noteq> 0)"
| "truthy (JStr s) = (s \<noteq> [])"
| "truthy _ = True"

fun js_typeof :: "jsval \<Rightarrow> string" where
  "js_typeof JUndef = ''undefined''"
| "js_typeof JNull = ''object''"
| "js_typeof (JBool b) = ''boolean''"
| "js_typeof (JInt n) = ''number''"
| "js_typeof (JFrac f) = ''number''"
| "js_typeof JNaN = ''number''"
| "js_typeof (JInf b) = ''number''"
| "js_typeof (JBig n) = ''bigint''"
| "js_typeof (JStr s) = ''string''"
| "js_typeof (JArr xs) = ''object''"
| "js_typeof (JObj kvs) = ''object''"

text \<open>\<open>v.k\<close> on a value that is neither null nor undefined; an absent property reads undefined.\<close>

fun getp :: "jsval \<Rightarrow> string \<Rightarrow> jsval" where
  "getp (JObj kvs) k = (case jget kvs k of Some v \<Rightarrow> v | None \<Rightarrow> JUndef)"
| "getp _ k = JUndef"

fun has_prop :: "jsval \<Rightarrow> string \<Rightarrow> bool" where
  "has_prop (JObj kvs) k = jhas kvs k"
| "has_prop _ k = False"

fun obj_entries :: "jsval \<Rightarrow> (string \<times> jsval) list" where
  "obj_entries (JObj kvs) = kvs"
| "obj_entries _ = []"

text \<open>\<open>a ?? b\<close> and \<open>a || b\<close>.\<close>

fun nullish :: "jsval \<Rightarrow> jsval \<Rightarrow> jsval" where
  "nullish JUndef b = b"
| "nullish JNull b = b"
| "nullish a b = a"

definition js_or :: "jsval \<Rightarrow> jsval \<Rightarrow> jsval" where
  "js_or a b = (if truthy a then a else b)"

fun is_object :: "jsval \<Rightarrow> bool" where
  "is_object (JObj kvs) = True"
| "is_object (JArr xs) = True"
| "is_object _ = False"

fun is_array :: "jsval \<Rightarrow> bool" where
  "is_array (JArr xs) = True"
| "is_array _ = False"

fun is_string :: "jsval \<Rightarrow> bool" where
  "is_string (JStr s) = True"
| "is_string _ = False"

fun join :: "string \<Rightarrow> string list \<Rightarrow> string" where
  "join sep [] = []"
| "join sep [x] = x"
| "join sep (x # y # xs) = x @ sep @ join sep (y # xs)"

text \<open>\<open>String(v)\<close>; an array joins its elements with commas, null and undefined as empty text.\<close>

fun js_string :: "jsval \<Rightarrow> string" and js_strings :: "jsval list \<Rightarrow> string list" where
  "js_string JUndef = ''undefined''"
| "js_string JNull = ''null''"
| "js_string (JBool b) = (if b then ''true'' else ''false'')"
| "js_string (JInt n) = show_int n"
| "js_string (JFrac f) = f"
| "js_string JNaN = ''NaN''"
| "js_string (JInf neg) = (if neg then ''-Infinity'' else ''Infinity'')"
| "js_string (JBig n) = show_int n"
| "js_string (JStr s) = s"
| "js_string (JArr xs) = join '','' (js_strings xs)"
| "js_string (JObj kvs) = ''[object Object]''"
| "js_strings [] = []"
| "js_strings (v # vs) = (case v of JUndef \<Rightarrow> [] | JNull \<Rightarrow> [] | _ \<Rightarrow> js_string v) # js_strings vs"

section \<open>JSON.stringify\<close>

definition json_char :: "char \<Rightarrow> string" where
  "json_char c = (let n = (of_char c :: nat) in
     if n = 34 then [CHR 0x5C, CHR 0x22] else if n = 92 then [CHR 0x5C, CHR 0x5C]
     else if n = 8 then [CHR 0x5C, CHR ''b''] else if n = 9 then [CHR 0x5C, CHR ''t'']
     else if n = 10 then [CHR 0x5C, CHR ''n''] else if n = 12 then [CHR 0x5C, CHR ''f'']
     else if n = 13 then [CHR 0x5C, CHR ''r'']
     else if n < 32 then [CHR 0x5C, CHR ''u'', CHR ''0'', CHR ''0'', hex_char (n div 16), hex_char (n mod 16)]
     else [c])"

definition json_quote :: "string \<Rightarrow> string" where
  "json_quote s = CHR 0x22 # concat (map json_char s) @ [CHR 0x22]"

text \<open>
  \<open>None\<close> is the TypeError a BigInt raises. Undefined is null inside an array and dropped inside
  an object; \<open>json_stringify\<close> at the top gives undefined for it, which every caller here hands
  to a hash that throws on it, so both are \<open>None\<close>.
\<close>

fun jstr :: "jsval \<Rightarrow> string option"
  and jstr_elems :: "jsval list \<Rightarrow> string list option"
  and jstr_props :: "(string \<times> jsval) list \<Rightarrow> string list option" where
  "jstr JUndef = Some ''null''"
| "jstr JNull = Some ''null''"
| "jstr (JBool b) = Some (if b then ''true'' else ''false'')"
| "jstr (JInt n) = Some (show_int n)"
| "jstr (JFrac f) = Some f"
| "jstr JNaN = Some ''null''"
| "jstr (JInf b) = Some ''null''"
| "jstr (JBig n) = None"
| "jstr (JStr s) = Some (json_quote s)"
| "jstr (JArr xs) = map_option (\<lambda>es. ''['' @ join '','' es @ '']'') (jstr_elems xs)"
| "jstr (JObj kvs) = map_option (\<lambda>es. ''{'' @ join '','' es @ ''}'') (jstr_props kvs)"
| "jstr_elems [] = Some []"
| "jstr_elems (v # vs) =
     (case jstr v of None \<Rightarrow> None | Some s \<Rightarrow> map_option ((#) s) (jstr_elems vs))"
| "jstr_props [] = Some []"
| "jstr_props ((k, v) # kvs) =
     (if v = JUndef then jstr_props kvs
      else (case jstr v of None \<Rightarrow> None
            | Some s \<Rightarrow> map_option ((#) (json_quote k @ '':'' @ s)) (jstr_props kvs)))"

definition json_stringify :: "jsval \<Rightarrow> string option" where
  "json_stringify v = (if v = JUndef then None else jstr v)"

fun no_big :: "jsval \<Rightarrow> bool" and no_big_list :: "jsval list \<Rightarrow> bool"
  and no_big_props :: "(string \<times> jsval) list \<Rightarrow> bool" where
  "no_big (JBig n) = False"
| "no_big (JArr xs) = no_big_list xs"
| "no_big (JObj kvs) = no_big_props kvs"
| "no_big _ = True"
| "no_big_list [] = True"
| "no_big_list (v # vs) = (no_big v \<and> no_big_list vs)"
| "no_big_props [] = True"
| "no_big_props ((k, v) # kvs) = (no_big v \<and> no_big_props kvs)"

lemma jstr_no_big:
  "jstr v \<noteq> None \<longleftrightarrow> no_big v"
  "jstr_elems vs \<noteq> None \<longleftrightarrow> no_big_list vs"
  "jstr_props kvs \<noteq> None \<longleftrightarrow> no_big_props kvs"
  by (induction v and vs and kvs rule: jstr_jstr_elems_jstr_props.induct) (auto split: option.splits)

lemma json_stringify_total: "no_big v \<Longrightarrow> v \<noteq> JUndef \<Longrightarrow> \<exists>s. json_stringify v = Some s"
  using jstr_no_big(1)[of v] by (auto simp: json_stringify_def)

text \<open>\<open>JSON.parse(JSON.stringify(v))\<close>: what a value is after a trip through its JSON text.\<close>

fun json_norm :: "jsval \<Rightarrow> jsval" and json_norm_elems :: "jsval list \<Rightarrow> jsval list"
  and json_norm_props :: "(string \<times> jsval) list \<Rightarrow> (string \<times> jsval) list" where
  "json_norm JUndef = JNull"
| "json_norm JNaN = JNull"
| "json_norm (JInf b) = JNull"
| "json_norm (JArr xs) = JArr (json_norm_elems xs)"
| "json_norm (JObj kvs) = JObj (json_norm_props kvs)"
| "json_norm v = v"
| "json_norm_elems [] = []"
| "json_norm_elems (v # vs) = json_norm v # json_norm_elems vs"
| "json_norm_props [] = []"
| "json_norm_props ((k, v) # kvs) =
     (if v = JUndef then json_norm_props kvs else (k, json_norm v) # json_norm_props kvs)"

lemma json_norm_not_undef [simp]: "json_norm v \<noteq> JUndef"
  by (cases v) auto

lemma jstr_json_norm:
  "jstr (json_norm v) = jstr v"
  "jstr_elems (json_norm_elems vs) = jstr_elems vs"
  "jstr_props (json_norm_props kvs) = jstr_props kvs"
  by (induction v and vs and kvs rule: json_norm_json_norm_elems_json_norm_props.induct)
     (auto split: option.splits)

lemma json_stringify_norm: "v \<noteq> JUndef \<Longrightarrow> json_stringify (json_norm v) = json_stringify v"
  by (simp add: json_stringify_def jstr_json_norm)

end
