(* ===== verification/Sha256.thy ===== *)
theory Sha256
  imports JsValue "HOL-Library.Word"
begin

unbundle bit_operations_syntax

text \<open>
  The digest the program computes with \<open>createHash('sha256')\<close> of Node's crypto module. The
  component theories take the digest as an argument \<open>H\<close> (raw bytes) or \<open>hx\<close> (hexadecimal
  text) and state what they need of it; this theory states that contract as the locale
  \<open>digest\<close> and discharges it for SHA-256 as FIPS 180-4 defines it, on 32-bit words.
\<close>

type_synonym u32 = "32 word"
type_synonym hstate = "u32 \<times> u32 \<times> u32 \<times> u32 \<times> u32 \<times> u32 \<times> u32 \<times> u32"

definition sha_k :: "u32 list" where
  "sha_k =
  [1116352408, 1899447441, 3049323471, 3921009573, 961987163, 1508970993, 2453635748, 2870763221,
   3624381080, 310598401, 607225278, 1426881987, 1925078388, 2162078206, 2614888103, 3248222580,
   3835390401, 4022224774, 264347078, 604807628, 770255983, 1249150122, 1555081692, 1996064986,
   2554220882, 2821834349, 2952996808, 3210313671, 3336571891, 3584528711, 113926993, 338241895,
   666307205, 773529912, 1294757372, 1396182291, 1695183700, 1986661051, 2177026350, 2456956037,
   2730485921, 2820302411, 3259730800, 3345764771, 3516065817, 3600352804, 4094571909, 275423344,
   430227734, 506948616, 659060556, 883997877, 958139571, 1322822218, 1537002063, 1747873779,
   1955562222, 2024104815, 2227730452, 2361852424, 2428436474, 2756734187, 3204031479, 3329325298]"

definition sha_init :: hstate where
  "sha_init = (1779033703, 3144134277, 1013904242, 2773480762, 1359893119, 2600822924, 528734635, 1541459225)"

definition sha_sigma :: "nat \<Rightarrow> nat \<Rightarrow> nat \<Rightarrow> u32 \<Rightarrow> u32" where
  "sha_sigma a b c x = (word_rotr a x XOR word_rotr b x) XOR word_rotr c x"

definition sha_gamma :: "nat \<Rightarrow> nat \<Rightarrow> nat \<Rightarrow> u32 \<Rightarrow> u32" where
  "sha_gamma a b c x = (word_rotr a x XOR word_rotr b x) XOR drop_bit c x"

definition be32 :: "string \<Rightarrow> u32" where
  "be32 s = foldl (\<lambda>w c. 256 * w + of_nat (of_char c)) 0 s"

fun words_of :: "nat \<Rightarrow> string \<Rightarrow> u32 list" where
  "words_of 0 s = []"
| "words_of (Suc n) s = be32 (take 4 s) # words_of n (drop 4 s)"

text \<open>The message schedule, newest word first.\<close>

fun sha_extend :: "nat \<Rightarrow> u32 list \<Rightarrow> u32 list" where
  "sha_extend 0 w = w"
| "sha_extend (Suc n) w =
     sha_extend n ((sha_gamma 17 19 10 (w ! 1) + w ! 6 + sha_gamma 7 18 3 (w ! 14) + w ! 15) # w)"

definition sha_round :: "hstate \<Rightarrow> u32 \<times> u32 \<Rightarrow> hstate" where
  "sha_round st kw = (case st of (a, b, c, d, e, f, g, h) \<Rightarrow>
     let t1 = h + sha_sigma 6 11 25 e + ((e AND f) XOR (NOT e AND g)) + fst kw + snd kw;
         t2 = sha_sigma 2 13 22 a + (((a AND b) XOR (a AND c)) XOR (b AND c))
     in (t1 + t2, a, b, c, d + t1, e, f, g))"

definition sha_add :: "hstate \<Rightarrow> hstate \<Rightarrow> hstate" where
  "sha_add s t = (case s of (a, b, c, d, e, f, g, h) \<Rightarrow> case t of (a', b', c', d', e', f', g', h') \<Rightarrow>
     (a + a', b + b', c + c', d + d', e + e', f + f', g + g', h + h'))"

definition sha_block :: "hstate \<Rightarrow> string \<Rightarrow> hstate" where
  "sha_block st blk =
     sha_add st (foldl sha_round st (zip sha_k (rev (sha_extend 48 (rev (words_of 16 blk))))))"

definition be_bytes :: "nat \<Rightarrow> nat \<Rightarrow> string" where
  "be_bytes n v = map (\<lambda>i. char_of ((v div 256 ^ (n - 1 - i)) mod 256)) [0..<n]"

definition sha_pad :: "string \<Rightarrow> string" where
  "sha_pad s = s @ [char_of (128 :: nat)] @ replicate ((119 - length s mod 64) mod 64) (char_of (0 :: nat))
     @ be_bytes 8 (8 * length s)"

fun sha_blocks :: "nat \<Rightarrow> hstate \<Rightarrow> string \<Rightarrow> hstate" where
  "sha_blocks 0 st s = st"
| "sha_blocks (Suc n) st s = sha_blocks n (sha_block st (take 64 s)) (drop 64 s)"

definition sha256 :: "string \<Rightarrow> string" where
  "sha256 s = (let p = sha_pad s in
     case sha_blocks (length p div 64) sha_init p of (a, b, c, d, e, f, g, h) \<Rightarrow>
       concat (map (\<lambda>w. be_bytes 4 (unat w)) [a, b, c, d, e, f, g, h]))"

definition sha256_hex :: "string \<Rightarrow> string" where
  "sha256_hex s = hex_of (sha256 s)"

lemma be_bytes_length [simp]: "length (be_bytes n v) = n"
  by (simp add: be_bytes_def)

lemma sha256_length: "length (sha256 s) = 32"
  by (simp add: sha256_def Let_def split: prod.split)

lemma pad_arith: "(r :: nat) < 64 \<Longrightarrow> r + 9 + (119 - r) mod 64 = (if r \<le> 55 then 64 else 128)"
  by (cases "r \<le> 55") (auto simp: mod_if)

lemma sha_pad_blocks: "64 dvd length (sha_pad s)"
proof -
  define q r where "q = length s div 64" and "r = length s mod 64"
  have r: "r < 64" by (simp add: r_def)
  have "length s = 64 * q + r" by (simp add: q_def r_def)
  then have "length (sha_pad s) = 64 * q + (r + 9 + (119 - r) mod 64)"
    using r by (simp add: sha_pad_def mod_less)
  then have "length (sha_pad s) = 64 * q + (if r \<le> 55 then 64 else 128)"
    using pad_arith[OF r] by presburger
  then show ?thesis by simp
qed

text \<open>
  The contract of a digest: raw 32-byte output, and what its hexadecimal text then satisfies.
\<close>

locale digest =
  fixes H :: "string \<Rightarrow> string"
  assumes digest_length: "length (H s) = 32"
begin

lemma digest_hex64: "hex64 (hex_of (H s))"
  by (rule hex_of_hex64) (rule digest_length)

lemma digest_id16: "is_hex_str 16 16 (take 16 (hex_of (H s)))"
  using digest_hex64[of s] by (auto simp: is_hex_str_def dest: in_set_takeD)

lemma digest_hex_key: "is_hex_str 16 64 (hex_of (H s))"
  using digest_hex64[of s] by (auto simp: is_hex_str_def)

end

interpretation sha: digest sha256
  by unfold_locales (rule sha256_length)

end
