(* ===== verification/VerkleTree.thy ===== *)
theory VerkleTree
  imports Sha256
begin

text \<open>
  \<open>packages/state-machine/src/verkle-tree.js\<close>: the state commitment. The code holds a 256-ary
  trie of depth 32 compressed (a key alone below a node is one \<open>Leaf\<close> standing for the whole
  single-child chain) and hashes it lazily: every node caches its hash and a write clears the
  caches on its path, moving a leaf's cached hashes when the leaf moves one level.

  This theory models the nodes with their caches, the writes, the hashing that fills the caches,
  and states the reference: \<open>trie_hash\<close>, the hash of the uncompressed per-level trie over a set
  of entries. Digests are raw 32-byte strings and \<open>H\<close> is the digest.
\<close>

section \<open>Nodes and the row buffer\<close>

datatype vnode =
    Branch (kids: "(nat \<times> vnode) list") (bhash: "string option")
  | Leaf (lkey: string) (lval: string) (ldepth: nat) (lhash: "string option") (lbelow: "string option")

definition nib :: "string \<Rightarrow> nat \<Rightarrow> nat" where
  "nib k d = of_char (k ! d)"

definition zero32 :: string where
  "zero32 = replicate 32 (char_of (0 :: nat))"

text \<open>\<open>ROW\<close>: 256 slots of 32 bytes, all zero between uses; \<open>row_write\<close> is \<open>ROW.write\<close>.\<close>

definition row_zero :: string where
  "row_zero = replicate (256 * 32) (char_of (0 :: nat))"

definition row_write :: "string \<Rightarrow> nat \<Rightarrow> string \<Rightarrow> string" where
  "row_write h off row = take off row @ take 32 h @ drop (off + 32) row"

definition oneChild :: "(string \<Rightarrow> string) \<Rightarrow> nat \<Rightarrow> string \<Rightarrow> string" where
  "oneChild H b h = H (row_write h (b * 32) row_zero)"

section \<open>Hashing, with the caches it fills\<close>

text \<open>The loop of \<open>leafHash\<close> from depth 31 down to the node below the leaf's own depth.\<close>

definition leaf_below :: "(string \<Rightarrow> string) \<Rightarrow> string \<Rightarrow> string \<Rightarrow> nat \<Rightarrow> string" where
  "leaf_below H k v d = foldl (\<lambda>h j. oneChild H (nib k j) h) v (rev [Suc d..<32])"

fun leafHash :: "(string \<Rightarrow> string) \<Rightarrow> vnode \<Rightarrow> string \<times> vnode" where
  "leafHash H (Leaf k v d h b) =
     (case h of Some x \<Rightarrow> (x, Leaf k v d h b)
      | None \<Rightarrow>
          if d = 32 then (v, Leaf k v d (Some v) b)
          else (let below = (case b of Some y \<Rightarrow> y | None \<Rightarrow> leaf_below H k v d);
                    r = oneChild H (nib k d) below
                in (r, Leaf k v d (Some r) (Some below))))"
| "leafHash H (Branch ks h) = ([], Branch ks h)"

definition write_slots :: "(nat \<times> string) list \<Rightarrow> string \<Rightarrow> string" where
  "write_slots slots row = fold (\<lambda>(b, x). row_write x (b * 32)) slots row"

fun hashOf :: "(string \<Rightarrow> string) \<Rightarrow> vnode \<Rightarrow> string \<times> vnode"
  and hash_kids :: "(string \<Rightarrow> string) \<Rightarrow> (nat \<times> vnode) list \<Rightarrow> (nat \<times> string) list \<times> (nat \<times> vnode) list" where
  "hashOf H (Leaf k v d h b) = leafHash H (Leaf k v d h b)"
| "hashOf H (Branch ks h) =
     (case h of Some x \<Rightarrow> (x, Branch ks h)
      | None \<Rightarrow>
          if ks = [] then (zero32, Branch ks (Some zero32))
          else (let (slots, ks') = hash_kids H ks;
                    r = H (write_slots slots row_zero)
                in (r, Branch ks' (Some r))))"
| "hash_kids H [] = ([], [])"
| "hash_kids H ((b, c) # ks) =
     (let (x, c') = hashOf H c; (slots, ks') = hash_kids H ks in ((b, x) # slots, (b, c') # ks'))"

section \<open>Placing and removing one key\<close>

function put_at :: "string \<Rightarrow> string \<Rightarrow> nat \<Rightarrow> vnode \<Rightarrow> vnode" where
  "put_at kh vh d (Branch ks h) =
     (if 32 \<le> d then Branch ks None
      else (case jget ks (nib kh d) of
          None \<Rightarrow> Branch (jset ks (nib kh d) (Leaf kh vh (d + 1) None None)) None
        | Some (Branch ks' h') \<Rightarrow> Branch (jset ks (nib kh d) (put_at kh vh (Suc d) (Branch ks' h'))) None
        | Some (Leaf k v ld lh lb) \<Rightarrow>
            if k = kh then Branch (jset ks (nib kh d) (Leaf k vh ld None None)) None
            else Branch (jset ks (nib kh d)
                   (put_at kh vh (Suc d) (Branch [(nib k ld, Leaf k v (ld + 1) lb None)] None))) None))"
| "put_at kh vh d (Leaf k v ld lh lb) = Leaf k v ld lh lb"
  by pat_completeness auto
termination
  by (relation "measure (\<lambda>(kh, vh, d, n). 32 - d)") auto

text \<open>
  \<open>_drop\<close>: \<open>None\<close> is the \<open>false\<close> of a key that is not there (nothing changed). Otherwise
  the flag says whether the upward walk that removes emptied branches and pulls a lone leaf one
  level up is still going.
\<close>

definition collapse :: "(nat \<times> vnode) list \<Rightarrow> nat \<Rightarrow> bool \<Rightarrow> vnode \<Rightarrow> bool \<times> vnode" where
  "collapse ks b go c =
     (if \<not> go then (False, Branch (jset ks b c) None)
      else (case kids c of
          [] \<Rightarrow> (True, Branch (jdel ks b) None)
        | [(_, Leaf k v ld lh lb)] \<Rightarrow> (True, Branch (jset ks b (Leaf k v (ld - 1) None lh)) None)
        | _ \<Rightarrow> (False, Branch (jset ks b c) None)))"

function drop_at :: "string \<Rightarrow> nat \<Rightarrow> vnode \<Rightarrow> (bool \<times> vnode) option" where
  "drop_at kh d (Branch ks h) =
     (if 32 \<le> d then None
      else (case jget ks (nib kh d) of
          None \<Rightarrow> None
        | Some (Leaf k v ld lh lb) \<Rightarrow>
            if k \<noteq> kh then None else Some (True, Branch (jdel ks (nib kh d)) None)
        | Some (Branch ks' h') \<Rightarrow>
            (case drop_at kh (Suc d) (Branch ks' h') of
               None \<Rightarrow> None
             | Some (go, c) \<Rightarrow> Some (collapse ks (nib kh d) go c))))"
| "drop_at kh d (Leaf k v ld lh lb) = None"
  by pat_completeness auto
termination
  by (relation "measure (\<lambda>(kh, d, n). 32 - d)") auto

declare put_at.simps [simp del] drop_at.simps [simp del]

section \<open>The reference: the per-level trie over a set of entries\<close>

fun ents :: "vnode \<Rightarrow> (string \<times> string) list" and ents_kids :: "(nat \<times> vnode) list \<Rightarrow> (string \<times> string) list" where
  "ents (Leaf k v d h b) = [(k, v)]"
| "ents (Branch ks h) = ents_kids ks"
| "ents_kids [] = []"
| "ents_kids ((b, c) # ks) = ents c @ ents_kids ks"

definition row_of :: "(nat \<Rightarrow> string) \<Rightarrow> string" where
  "row_of f = concat (map f [0..<256])"

function trie_hash :: "(string \<Rightarrow> string) \<Rightarrow> nat \<Rightarrow> (string \<times> string) list \<Rightarrow> string" where
  "trie_hash H d es =
     (if es = [] then zero32
      else if 32 \<le> d then snd (hd es)
      else H (row_of (\<lambda>b. trie_hash H (Suc d) (filter (\<lambda>(k, v). nib k d = b) es))))"
  by pat_completeness auto
termination
  by (relation "measure (\<lambda>(H, d, es). 32 - d)") auto

declare trie_hash.simps [simp del]

text \<open>The hash a node stands for, whatever its caches hold.\<close>

function chain :: "(string \<Rightarrow> string) \<Rightarrow> string \<Rightarrow> string \<Rightarrow> nat \<Rightarrow> string" where
  "chain H k v d = (if 32 \<le> d then v else oneChild H (nib k d) (chain H k v (Suc d)))"
  by pat_completeness auto
termination
  by (relation "measure (\<lambda>(H, k, v, d). 32 - d)") auto

declare chain.simps [simp del]

fun nhash :: "(string \<Rightarrow> string) \<Rightarrow> vnode \<Rightarrow> string" and nslots :: "(string \<Rightarrow> string) \<Rightarrow> (nat \<times> vnode) list \<Rightarrow> (nat \<times> string) list" where
  "nhash H (Leaf k v d h b) = chain H k v d"
| "nhash H (Branch ks h) = (if ks = [] then zero32 else H (write_slots (nslots H ks) row_zero))"
| "nslots H [] = []"
| "nslots H ((b, c) # ks) = (b, nhash H c) # nslots H ks"

section \<open>Well-formed nodes and sound caches\<close>

definition heavy :: "vnode \<Rightarrow> bool" where
  "heavy c \<longleftrightarrow> (case c of Leaf _ _ _ _ _ \<Rightarrow> True | Branch _ _ \<Rightarrow> 2 \<le> length (ents c))"

fun wfn :: "nat \<Rightarrow> vnode \<Rightarrow> bool" and wf_kids :: "nat \<Rightarrow> (nat \<times> vnode) list \<Rightarrow> bool" where
  "wfn d (Leaf k v ld h b) \<longleftrightarrow> ld = d \<and> d \<le> 32 \<and> length k = 32 \<and> length v = 32"
| "wfn d (Branch ks h) \<longleftrightarrow> d < 32 \<and> distinct (jkeys ks) \<and> wf_kids d ks"
| "wf_kids d [] \<longleftrightarrow> True"
| "wf_kids d ((b, c) # ks) \<longleftrightarrow> b < 256 \<and> wfn (Suc d) c \<and> heavy c \<and> (\<forall>(k, v) \<in> set (ents c). nib k d = b) \<and> wf_kids d ks"

fun cached :: "(string \<Rightarrow> string) \<Rightarrow> vnode \<Rightarrow> bool" and cached_kids :: "(string \<Rightarrow> string) \<Rightarrow> (nat \<times> vnode) list \<Rightarrow> bool" where
  "cached H (Leaf k v d h b) \<longleftrightarrow> (\<forall>x. h = Some x \<longrightarrow> x = chain H k v d) \<and>
     (\<forall>y. b = Some y \<longrightarrow> d < 32 \<and> y = chain H k v (Suc d))"
| "cached H (Branch ks h) \<longleftrightarrow> (\<forall>x. h = Some x \<longrightarrow> x = nhash H (Branch ks h)) \<and> cached_kids H ks"
| "cached_kids H [] \<longleftrightarrow> True"
| "cached_kids H ((b, c) # ks) \<longleftrightarrow> cached H c \<and> cached_kids H ks"

section \<open>Rows\<close>

lemma zero32_length [simp]: "length zero32 = 32"
  by (simp add: zero32_def)

lemma concat_length32: "(\<And>j. j \<in> set js \<Longrightarrow> length (f j) = 32) \<Longrightarrow> length (concat (map f js)) = length js * 32"
  by (induction js) auto

lemma row_split: "b < 256 \<Longrightarrow> row_of f = concat (map f [0..<b]) @ f b @ concat (map f [Suc b..<256])"
proof -
  assume b: "b < 256"
  then have "[0..<256] = [0..<b] @ b # [Suc b..<256]"
    by (metis le0 less_imp_le_nat upt_add_eq_append upt_conv_Cons ordered_cancel_comm_monoid_diff_class.add_diff_inverse)
  then show ?thesis by (simp add: row_of_def)
qed

lemma row_write_row_of:
  assumes "b < 256" "length x = 32" "\<And>j. length (f j) = 32"
  shows "row_write x (b * 32) (row_of f) = row_of (f(b := x))"
proof -
  have l: "length (concat (map f [0..<b])) = b * 32"
    by (subst concat_length32) (simp_all add: assms(3))
  have eq: "map (f(b := x)) [0..<b] = map f [0..<b]"
    "map (f(b := x)) [Suc b..<256] = map f [Suc b..<256]" by auto
  show ?thesis
    unfolding row_split[OF assms(1), of f] row_split[OF assms(1), of "f(b := x)"] eq
    by (simp add: row_write_def l assms)
qed

lemma row_zero_row_of: "row_zero = row_of (\<lambda>_. zero32)"
proof -
  have "concat (map (\<lambda>_. replicate 32 c) xs) = replicate (length xs * 32) c" for c :: char and xs :: "nat list"
    by (induction xs) (simp_all add: replicate_add)
  then show ?thesis by (simp add: row_zero_def row_of_def zero32_def)
qed

text \<open>The row the slots are written into is the row of their lookups, zero elsewhere.\<close>

lemma write_slots_row_of:
  assumes "distinct (jkeys slots)" "\<And>b x. (b, x) \<in> set slots \<Longrightarrow> b < 256 \<and> length x = 32"
    "\<And>j. length (f j) = 32"
  shows "write_slots slots (row_of f) = row_of (\<lambda>j. case jget slots j of Some x \<Rightarrow> x | None \<Rightarrow> f j)"
  using assms
proof (induction slots arbitrary: f)
  case Nil
  then show ?case by (simp add: write_slots_def)
next
  case (Cons p slots)
  obtain b x where p: "p = (b, x)" by (cases p)
  have bx: "b < 256" "length x = 32" using Cons.prems(2) p by auto
  have "write_slots (p # slots) (row_of f) = write_slots slots (row_of (f(b := x)))"
    using row_write_row_of[OF bx Cons.prems(3)] by (simp add: write_slots_def p)
  also have "\<dots> = row_of (\<lambda>j. case jget slots j of Some y \<Rightarrow> y | None \<Rightarrow> (f(b := x)) j)"
    using Cons.prems bx by (intro Cons.IH) (auto simp: p)
  also have "(\<lambda>j. case jget slots j of Some y \<Rightarrow> y | None \<Rightarrow> (f(b := x)) j)
      = (\<lambda>j. case jget (p # slots) j of Some y \<Rightarrow> y | None \<Rightarrow> f j)"
  proof
    fix j
    have "jget slots b = None" using Cons.prems(1) by (auto simp: p map_of_eq_None_iff)
    then show "(case jget slots j of Some y \<Rightarrow> y | None \<Rightarrow> (f(b := x)) j)
        = (case jget (p # slots) j of Some y \<Rightarrow> y | None \<Rightarrow> f j)"
      by (auto simp: p split: option.split)
  qed
  finally show ?case .
qed

lemma write_slots_zero:
  assumes "distinct (jkeys slots)" "\<And>b x. (b, x) \<in> set slots \<Longrightarrow> b < 256 \<and> length x = 32"
  shows "write_slots slots row_zero = row_of (\<lambda>j. case jget slots j of Some x \<Rightarrow> x | None \<Rightarrow> zero32)"
  unfolding row_zero_row_of by (rule write_slots_row_of) (use assms in auto)

text \<open>\<open>ROW.fill(0, o, o + 32)\<close> after the hash leaves the shared buffer zero again.\<close>

lemma row_refill:
  assumes "b < 256" "length x = 32"
  shows "row_write zero32 (b * 32) (row_write x (b * 32) row_zero) = row_zero"
  unfolding row_zero_row_of using assms by (simp add: row_write_row_of) (simp add: fun_upd_idem)

lemma oneChild_row:
  "b < 256 \<Longrightarrow> length h = 32 \<Longrightarrow> oneChild H b h = H (row_of (\<lambda>j. if j = b then h else zero32))"
  by (simp add: oneChild_def row_zero_row_of row_write_row_of fun_upd_def)

lemma nib_less: "nib k d < 256"
  by (simp add: nib_def of_char_less256)

section \<open>The compressed trie hashes like the per-level trie\<close>

lemma trie_hash_Nil [simp]: "trie_hash H d [] = zero32"
  by (subst trie_hash.simps) simp

lemma ents_heavy: "heavy c \<Longrightarrow> ents c \<noteq> []"
  by (cases c) (auto simp: heavy_def)

lemma filter_ents_kids:
  "distinct (jkeys ks) \<Longrightarrow> wf_kids d ks \<Longrightarrow>
     filter (\<lambda>(k, v). nib k d = b) (ents_kids ks) = (case jget ks b of Some c \<Rightarrow> ents c | None \<Rightarrow> [])"
proof (induction ks)
  case Nil
  then show ?case by simp
next
  case (Cons p ks)
  obtain b' c where p: "p = (b', c)" by (cases p)
  have c: "\<forall>(k, v) \<in> set (ents c). nib k d = b'" using Cons.prems p by simp
  have "filter (\<lambda>(k, v). nib k d = b) (ents c) = (if b' = b then ents c else [])"
    using c by (auto intro!: filter_True filter_False)
  moreover have "jget ks b' = None" using Cons.prems(1) by (auto simp: p map_of_eq_None_iff)
  ultimately show ?case using Cons by (auto simp: p)
qed

context digest
begin

lemma chain_trie_hash: "d \<le> 32 \<Longrightarrow> length v = 32 \<Longrightarrow>
   chain H k v d = trie_hash H d [(k, v)] \<and> length (trie_hash H d [(k, v)]) = 32"
proof (induction "32 - d" arbitrary: d)
  case 0
  then have "d = 32" by simp
  with 0 show ?case by (simp add: chain.simps[of H k v 32] trie_hash.simps[of H 32 "[(k, v)]"])
next
  case (Suc n)
  have IH: "chain H k v (Suc d) = trie_hash H (Suc d) [(k, v)]" "length (trie_hash H (Suc d) [(k, v)]) = 32"
    using Suc by auto
  have eq: "(\<lambda>j. if j = nib k d then trie_hash H (Suc d) [(k, v)] else zero32)
     = (\<lambda>b. trie_hash H (Suc d) (filter (\<lambda>(k, v). nib k d = b) [(k, v)]))"
    by (auto simp: fun_eq_iff)
  have d: "\<not> 32 \<le> d" using Suc.hyps by simp
  have "chain H k v d = H (row_of (\<lambda>j. if j = nib k d then trie_hash H (Suc d) [(k, v)] else zero32))"
    using d IH by (simp add: chain.simps[of H k v d] oneChild_row nib_less)
  moreover have "trie_hash H d [(k, v)]
      = H (row_of (\<lambda>b. trie_hash H (Suc d) (filter (\<lambda>(k, v). nib k d = b) [(k, v)])))"
    using d by (subst trie_hash.simps) simp
  ultimately show ?case
    unfolding eq by (simp only: digest_length)
qed

lemma nhash_trie:
  "wfn d n \<Longrightarrow> nhash H n = trie_hash H d (ents n) \<and> length (nhash H n) = 32"
  "wf_kids d ks \<Longrightarrow>
      (\<forall>b. jget (nslots H ks) b = map_option (\<lambda>c. trie_hash H (Suc d) (ents c)) (jget ks b)) \<and>
      (\<forall>(b, x) \<in> set (nslots H ks). b < 256 \<and> length x = 32) \<and> jkeys (nslots H ks) = jkeys ks"
proof (induction n and ks arbitrary: d and d rule: ents_ents_kids.induct)
  case (1 k v ld h b)
  then show ?case using chain_trie_hash by auto
next
  case (2 ks h)
  show ?case
  proof (cases "ks = []")
    case True
    then show ?thesis by simp
  next
    case False
    have w: "d < 32" "distinct (jkeys ks)" "wf_kids d ks" using 2(2) by auto
    have IH: "\<And>b. jget (nslots H ks) b = map_option (\<lambda>c. trie_hash H (Suc d) (ents c)) (jget ks b)"
      "\<And>b x. (b, x) \<in> set (nslots H ks) \<Longrightarrow> b < 256 \<and> length x = 32" "jkeys (nslots H ks) = jkeys ks"
      using 2(1)[OF w(3)] by auto
    have "write_slots (nslots H ks) row_zero
        = row_of (\<lambda>b. trie_hash H (Suc d) (filter (\<lambda>(k, v). nib k d = b) (ents_kids ks)))"
      using w IH by (subst write_slots_zero) (auto simp: filter_ents_kids split: option.split intro!: arg_cong[where f = row_of] ext)
    moreover have "ents_kids ks \<noteq> []"
      using False w(3) by (cases ks) (auto dest: ents_heavy)
    ultimately show ?thesis
      using False w(1) digest_length by (simp add: trie_hash.simps[of H d "ents_kids ks"])
  qed
next
  case 3
  then show ?case by simp
next
  case (4 b c ks)
  have "wfn (Suc d) c" "b < 256" "wf_kids d ks" using "4.prems" by auto
  moreover have "length (trie_hash H (Suc d) (ents c)) = 32"
    using "4.IH"(1)[of "Suc d"] \<open>wfn (Suc d) c\<close> by metis
  ultimately show ?case using "4.IH"(1)[of "Suc d"] "4.IH"(2)[of d] by simp
qed

end

end
