(* ===== verification/VerkleWrites.thy ===== *)
theory VerkleWrites
  imports VerkleTree
begin

text \<open>
  The writes of the compressed trie of \<open>verkle-tree.js\<close> against its entries: hashing fills caches
  and changes nothing else, \<open>put_at\<close> (\<open>_put\<close>) updates one entry, \<open>drop_at\<close> (\<open>_drop\<close>)
  removes one, and every one of them keeps the nodes well formed and every cached hash true.
\<close>

lemma wf_kids_iff:
  "wf_kids d ks \<longleftrightarrow> (\<forall>(b, c) \<in> set ks. b < 256 \<and> wfn (Suc d) c \<and> heavy c \<and> (\<forall>(k, v) \<in> set (ents c). nib k d = b))"
  by (induction ks) auto

lemma cached_kids_iff: "cached_kids H ks \<longleftrightarrow> (\<forall>(b, c) \<in> set ks. cached H c)"
  by (induction ks) auto

lemma ents_kids_iff: "set (ents_kids ks) = (\<Union>(b, c) \<in> set ks. set (ents c))"
  by (induction ks) auto

lemma ents_kids_jset:
  "distinct (jkeys ks) \<Longrightarrow>
     set (ents_kids (jset ks b c)) = set (ents c) \<union> (\<Union>(b', c') \<in> {p \<in> set ks. fst p \<noteq> b}. set (ents c'))"
  by (auto simp: ents_kids_iff jset_set jmap_ok_def)

lemma ents_kids_jdel:
  "set (ents_kids (jdel ks b)) = (\<Union>(b', c') \<in> {p \<in> set ks. fst p \<noteq> b}. set (ents c'))"
  by (simp add: ents_kids_iff jdel_set)

lemma wf_kids_jset:
  assumes "wf_kids d ks" "distinct (jkeys ks)" "b < 256" "wfn (Suc d) c" "heavy c"
    "\<forall>(k, v) \<in> set (ents c). nib k d = b"
  shows "wf_kids d (jset ks b c)"
  using assms by (auto simp: wf_kids_iff jset_set jmap_ok_def)

lemma wf_kids_jdel: "wf_kids d ks \<Longrightarrow> wf_kids d (jdel ks b)"
  by (auto simp: wf_kids_iff jdel_set)

lemma cached_kids_jset: "cached_kids H ks \<Longrightarrow> distinct (jkeys ks) \<Longrightarrow> cached H c \<Longrightarrow> cached_kids H (jset ks b c)"
  by (auto simp: cached_kids_iff jset_set jmap_ok_def)

lemma cached_kids_jdel: "cached_kids H ks \<Longrightarrow> cached_kids H (jdel ks b)"
  by (auto simp: cached_kids_iff jdel_set)

lemma distinct_ents:
  "wfn d n \<Longrightarrow> distinct (map fst (ents n))"
  "wf_kids d ks \<Longrightarrow> distinct (jkeys ks) \<Longrightarrow> distinct (map fst (ents_kids ks))"
proof (induction n and ks arbitrary: d and d rule: ents_ents_kids.induct)
  case (4 b c ks)
  have a: "nib k d = b" if "(k, v) \<in> set (ents c)" for k v
    using that "4.prems" by auto
  have b: "nib k d \<noteq> b" if kv: "(k, v) \<in> set (ents_kids ks)" for k v
  proof -
    obtain b' c' where c': "(b', c') \<in> set ks" "(k, v) \<in> set (ents c')"
      using kv by (auto simp: ents_kids_iff)
    then have "nib k d = b'" using "4.prems"(1) by (auto simp: wf_kids_iff)
    then show ?thesis using c'(1) "4.prems"(2) by (auto simp: image_iff)
  qed
  have "k \<notin> set (map fst (ents_kids ks))" if "k \<in> set (map fst (ents c))" for k
    using that a b by (metis (no_types, lifting) imageE list.set_map prod.collapse)
  then have "set (map fst (ents c)) \<inter> set (map fst (ents_kids ks)) = {}"
    by blast
  moreover have "distinct (map fst (ents c))" "distinct (map fst (ents_kids ks))"
    using "4.IH"(1)[of "Suc d"] "4.IH"(2)[of d] "4.prems" by auto
  ultimately show ?case by simp
qed auto

lemma keys_length:
  "wfn d n \<Longrightarrow> (k, v) \<in> set (ents n) \<Longrightarrow> length k = 32 \<and> length v = 32"
  "wf_kids d ks \<Longrightarrow> (k, v) \<in> set (ents_kids ks) \<Longrightarrow> length k = 32 \<and> length v = 32"
  by (induction n and ks arbitrary: d and d rule: ents_ents_kids.induct) auto

lemma heavy_card: "wfn d n \<Longrightarrow> heavy n \<longleftrightarrow> (case n of Leaf _ _ _ _ _ \<Rightarrow> True | _ \<Rightarrow> 2 \<le> card (fst ` set (ents n)))"
  using distinct_ents(1)[of d n] distinct_card[of "map fst (ents n)"] by (cases n) (auto simp: heavy_def)

lemma prefix_step:
  assumes "d < 32" "length k = 32" "length k' = 32" "take d k = take d k'" "nib k d = nib k' d"
  shows "take (Suc d) k = take (Suc d) k'"
  using assms by (simp add: take_Suc_conv_app_nth nib_def)

section \<open>Hashing\<close>

lemma chain_32 [simp]: "chain H k v 32 = v"
  by (subst chain.simps) simp

lemma chain_step: "d < 32 \<Longrightarrow> chain H k v d = oneChild H (nib k d) (chain H k v (Suc d))"
  by (subst chain.simps) simp

lemma loop_chain: "m \<le> 32 \<Longrightarrow> foldl (\<lambda>h j. oneChild H (nib k j) h) v (rev [m..<32]) = chain H k v m"
proof (induction "32 - m" arbitrary: m)
  case 0
  then have "m = 32" by simp
  then show ?case by simp
next
  case (Suc n)
  then have "[m..<32] = m # [Suc m..<32]" by (simp add: upt_conv_Cons)
  then show ?case using Suc by (simp add: chain_step)
qed

lemma hashOf_correct:
  "wfn d n \<Longrightarrow> cached H n \<Longrightarrow> hashOf H n = (x, n') \<Longrightarrow>
     x = nhash H n \<and> nhash H n' = nhash H n \<and> ents n' = ents n \<and> wfn d n' \<and> cached H n' \<and> heavy n' = heavy n"
  "wf_kids d ks \<Longrightarrow> cached_kids H ks \<Longrightarrow> hash_kids H ks = (slots, ks') \<Longrightarrow>
     slots = nslots H ks \<and> nslots H ks' = nslots H ks \<and> ents_kids ks' = ents_kids ks \<and> jkeys ks' = jkeys ks
     \<and> wf_kids d ks' \<and> cached_kids H ks'"
proof (induction n and ks arbitrary: d x n' and d slots ks' rule: ents_ents_kids.induct)
  case (1 k v ld h b)
  have "leaf_below H k v ld = chain H k v (Suc ld)" if "ld < 32"
    using loop_chain[of "Suc ld" H k v] that by (simp add: leaf_below_def)
  then have lb: "ld < 32 \<Longrightarrow> leaf_below H k v ld = chain H k v (Suc ld)"
    and st: "ld < 32 \<Longrightarrow> chain H k v ld = oneChild H (nib k ld) (chain H k v (Suc ld))"
    by (auto intro: chain_step)
  show ?case
  proof (cases "ld = 32")
    case True
    then show ?thesis using 1 by (auto simp: heavy_def split: option.splits)
  next
    case False
    then have ld: "ld < 32" using 1 by auto
    show ?thesis using 1 lb[OF ld] st[OF ld] False
      by (auto simp: Let_def heavy_def split: option.splits)
  qed
next
  case (2 ks h)
  show ?case
  proof (cases h)
    case (Some y)
    then show ?thesis using 2 by auto
  next
    case None
    obtain slots ks' where k: "hash_kids H ks = (slots, ks')" by (cases "hash_kids H ks")
    have w: "wf_kids d ks" "cached_kids H ks" using 2 by auto
    note IH = "2.IH"[OF w k]
    show ?thesis
    proof (cases "ks = []")
      case True
      then show ?thesis using 2 None by (auto simp: heavy_def)
    next
      case False
      then have "ks' \<noteq> []" using IH by auto
      moreover have "x = nhash H (Branch ks h)" "n' = Branch ks' (Some x)"
        using 2(4) None False k IH by (auto simp: Let_def)
      ultimately show ?thesis using 2(2) IH False by (simp add: heavy_def)
    qed
  qed
next
  case 3
  then show ?case by simp
next
  case (4 b c ks)
  obtain y c' where c: "hashOf H c = (y, c')" by (cases "hashOf H c")
  obtain s ks'' where k: "hash_kids H ks = (s, ks'')" by (cases "hash_kids H ks")
  have w: "wfn (Suc d) c" "cached H c" "wf_kids d ks" "cached_kids H ks" using 4 by auto
  note IH = "4.IH"(1)[OF w(1,2) c] "4.IH"(2)[OF w(3,4) k]
  have "slots = (b, y) # s" "ks' = (b, c') # ks''" using "4.prems"(3) c k by auto
  then show ?case using IH "4.prems"(1) by simp
qed

section \<open>Placing a key\<close>

definition same_prefix :: "nat \<Rightarrow> string \<Rightarrow> vnode \<Rightarrow> bool" where
  "same_prefix d kh n \<longleftrightarrow> (\<forall>(k, v) \<in> set (ents n). take d k = take d kh)"

lemma same_prefix_kid:
  assumes "wfn d (Branch ks h)" "same_prefix d kh (Branch ks h)" "length kh = 32" "jget ks (nib kh d) = Some c"
  shows "same_prefix (Suc d) kh c"
proof -
  have c: "(nib kh d, c) \<in> set ks" using assms(4) by (rule jget_in)
  then have w: "wfn (Suc d) c" "\<forall>(k, v) \<in> set (ents c). nib k d = nib kh d" "d < 32"
    using assms(1) by (auto simp: wf_kids_iff)
  show ?thesis unfolding same_prefix_def
  proof (clarify)
    fix k v assume kv: "(k, v) \<in> set (ents c)"
    then have "take d k = take d kh" using assms(2) c by (auto simp: same_prefix_def ents_kids_iff)
    then show "take (Suc d) k = take (Suc d) kh"
      using prefix_step[of d k kh] kv w assms(3) keys_length(1)[OF w(1) kv] by auto
  qed
qed

definition put_spec :: "(string \<Rightarrow> string) \<Rightarrow> string \<Rightarrow> string \<Rightarrow> nat \<Rightarrow> vnode \<Rightarrow> vnode \<Rightarrow> bool" where
  "put_spec H kh vh d n n' \<longleftrightarrow> (\<exists>ks. n' = Branch ks None) \<and> wfn d n' \<and> cached H n' \<and>
     set (ents n') = insert (kh, vh) {p \<in> set (ents n). fst p \<noteq> kh}"

lemma put_spec_keys: "put_spec H kh vh d n n' \<Longrightarrow> fst ` set (ents n') = insert kh (fst ` set (ents n))"
  by (auto simp: put_spec_def)

text \<open>The entries of a node: those of the child at one slot and the rest.\<close>

definition rest :: "(nat \<times> vnode) list \<Rightarrow> nat \<Rightarrow> (string \<times> string) set" where
  "rest ks b = (\<Union>(b', c') \<in> {p \<in> set ks. fst p \<noteq> b}. set (ents c'))"

lemma rest_nib:
  assumes "wf_kids d ks" "p \<in> rest ks b"
  shows "nib (fst p) d \<noteq> b"
proof -
  obtain q where q: "q \<in> set ks" "fst q \<noteq> b" "p \<in> set (ents (snd q))"
    using assms(2) unfolding rest_def by (auto split: prod.splits)
  obtain b' c' where bc: "q = (b', c')" by (cases q)
  have "nib (fst p) d = fst q" using assms(1)[unfolded wf_kids_iff] q bc by fastforce
  then show ?thesis using q(2) by simp
qed

lemma kids_split:
  assumes d: "distinct (jkeys ks)"
  shows "set (ents_kids ks) = (case jget ks b of Some c \<Rightarrow> set (ents c) | None \<Rightarrow> {}) \<union> rest ks b"
proof (cases "jget ks b")
  case None
  then have "\<forall>p \<in> set ks. fst p \<noteq> b" by (metis imageI map_of_eq_None_iff)
  then have "{p \<in> set ks. fst p \<noteq> b} = set ks" by blast
  then show ?thesis using None by (simp add: rest_def ents_kids_iff)
next
  case (Some c0)
  let ?S = "{p \<in> set ks. fst p \<noteq> b}"
  have "set ks = insert (b, c0) ?S"
    using d Some by (auto dest: jget_in) (metis map_of_is_SomeI option.inject)
  then have "set (ents_kids ks) = (\<Union>(b', c') \<in> insert (b, c0) ?S. set (ents c'))"
    unfolding ents_kids_iff by metis
  also have "\<dots> = set (ents c0) \<union> (\<Union>(b', c') \<in> ?S. set (ents c'))"
    by (simp only: UN_insert prod.case)
  finally show ?thesis using Some by (simp add: rest_def)
qed

lemma ents_jset_rest: "distinct (jkeys ks) \<Longrightarrow> set (ents_kids (jset ks b c)) = set (ents c) \<union> rest ks b"
  by (simp add: ents_kids_jset rest_def)

lemma ents_jdel_rest: "set (ents_kids (jdel ks b)) = rest ks b"
  by (simp add: ents_kids_jdel rest_def)

lemma put_spec_kid:
  assumes w: "wfn d (Branch ks h)" "cached H (Branch ks h)"
    and c: "wfn (Suc d) c'" "cached H c'" "heavy c'" "\<forall>(k, v) \<in> set (ents c'). nib k d = nib kh d"
      "set (ents c') = insert (kh, vh) {p \<in> E. fst p \<noteq> kh}"
      "E = (case jget ks (nib kh d) of Some c \<Rightarrow> set (ents c) | None \<Rightarrow> {})"
  shows "put_spec H kh vh d (Branch ks h) (Branch (jset ks (nib kh d) c') None)"
proof -
  let ?b = "nib kh d"
  have d: "distinct (jkeys ks)" "wf_kids d ks" "d < 32" "cached_kids H ks" using w by auto
  have r: "fst p \<noteq> kh" if "p \<in> rest ks ?b" for p using rest_nib[OF d(2) that] by auto
  have "insert (kh, vh) {p \<in> E. fst p \<noteq> kh} \<union> rest ks ?b = insert (kh, vh) {p \<in> E \<union> rest ks ?b. fst p \<noteq> kh}"
    using r by blast
  then have "set (ents_kids (jset ks ?b c')) = insert (kh, vh) {p \<in> set (ents_kids ks). fst p \<noteq> kh}"
    unfolding ents_jset_rest[OF d(1)] kids_split[OF d(1), of ?b] c(5) c(6) .
  moreover have "wf_kids d (jset ks ?b c')" by (rule wf_kids_jset[OF d(2,1) nib_less c(1,3,4)])
  moreover have "cached_kids H (jset ks ?b c')" by (rule cached_kids_jset[OF d(4,1) c(2)])
  ultimately show ?thesis
    using d(1,3) by (simp add: put_spec_def distinct_update)
qed

lemma put_spec_heavy:
  assumes s: "put_spec H kh vh d n n'"
    and e: "(\<exists>k \<in> fst ` set (ents n). k \<noteq> kh) \<or> 2 \<le> card (fst ` set (ents n))"
  shows "heavy n'"
proof -
  have w: "wfn d n'" and b: "\<exists>ks. n' = Branch ks None" using s by (auto simp: put_spec_def)
  have fin: "finite (insert kh (fst ` set (ents n)))" by simp
  from e have "2 \<le> card (insert kh (fst ` set (ents n)))"
  proof
    assume "\<exists>k \<in> fst ` set (ents n). k \<noteq> kh"
    then obtain k where "k \<in> fst ` set (ents n)" "k \<noteq> kh" by blast
    then have "card {kh, k} = 2" "{kh, k} \<subseteq> insert kh (fst ` set (ents n))" by auto
    then show ?thesis using card_mono[OF fin] by metis
  next
    assume "2 \<le> card (fst ` set (ents n))"
    then show ?thesis by (meson List.finite_set card_insert_le finite_imageI le_trans)
  qed
  then show ?thesis using heavy_card[OF w] b put_spec_keys[OF s] by auto
qed

lemma put_at_correct:
  assumes "wfn d (Branch ks h)" "cached H (Branch ks h)" "length kh = 32" "length vh = 32"
    "same_prefix d kh (Branch ks h)"
  shows "put_spec H kh vh d (Branch ks h) (put_at kh vh d (Branch ks h))"
  using assms
proof (induction "32 - d" arbitrary: d ks h)
  case 0
  then show ?case by simp
next
  case (Suc n)
  note w = Suc.prems(1,2) and IH = Suc.hyps(1)
  let ?b = "nib kh d"
  have d: "distinct (jkeys ks)" "wf_kids d ks" "d < 32" "cached_kids H ks" using w by auto
  note unf = put_at.simps(1)[of kh vh d ks h]
  show ?case
  proof (cases "jget ks ?b")
    case None
    have "put_spec H kh vh d (Branch ks h) (Branch (jset ks ?b (Leaf kh vh (d + 1) None None)) None)"
      by (rule put_spec_kid[OF w, where E = "{}"]) (use None d Suc.prems in \<open>auto simp: heavy_def\<close>)
    then show ?thesis using None d(3) by (simp add: unf)
  next
    case (Some c)
    then have c: "(?b, c) \<in> set ks" by (rule jget_in)
    then have wc: "wfn (Suc d) c" "cached H c" "heavy c" "\<forall>(k, v) \<in> set (ents c). nib k d = ?b"
      using d by (auto simp: wf_kids_iff cached_kids_iff)
    have sp: "same_prefix (Suc d) kh c" using same_prefix_kid[OF w(1) Suc.prems(5,3) Some] .
    show ?thesis
    proof (cases c)
      case (Branch ks' h')
      let ?c' = "put_at kh vh (Suc d) (Branch ks' h')"
      have ps: "put_spec H kh vh (Suc d) c ?c'"
        using IH[of "Suc d" ks' h'] Suc.hyps(2) wc sp Suc.prems(3,4) Branch by auto
      have "2 \<le> card (fst ` set (ents c))" using wc(3) heavy_card[OF wc(1)] Branch by simp
      then have hv: "heavy ?c'" using put_spec_heavy[OF ps] by blast
      have "put_spec H kh vh d (Branch ks h) (Branch (jset ks ?b ?c') None)"
        by (rule put_spec_kid[OF w, where E = "set (ents c)"])
          (use Some ps hv wc in \<open>auto simp: put_spec_def\<close>)
      then show ?thesis using Some Branch d(3) by (simp add: unf)
    next
      case (Leaf k v ld lh lb)
      have ld: "ld = Suc d" "length k = 32" "length v = 32" using wc Leaf by auto
      show ?thesis
      proof (cases "k = kh")
        case True
        have "put_spec H kh vh d (Branch ks h) (Branch (jset ks ?b (Leaf k vh ld None None)) None)"
          by (rule put_spec_kid[OF w, where E = "{(k, v)}"])
            (use Some Leaf True wc Suc.prems in \<open>auto simp: heavy_def\<close>)
        then show ?thesis using Some Leaf True d(3) by (simp add: unf)
      next
        case False
        have pre: "take (Suc d) k = take (Suc d) kh" using sp Leaf by (simp add: same_prefix_def)
        have d1: "Suc d < 32"
        proof (rule ccontr)
          assume "\<not> Suc d < 32"
          then have "k = kh" using pre ld Suc.prems(3) by simp
          then show False using False by simp
        qed
        let ?n = "Branch [(nib k ld, Leaf k v (ld + 1) lb None)] None"
        let ?c' = "put_at kh vh (Suc d) ?n"
        have ps: "put_spec H kh vh (Suc d) ?n ?c'"
          by (rule IH) (use Suc.hyps(2) ld d1 pre wc Leaf Suc.prems in \<open>auto simp: heavy_def nib_less same_prefix_def\<close>)
        have hv: "heavy ?c'" using put_spec_heavy[OF ps] False by auto
        have "put_spec H kh vh d (Branch ks h) (Branch (jset ks ?b ?c') None)"
          by (rule put_spec_kid[OF w, where E = "{(k, v)}"])
            (use Some ps hv wc Leaf in \<open>auto simp: put_spec_def\<close>)
        then show ?thesis using Some Leaf False d(3) by (simp add: unf)
      qed
    qed
  qed
qed

section \<open>Removing a key\<close>

definition drop_spec :: "(string \<Rightarrow> string) \<Rightarrow> string \<Rightarrow> nat \<Rightarrow> vnode \<Rightarrow> bool \<Rightarrow> vnode \<Rightarrow> bool" where
  "drop_spec H kh d n go n' \<longleftrightarrow> (\<exists>ks. n' = Branch ks None) \<and> wfn d n' \<and> cached H n' \<and>
     set (ents n') = {p \<in> set (ents n). fst p \<noteq> kh} \<and> kh \<in> fst ` set (ents n) \<and>
     (\<not> go \<longrightarrow> 2 \<le> length (ents n'))"

lemma drop_spec_jset:
  assumes w: "wfn d (Branch ks h)" "cached H (Branch ks h)" and g: "jget ks (nib kh d) = Some c"
    and c: "wfn (Suc d) c'" "cached H c'" "heavy c'"
      "set (ents c') = {p \<in> set (ents c). fst p \<noteq> kh}" "kh \<in> fst ` set (ents c)"
    and go: "\<not> go \<Longrightarrow> 2 \<le> length (ents c')"
  shows "drop_spec H kh d (Branch ks h) go (Branch (jset ks (nib kh d) c') None)"
proof -
  let ?b = "nib kh d"
  have d: "distinct (jkeys ks)" "wf_kids d ks" "d < 32" "cached_kids H ks" using w by auto
  have r: "fst p \<noteq> kh" if "p \<in> rest ks ?b" for p using rest_nib[OF d(2) that] by auto
  have n: "\<forall>(k, v) \<in> set (ents c'). nib k d = ?b"
    using jget_in[OF g] d(2) unfolding c(4) by (fastforce simp: wf_kids_iff)
  have k: "wf_kids d (jset ks ?b c')" by (rule wf_kids_jset[OF d(2,1) nib_less c(1,3) n])
  have w': "wfn d (Branch (jset ks ?b c') None)" using k d(1,3) by (simp add: distinct_update)
  have all: "set (ents_kids ks) = set (ents c) \<union> rest ks ?b" using kids_split[OF d(1), of ?b] g by simp
  have e: "set (ents_kids (jset ks ?b c')) = {p \<in> set (ents_kids ks). fst p \<noteq> kh}"
    unfolding ents_jset_rest[OF d(1)] all c(4) using r by blast
  have "2 \<le> length (ents_kids (jset ks ?b c'))" if "\<not> go"
  proof -
    have "set (map fst (ents c')) \<subseteq> set (map fst (ents_kids (jset ks ?b c')))"
      unfolding set_map ents_jset_rest[OF d(1)] by blast
    then have "card (set (map fst (ents c'))) \<le> card (set (map fst (ents_kids (jset ks ?b c'))))"
      by (rule card_mono[OF List.finite_set])
    moreover have "distinct (map fst (ents_kids (jset ks ?b c')))" using distinct_ents(1)[OF w'] by simp
    ultimately show ?thesis using go[OF that] distinct_ents(1)[OF c(1)] by (metis distinct_card length_map le_trans)
  qed
  moreover have "kh \<in> fst ` set (ents_kids ks)" using c(5) unfolding all by blast
  ultimately show ?thesis
    using w' e cached_kids_jset[OF d(4,1) c(2)] by (simp add: drop_spec_def)
qed

lemma drop_spec_jdel:
  assumes w: "wfn d (Branch ks h)" "cached H (Branch ks h)" and g: "jget ks (nib kh d) = Some c"
    and c: "{p \<in> set (ents c). fst p \<noteq> kh} = {}" "kh \<in> fst ` set (ents c)"
  shows "drop_spec H kh d (Branch ks h) True (Branch (jdel ks (nib kh d)) None)"
proof -
  let ?b = "nib kh d"
  have d: "distinct (jkeys ks)" "wf_kids d ks" "d < 32" "cached_kids H ks" using w by auto
  have r: "fst p \<noteq> kh" if "p \<in> rest ks ?b" for p using rest_nib[OF d(2) that] by auto
  have all: "set (ents_kids ks) = set (ents c) \<union> rest ks ?b" using kids_split[OF d(1), of ?b] g by simp
  have e: "set (ents_kids (jdel ks ?b)) = {p \<in> set (ents_kids ks). fst p \<noteq> kh}"
    unfolding ents_jdel_rest all using r c(1) by blast
  moreover have "kh \<in> fst ` set (ents_kids ks)" using c(2) unfolding all by blast
  ultimately show ?thesis
    using d wf_kids_jdel[OF d(2)] cached_kids_jdel[OF d(4)] by (simp add: drop_spec_def distinct_delete)
qed

lemma two_kids: "wf_kids d ks \<Longrightarrow> 2 \<le> length ks \<Longrightarrow> 2 \<le> length (ents_kids ks)"
proof -
  assume w: "wf_kids d ks" and l: "2 \<le> length ks"
  obtain b c b' c' ks' where ks: "ks = (b, c) # (b', c') # ks'"
    using l by (cases ks rule: remdups_adj.cases) auto
  have "ents c \<noteq> []" "ents c' \<noteq> []" using w ents_heavy unfolding ks by auto
  then show ?thesis unfolding ks by (cases "ents c"; cases "ents c'") auto
qed

lemma collapse_correct:
  assumes w: "wfn d (Branch ks h)" "cached H (Branch ks h)" and g: "jget ks (nib kh d) = Some c"
    and s: "drop_spec H kh (Suc d) c go c'"
  shows "drop_spec H kh d (Branch ks h) (fst (collapse ks (nib kh d) go c')) (snd (collapse ks (nib kh d) go c'))"
proof -
  let ?b = "nib kh d"
  from s obtain ks' where c': "c' = Branch ks' None" by (auto simp: drop_spec_def)
  have cs: "wfn (Suc d) c'" "cached H c'" "set (ents c') = {p \<in> set (ents c). fst p \<noteq> kh}"
    "kh \<in> fst ` set (ents c)" using s by (auto simp: drop_spec_def)
  have keep: "drop_spec H kh d (Branch ks h) False (Branch (jset ks ?b c') None)" if "2 \<le> length (ents c')"
    by (rule drop_spec_jset[OF w g cs(1,2) _ cs(3,4)]) (use that c' in \<open>auto simp: heavy_def\<close>)
  show ?thesis
  proof (cases "go")
    case False
    then show ?thesis using keep s by (simp add: collapse_def drop_spec_def)
  next
    case go: True
    consider (none) "ks' = []" | (leaf) j k v ld lh lb where "ks' = [(j, Leaf k v ld lh lb)]"
      | (branch) j ks2 h2 where "ks' = [(j, Branch ks2 h2)]" | (many) "2 \<le> length ks'"
      by (cases ks' rule: remdups_adj.cases) (auto, metis vnode.exhaust)
    then show ?thesis
    proof cases
      case none
      then show ?thesis using drop_spec_jdel[OF w g _ cs(4)] cs(3) c' go by (simp add: collapse_def)
    next
      case leaf
      have lf: "ld = Suc (Suc d)" "Suc (Suc d) \<le> 32" "length k = 32" "length v = 32"
        "\<forall>y. lh = Some y \<longrightarrow> y = chain H k v ld"
        using cs(1,2) leaf c' by auto
      have "drop_spec H kh d (Branch ks h) True (Branch (jset ks ?b (Leaf k v (ld - 1) None lh)) None)"
        by (rule drop_spec_jset[OF w g _ _ _ _ cs(4)]) (use lf cs(3) leaf c' in \<open>auto simp: heavy_def\<close>)
      then show ?thesis using leaf c' go by (simp add: collapse_def)
    next
      case branch
      have "heavy (Branch ks2 h2)" using cs(1) branch c' by simp
      then have "2 \<le> length (ents c')" using branch c' by (simp add: heavy_def)
      then show ?thesis using keep branch c' go by (simp add: collapse_def)
    next
      case many
      have "2 \<le> length (ents c')" using two_kids[of "Suc d" ks'] many cs(1) c' by simp
      moreover have "collapse ks ?b go c' = (False, Branch (jset ks ?b c') None)"
        using many c' by (cases ks' rule: remdups_adj.cases) (auto simp: collapse_def split: vnode.split)
      ultimately show ?thesis using keep by simp
    qed
  qed
qed

lemma drop_at_correct:
  assumes "wfn d (Branch ks h)" "cached H (Branch ks h)"
  shows "case drop_at kh d (Branch ks h) of
           None \<Rightarrow> kh \<notin> fst ` set (ents (Branch ks h))
         | Some (go, n') \<Rightarrow> drop_spec H kh d (Branch ks h) go n'"
  using assms
proof (induction "32 - d" arbitrary: d ks h)
  case 0
  then show ?case by simp
next
  case (Suc n)
  note w = Suc.prems and unf = drop_at.simps(1)[of kh d ks h]
  let ?b = "nib kh d"
  have d: "distinct (jkeys ks)" "wf_kids d ks" "d < 32" "cached_kids H ks" using w by auto
  have r: "kh \<notin> fst ` rest ks ?b" using rest_nib[OF d(2)] by fastforce
  note all = kids_split[OF d(1), of ?b]
  show ?case
  proof (cases "jget ks ?b")
    case None
    then show ?thesis using d(3) r all by (simp add: unf)
  next
    case (Some c)
    have wc: "wfn (Suc d) c" "cached H c" using jget_in[OF Some] d by (auto simp: wf_kids_iff cached_kids_iff)
    show ?thesis
    proof (cases c)
      case (Leaf k v ld lh lb)
      show ?thesis
      proof (cases "k = kh")
        case True
        then have "drop_spec H kh d (Branch ks h) True (Branch (jdel ks ?b) None)"
          by (intro drop_spec_jdel[OF w Some]) (use Leaf in auto)
        then show ?thesis using Some Leaf True d(3) by (simp add: unf)
      next
        case False
        then show ?thesis using Some Leaf d(3) r all by (simp add: unf image_Un)
      qed
    next
      case (Branch ks' h')
      have IH: "case drop_at kh (Suc d) (Branch ks' h') of None \<Rightarrow> kh \<notin> fst ` set (ents c)
         | Some (go, n') \<Rightarrow> drop_spec H kh (Suc d) c go n'"
      proof -
        have "n = 32 - Suc d" using Suc.hyps(2) by arith
        from Suc.hyps(1)[OF this wc[unfolded Branch]] show ?thesis unfolding Branch .
      qed
      show ?thesis
      proof (cases "drop_at kh (Suc d) (Branch ks' h')")
        case None
        then show ?thesis using Some Branch d(3) r all IH by (simp add: unf image_Un)
      next
        case (Some q)
        obtain go c' where q: "q = (go, c')" by (cases q)
        have "drop_spec H kh (Suc d) c go c'" using IH Some q by simp
        then show ?thesis using collapse_correct[OF w \<open>jget ks ?b = Some c\<close>, of go c']
            \<open>jget ks ?b = Some c\<close> Branch Some q d(3)
          by (cases "collapse ks ?b go c'") (simp add: unf)
      qed
    qed
  qed
qed

end
