(* ===== verification/VerkleStore.thy ===== *)
theory VerkleStore
  imports VerkleWrites
begin

text \<open>
  The class \<open>VerkleStateTree\<close> of \<open>verkle-tree.js\<close>: the key to value map, the hashed trie over
  it and the \<open>state:\<close> rows on disk, with insert, get, delete, clear, getRoot, the reload at boot,
  and the proofs of single keys. The shown laws: the root is the per-level trie hash of the map,
  whatever writes led to it; a restart reads back the keys of the range the reload walks, and keeps the
  root when every key lies in it; every generated proof verifies; and a verifying proof of the right
  shape against the true root shows the committed value, or a break of the hash.

  \<open>vdisk = None\<close> is a store without an open database; a row holds the value its JSON text parses
  back to. Level iterates rows in key order; characters are code units up to \<open>\xFF\<close>.
\<close>

section \<open>State and operations\<close>

record vtree =
  vroot :: vnode
  vstate :: "(string, jsval) jmap"
  vdisk :: "(string, jsval) jmap option"

definition vempty :: vtree where
  "vempty = \<lparr>vroot = Branch [] None, vstate = [], vdisk = None\<rparr>"

definition valueHashOf :: "(string \<Rightarrow> string) \<Rightarrow> jsval \<Rightarrow> string option" where
  "valueHashOf H v = (case v of JStr s \<Rightarrow> Some (H s) | _ \<Rightarrow> map_option H (json_stringify v))"

text \<open>\<open>_put\<close> and \<open>_drop\<close> from the root.\<close>

definition tput :: "string \<Rightarrow> string \<Rightarrow> vnode \<Rightarrow> vnode" where
  "tput kh vh r = put_at kh vh 0 r"

definition tdrop :: "string \<Rightarrow> vnode \<Rightarrow> vnode" where
  "tdrop kh r = (case drop_at kh 0 r of None \<Rightarrow> r | Some (go, r') \<Rightarrow> r')"

definition saveState :: "string \<Rightarrow> jsval \<Rightarrow> vtree \<Rightarrow> vtree" where
  "saveState k v t = (case vdisk t of None \<Rightarrow> t
     | Some rows \<Rightarrow> if json_stringify v = None then t else t\<lparr>vdisk := Some (jset rows k (json_norm v))\<rparr>)"

definition deleteState :: "string \<Rightarrow> vtree \<Rightarrow> vtree" where
  "deleteState k t = t\<lparr>vdisk := map_option (\<lambda>rows. jdel rows k) (vdisk t)\<rparr>"

text \<open>The flag is false when hashing the value throws; the map and the disk were written by then.\<close>

definition vinsert :: "(string \<Rightarrow> string) \<Rightarrow> string \<Rightarrow> jsval \<Rightarrow> vtree \<Rightarrow> bool \<times> vtree" where
  "vinsert H k v t =
     (let t1 = saveState k v (t\<lparr>vstate := jset (vstate t) k v\<rparr>) in
      case valueHashOf H v of None \<Rightarrow> (False, t1)
      | Some vh \<Rightarrow> (True, t1\<lparr>vroot := tput (H k) vh (vroot t1)\<rparr>))"

definition vget :: "vtree \<Rightarrow> string \<Rightarrow> jsval" where
  "vget t k = (case jget (vstate t) k of Some v \<Rightarrow> v | None \<Rightarrow> JUndef)"

definition vdelete :: "(string \<Rightarrow> string) \<Rightarrow> string \<Rightarrow> vtree \<Rightarrow> vtree" where
  "vdelete H k t =
     (let t1 = deleteState k (t\<lparr>vstate := jdel (vstate t) k\<rparr>)
      in t1\<lparr>vroot := tdrop (H k) (vroot t1)\<rparr>)"

text \<open>The two key ranges of the disk: the reload walks \<open>gt 'state:', lt 'state:\xFF'\<close>, so it passes over
  the row of the empty key and those of keys from \<open>\xFF\<close> up; the range clear is \<open>gte 'state:'\<close>, so it takes
  the empty key too.\<close>

definition state_iterated :: "string \<Rightarrow> bool" where
  "state_iterated k \<longleftrightarrow> k \<noteq> [] \<and> hd k \<noteq> CHR 0xFF"

definition state_cleared :: "string \<Rightarrow> bool" where
  "state_cleared k \<longleftrightarrow> k = [] \<or> hd k \<noteq> CHR 0xFF"

definition vclear :: "vtree \<Rightarrow> vtree" where
  "vclear t = t\<lparr>vroot := Branch [] None, vstate := [],
     vdisk := map_option (filter (\<lambda>(k, v). \<not> state_cleared k)) (vdisk t)\<rparr>"

definition getRoot :: "(string \<Rightarrow> string) \<Rightarrow> vtree \<Rightarrow> string \<times> vtree" where
  "getRoot H t = (let (h, r) = hashOf H (vroot t) in (hex_of h, t\<lparr>vroot := r\<rparr>))"

text \<open>\<open>_rebuildTrie\<close> and \<open>_loadState\<close>.\<close>

definition put_value :: "(string \<Rightarrow> string) \<Rightarrow> string \<times> jsval \<Rightarrow> vnode \<Rightarrow> vnode" where
  "put_value H kv r = (case valueHashOf H (snd kv) of None \<Rightarrow> r | Some vh \<Rightarrow> tput (H (fst kv)) vh r)"

definition rebuildTrie :: "(string \<Rightarrow> string) \<Rightarrow> vtree \<Rightarrow> vtree" where
  "rebuildTrie H t = snd (getRoot H (t\<lparr>vroot := fold (put_value H) (vstate t) (Branch [] None)\<rparr>))"

definition loadState :: "(string \<Rightarrow> string) \<Rightarrow> vtree \<Rightarrow> vtree" where
  "loadState H t = (case vdisk t of None \<Rightarrow> t
     | Some rows \<Rightarrow> rebuildTrie H (t\<lparr>vstate :=
         fold (\<lambda>(k, v) m. jset m k v) (sort_key fst (filter (\<lambda>(k, v). state_iterated k) rows)) (vstate t)\<rparr>))"

text \<open>The construction of a tree over the rows an earlier process left.\<close>

definition reopen :: "(string \<Rightarrow> string) \<Rightarrow> vtree \<Rightarrow> vtree" where
  "reopen H t = loadState H (vempty\<lparr>vdisk := vdisk t\<rparr>)"

datatype vop = VInsert string jsval | VDelete string | VClear | VRoot

fun vstep :: "(string \<Rightarrow> string) \<Rightarrow> vop \<Rightarrow> vtree \<Rightarrow> vtree" where
  "vstep H (VInsert k v) t = snd (vinsert H k v t)"
| "vstep H (VDelete k) t = vdelete H k t"
| "vstep H VClear t = vclear t"
| "vstep H VRoot t = snd (getRoot H t)"

definition vrun :: "(string \<Rightarrow> string) \<Rightarrow> vop list \<Rightarrow> vtree \<Rightarrow> vtree" where
  "vrun H ops t = fold (vstep H) ops t"

section \<open>The per-level hash depends on the set of entries only\<close>

lemma trie_hash_set_cong:
  assumes "set es = set es'" "distinct (map fst es)" "distinct (map fst es')"
    "\<forall>(k, v) \<in> set es. length k = 32" "\<forall>p \<in> set es. \<forall>q \<in> set es. take d (fst p) = take d (fst q)"
  shows "trie_hash H d es = trie_hash H d es'"
  using assms
proof (induction "32 - d" arbitrary: d es es')
  case 0
  show ?case
  proof (cases es)
    case Nil
    then show ?thesis using 0(2) by simp
  next
    case (Cons p ps)
    have len: "take d (fst q) = fst q" if "q \<in> set es" for q
      using 0(1,5) that by (cases q) auto
    have eq: "fst q = fst p" if "q \<in> set es" for q
      using 0(6) len[OF that] len[of p] that Cons by (metis list.set_intros(1))
    have "ps = []"
    proof (cases ps)
      case (Cons q qs)
      have "fst q = fst p" by (rule eq) (simp add: \<open>es = p # ps\<close> Cons)
      then show ?thesis using 0(3) \<open>es = p # ps\<close> Cons by simp
    qed simp
    moreover have "es' = [p]"
    proof -
      have s: "set es' = {p}" using 0(2) Cons \<open>ps = []\<close> by simp
      then have "length es' = 1" using 0(4) distinct_card[of es'] by (simp add: distinct_map)
      then show ?thesis using s by (cases es') auto
    qed
    ultimately show ?thesis using Cons by simp
  qed
next
  case (Suc n)
  have "trie_hash H (Suc d) (filter (\<lambda>(k, v). nib k d = b) es) = trie_hash H (Suc d) (filter (\<lambda>(k, v). nib k d = b) es')" for b
  proof (rule Suc.hyps(1))
    let ?f = "filter (\<lambda>(k, v). nib k d = b)"
    show "n = 32 - Suc d" using Suc.hyps(2) by simp
    show "set (?f es) = set (?f es')" using Suc.prems(1) by simp
    show "distinct (map fst (?f es))" "distinct (map fst (?f es'))"
      using Suc.prems(2,3) by (simp_all add: distinct_map_filter)
    show "\<forall>(k, v) \<in> set (?f es). length k = 32" using Suc.prems(4) by simp
    show "\<forall>p \<in> set (?f es). \<forall>q \<in> set (?f es). take (Suc d) (fst p) = take (Suc d) (fst q)"
    proof (intro ballI)
      fix p q assume pq: "p \<in> set (?f es)" "q \<in> set (?f es)"
      have "length (fst p) = 32" "length (fst q) = 32" "nib (fst p) d = nib (fst q) d"
        using pq Suc.prems(4) by auto
      moreover have "take d (fst p) = take d (fst q)" using pq Suc.prems(5) by auto
      ultimately show "take (Suc d) (fst p) = take (Suc d) (fst q)"
        using Suc.hyps(2) by (intro prefix_step) auto
    qed
  qed
  moreover have "es = [] \<longleftrightarrow> es' = []" using Suc.prems(1) by auto
  moreover have "\<not> 32 \<le> d" using Suc.hyps(2) by arith
  ultimately show ?case by (simp add: trie_hash.simps[of H d es] trie_hash.simps[of H d es'])
qed

section \<open>The invariant of the tree and its operations\<close>

definition hashed :: "(string \<Rightarrow> string) \<Rightarrow> string \<times> jsval \<Rightarrow> string \<times> string" where
  "hashed H kv = (H (fst kv), the (valueHashOf H (snd kv)))"

definition hashable :: "(string \<Rightarrow> string) \<Rightarrow> (string, jsval) jmap \<Rightarrow> bool" where
  "hashable H m \<longleftrightarrow> (\<forall>kv \<in> set m. valueHashOf H (snd kv) \<noteq> None)"

definition trie_of :: "(string \<Rightarrow> string) \<Rightarrow> (string, jsval) jmap \<Rightarrow> vnode \<Rightarrow> bool" where
  "trie_of H m r \<longleftrightarrow> (\<exists>ks h. r = Branch ks h) \<and> wfn 0 r \<and> cached H r \<and> set (ents r) = hashed H ` set m"

definition vinv :: "(string \<Rightarrow> string) \<Rightarrow> string set \<Rightarrow> vtree \<Rightarrow> bool" where
  "vinv H K t \<longleftrightarrow> jmap_ok (vstate t) \<and> set (jkeys (vstate t)) \<subseteq> K \<and> hashable H (vstate t) \<and> trie_of H (vstate t) (vroot t)"

text \<open>What a restart reads back: the entries under the keys of the reload's range.\<close>

definition reloaded :: "(string, jsval) jmap \<Rightarrow> (string, jsval) jmap" where
  "reloaded m = filter (\<lambda>(k, v). state_iterated k) m"

lemma reloaded_ok: "jmap_ok m \<Longrightarrow> jmap_ok (reloaded m)"
  by (simp add: reloaded_def jmap_ok_def distinct_map_filter)

lemma reloaded_all: "\<forall>k \<in> set (jkeys m). state_iterated k \<Longrightarrow> reloaded m = m"
  unfolding reloaded_def by (rule filter_True) auto

lemma reloaded_jset: "reloaded (jset m k v) = (if state_iterated k then jset (reloaded m) k v else reloaded m)"
  by (induction m) (auto simp: reloaded_def)

lemma reloaded_jdel: "reloaded (jdel m k) = (if state_iterated k then jdel (reloaded m) k else reloaded m)"
  by (induction m) (auto simp: reloaded_def AList.delete_eq)

definition disk_ok :: "vtree \<Rightarrow> bool" where
  "disk_ok t \<longleftrightarrow> (case vdisk t of None \<Rightarrow> True
     | Some rows \<Rightarrow> jmap_ok (reloaded rows) \<and>
         (\<forall>k. state_iterated k \<longrightarrow> jget rows k = map_option json_norm (jget (vstate t) k)))"

definition op_ok :: "(string \<Rightarrow> string) \<Rightarrow> string set \<Rightarrow> vop \<Rightarrow> bool" where
  "op_ok H K op = (case op of VInsert k v \<Rightarrow> k \<in> K \<and> valueHashOf H v \<noteq> None | VDelete k \<Rightarrow> k \<in> K | _ \<Rightarrow> True)"

lemma trie_of_empty: "trie_of H [] (Branch [] None)"
  by (simp add: trie_of_def)

lemma same_prefix_0: "same_prefix 0 kh n"
  by (simp add: same_prefix_def)

lemma valueHash_length: "digest H \<Longrightarrow> valueHashOf H v = Some vh \<Longrightarrow> length vh = 32"
  by (auto simp: valueHashOf_def digest_def split: jsval.splits)

lemma hashed_jset:
  assumes "inj_on H K" "jmap_ok m" "set (jkeys m) \<subseteq> K" "k \<in> K" "valueHashOf H v = Some vh"
  shows "hashed H ` set (jset m k v) = insert (H k, vh) {p \<in> hashed H ` set m. fst p \<noteq> H k}"
proof -
  have ne: "H (fst p) \<noteq> H k \<longleftrightarrow> fst p \<noteq> k" if "p \<in> set m" for p
    using inj_onD[OF assms(1), of "fst p" k] assms(3,4) that by auto
  have "{p \<in> hashed H ` set m. fst p \<noteq> H k} = hashed H ` {p \<in> set m. fst p \<noteq> k}"
    using ne by (auto simp: hashed_def image_iff)
  then show ?thesis using assms(5) by (simp add: jset_set[OF assms(2)] hashed_def)
qed

lemma hashed_jdel:
  assumes "inj_on H K" "set (jkeys m) \<subseteq> K" "k \<in> K"
  shows "hashed H ` set (jdel m k) = {p \<in> hashed H ` set m. fst p \<noteq> H k}"
proof -
  have ne: "H (fst p) \<noteq> H k \<longleftrightarrow> fst p \<noteq> k" if "p \<in> set m" for p
    using inj_onD[OF assms(1), of "fst p" k] assms(2,3) that by auto
  then show ?thesis by (auto simp: jdel_set hashed_def image_iff)
qed

lemma trie_of_put:
  assumes "digest H" "inj_on H K" "jmap_ok m" "set (jkeys m) \<subseteq> K" "k \<in> K"
    "valueHashOf H v = Some vh" "trie_of H m r"
  shows "trie_of H (jset m k v) (tput (H k) vh r)"
proof -
  obtain ks h where r: "r = Branch ks h" "wfn 0 (Branch ks h)" "cached H (Branch ks h)"
    "set (ents (Branch ks h)) = hashed H ` set m" using assms(7) by (auto simp: trie_of_def)
  have "put_spec H (H k) vh 0 (Branch ks h) (put_at (H k) vh 0 (Branch ks h))"
    by (rule put_at_correct[OF r(2,3) _ _ same_prefix_0])
      (use assms(1) valueHash_length[OF assms(1,6)] in \<open>auto simp: digest_def\<close>)
  then show ?thesis
    unfolding trie_of_def tput_def r(1) put_spec_def hashed_jset[OF assms(2-6)] r(4) by blast
qed

lemma trie_of_drop:
  assumes "inj_on H K" "set (jkeys m) \<subseteq> K" "k \<in> K" "trie_of H m r"
  shows "trie_of H (jdel m k) (tdrop (H k) r)"
proof -
  obtain ks h where r: "r = Branch ks h" "wfn 0 (Branch ks h)" "cached H (Branch ks h)"
    "set (ents (Branch ks h)) = hashed H ` set m" using assms(4) by (auto simp: trie_of_def)
  note d = drop_at_correct[OF r(2,3), of "H k"]
  show ?thesis
  proof (cases "drop_at (H k) 0 (Branch ks h)")
    case None
    then have "{p \<in> hashed H ` set m. fst p \<noteq> H k} = hashed H ` set m" using d r(4) by force
    then show ?thesis using r None unfolding trie_of_def tdrop_def hashed_jdel[OF assms(1-3)] by auto
  next
    case (Some q)
    then obtain go r' where q: "drop_at (H k) 0 (Branch ks h) = Some (go, r')" by (cases q) auto
    then have "drop_spec H (H k) 0 (Branch ks h) go r'" using d by simp
    then show ?thesis
      using q unfolding trie_of_def tdrop_def r(1) drop_spec_def hashed_jdel[OF assms(1-3)] r(4) by auto
  qed
qed

lemma trie_of_hash:
  assumes "trie_of H m r" "hashOf H r = (x, r')"
  shows "trie_of H m r' \<and> x = nhash H r"
proof -
  obtain ks h where r: "r = Branch ks h" using assms(1) by (auto simp: trie_of_def)
  have "\<exists>ks h. r' = Branch ks h"
    using assms(2) r by (auto split: option.splits if_splits prod.splits simp: Let_def)
  then show ?thesis using hashOf_correct(1)[of 0 r H x r'] assms by (simp add: trie_of_def)
qed

lemma getRoot_frame [step_simps]:
  "vstate (snd (getRoot H t)) = vstate t" "vdisk (snd (getRoot H t)) = vdisk t"
  by (simp_all add: getRoot_def split: prod.split)

lemma vinv_getRoot: "vinv H K t \<Longrightarrow> vinv H K (snd (getRoot H t))"
  using trie_of_hash[of H "vstate t" "vroot t"]
  by (cases "hashOf H (vroot t)") (simp add: vinv_def getRoot_def)

lemma saveState_frame [step_simps]: "vstate (saveState k v t) = vstate t" "vroot (saveState k v t) = vroot t"
  by (auto simp: saveState_def split: option.split)

lemma vinv_insert:
  assumes "digest H" "inj_on H K" "vinv H K t" "k \<in> K" "valueHashOf H v \<noteq> None"
  shows "vinv H K (snd (vinsert H k v t)) \<and> vstate (snd (vinsert H k v t)) = jset (vstate t) k v"
proof -
  obtain vh where vh: "valueHashOf H v = Some vh" using assms(5) by auto
  have i: "jmap_ok (vstate t)" "set (jkeys (vstate t)) \<subseteq> K" "hashable H (vstate t)" "trie_of H (vstate t) (vroot t)"
    using assms(3) by (auto simp: vinv_def)
  have "hashable H (jset (vstate t) k v)"
    using i(1,3) assms(5) by (simp add: hashable_def jset_set)
  then show ?thesis
    using trie_of_put[OF assms(1,2) i(1,2) assms(4) vh i(4)] i vh assms(4)
    by (simp add: vinsert_def vinv_def step_simps wf_intros dom_update)
qed

lemma vinv_delete:
  assumes "inj_on H K" "vinv H K t" "k \<in> K"
  shows "vinv H K (vdelete H k t) \<and> vstate (vdelete H k t) = jdel (vstate t) k"
proof -
  have i: "jmap_ok (vstate t)" "set (jkeys (vstate t)) \<subseteq> K" "hashable H (vstate t)" "trie_of H (vstate t) (vroot t)"
    using assms(2) by (auto simp: vinv_def)
  have "hashable H (jdel (vstate t) k)" "set (jkeys (jdel (vstate t) k)) \<subseteq> K"
    using i(2,3) by (auto simp: hashable_def jdel_set)
  then show ?thesis
    using trie_of_drop[OF assms(1) i(2) assms(3) i(4)] i
    by (simp add: vdelete_def vinv_def deleteState_def wf_intros)
qed

lemma vinv_clear: "vinv H K (vclear t)"
  by (simp add: vinv_def vclear_def hashable_def trie_of_empty)

lemma vinv_step:
  assumes "digest H" "inj_on H K" "vinv H K t" "op_ok H K op"
  shows "vinv H K (vstep H op t)"
  using assms vinv_insert vinv_delete vinv_clear vinv_getRoot
  by (cases op) (auto simp: op_ok_def)

lemma vinv_run:
  "digest H \<Longrightarrow> inj_on H K \<Longrightarrow> vinv H K t \<Longrightarrow> \<forall>op \<in> set ops. op_ok H K op \<Longrightarrow> vinv H K (vrun H ops t)"
  unfolding vrun_def by (induction ops arbitrary: t) (simp_all add: vinv_step)

lemma vinv_empty [wf_intros]: "vstate t = [] \<Longrightarrow> vroot t = Branch [] None \<Longrightarrow> vinv H K t"
  by (simp add: vinv_def hashable_def trie_of_empty)

section \<open>The root of the state\<close>

definition committed :: "(string \<Rightarrow> string) \<Rightarrow> (string, jsval) jmap \<Rightarrow> string" where
  "committed H m = hex_of (trie_hash H 0 (map (hashed H) m))"

lemma hashed_distinct:
  "inj_on H K \<Longrightarrow> jmap_ok m \<Longrightarrow> set (jkeys m) \<subseteq> K \<Longrightarrow> distinct (map fst (map (hashed H) m))"
proof -
  have "map fst (map (hashed H) m) = map H (jkeys m)" by (simp add: hashed_def)
  then show "inj_on H K \<Longrightarrow> jmap_ok m \<Longrightarrow> set (jkeys m) \<subseteq> K \<Longrightarrow> ?thesis"
    by (simp only: distinct_map jmap_ok_def) (blast intro: inj_on_subset)
qed

lemma getRoot_committed:
  assumes "digest H" "inj_on H K" "vinv H K t"
  shows "fst (getRoot H t) = committed H (vstate t)"
proof -
  have i: "jmap_ok (vstate t)" "set (jkeys (vstate t)) \<subseteq> K" "wfn 0 (vroot t)" "cached H (vroot t)"
    "set (ents (vroot t)) = hashed H ` set (vstate t)"
    using assms(3) by (auto simp: vinv_def trie_of_def)
  obtain x r' where x: "hashOf H (vroot t) = (x, r')" by (cases "hashOf H (vroot t)")
  have "x = trie_hash H 0 (ents (vroot t))"
    using hashOf_correct(1)[OF i(3,4) x] digest.nhash_trie(1)[OF assms(1) i(3)] by simp
  also have "\<dots> = trie_hash H 0 (map (hashed H) (vstate t))"
    by (rule trie_hash_set_cong)
      (use i(5) distinct_ents(1)[OF i(3)] keys_length(1)[OF i(3)] hashed_distinct[OF assms(2) i(1,2)] in
        \<open>fastforce+\<close>)
  finally show ?thesis by (simp add: committed_def getRoot_def x)
qed

lemma committed_cong:
  assumes "digest H" "inj_on H K" "jmap_ok m" "jmap_ok m'" "set (jkeys m) \<subseteq> K" "set (jkeys m') \<subseteq> K"
    "hashed H ` set m = hashed H ` set m'"
  shows "committed H m = committed H m'"
proof -
  have "trie_hash H 0 (map (hashed H) m) = trie_hash H 0 (map (hashed H) m')"
    by (rule trie_hash_set_cong)
      (use assms(1,7) hashed_distinct[OF assms(2,3,5)] hashed_distinct[OF assms(2,4,6)] in
        \<open>auto simp: hashed_def digest_def\<close>)
  then show ?thesis by (simp add: committed_def)
qed

lemma jmap_ok_set_eq: "jmap_ok m \<Longrightarrow> jmap_ok m' \<Longrightarrow> jget m = jget m' \<Longrightarrow> set m = set m'"
  by (auto simp: jget_iff[symmetric] simp flip: fun_eq_iff)

section \<open>The disk and the restart\<close>

lemma valueHash_norm: "valueHashOf H v \<noteq> None \<Longrightarrow> valueHashOf H (json_norm v) = valueHashOf H v"
proof -
  assume a: "valueHashOf H v \<noteq> None"
  then have "v \<noteq> JUndef" by (auto simp: valueHashOf_def json_stringify_def)
  moreover have "\<And>s. json_norm v = JStr s \<Longrightarrow> v = JStr s" by (cases v) auto
  ultimately show ?thesis
    using json_stringify_norm[of v] by (cases v) (auto simp: valueHashOf_def)
qed

lemma jget_filter: "jget (filter (\<lambda>(k, v). P k) m) k = (if P k then jget m k else None)"
  by (induction m) auto

lemma reloaded_cleared: "reloaded (filter (\<lambda>(k, v). \<not> state_cleared k) rows) = []"
  by (auto simp: reloaded_def filter_empty_conv state_iterated_def state_cleared_def)

lemma iterated_cleared: "state_iterated k \<Longrightarrow> state_cleared k"
  by (simp add: state_iterated_def state_cleared_def)

lemma vclear_disk_ok: "disk_ok (vclear t)"
  by (auto simp: disk_ok_def vclear_def jget_filter reloaded_cleared iterated_cleared jmap_ok_def split: option.splits)

lemma disk_ok_step:
  assumes "vinv H K t" "op_ok H K op" "disk_ok t"
  shows "disk_ok (vstep H op t)"
proof (cases op)
  case (VInsert k v)
  have "json_stringify v \<noteq> None" if "valueHashOf H v \<noteq> None"
    using that by (cases v) (auto simp: valueHashOf_def json_stringify_def)
  then show ?thesis using VInsert assms
    by (auto simp: op_ok_def disk_ok_def vinsert_def saveState_def Let_def jmap_simps wf_intros reloaded_jset
        split: option.splits)
next
  case (VDelete k)
  then show ?thesis using assms
    by (auto simp: disk_ok_def vdelete_def deleteState_def jmap_simps wf_intros reloaded_jdel split: option.splits)
next
  case VClear
  then show ?thesis using vclear_disk_ok by simp
next
  case VRoot
  then show ?thesis using assms by (simp add: disk_ok_def step_simps split: option.splits)
qed

lemma disk_ok_run:
  "digest H \<Longrightarrow> inj_on H K \<Longrightarrow> vinv H K t \<Longrightarrow> disk_ok t \<Longrightarrow> \<forall>op \<in> set ops. op_ok H K op \<Longrightarrow> disk_ok (vrun H ops t)"
  unfolding vrun_def by (induction ops arbitrary: t) (simp_all add: vinv_step disk_ok_step)

lemma disk_open_run: "vdisk t \<noteq> None \<Longrightarrow> vdisk (vrun H ops t) \<noteq> None"
proof -
  have "vdisk (vstep H op t) \<noteq> None" if "vdisk t \<noteq> None" for op t
    using that by (cases op)
      (auto simp: vinsert_def saveState_def vdelete_def deleteState_def vclear_def step_simps Let_def split: option.splits)
  then show "vdisk t \<noteq> None \<Longrightarrow> vdisk (vrun H ops t) \<noteq> None"
    unfolding vrun_def by (induction ops arbitrary: t) simp_all
qed

lemma rebuild_trie:
  assumes "digest H" "inj_on H K"
  shows "jmap_ok m \<Longrightarrow> set (jkeys m) \<subseteq> K \<Longrightarrow> trie_of H m r \<Longrightarrow> hashable H kvs \<Longrightarrow> set (jkeys kvs) \<subseteq> K \<Longrightarrow>
    trie_of H (fold (\<lambda>(k, v) m. jset m k v) kvs m) (fold (put_value H) kvs r)"
proof (induction kvs arbitrary: m r)
  case Nil
  then show ?case by simp
next
  case (Cons p kvs)
  obtain k v where p: "p = (k, v)" by (cases p)
  obtain vh where vh: "valueHashOf H v = Some vh" using Cons.prems(4) p by (auto simp: hashable_def)
  have "trie_of H (jset m k v) (tput (H k) vh r)"
    by (rule trie_of_put[OF assms Cons.prems(1,2) _ vh Cons.prems(3)]) (use Cons.prems(5) p in simp)
  then show ?case using Cons p vh by (simp add: put_value_def wf_intros dom_update hashable_def)
qed

lemma jset_fold_new: "distinct (map fst (m @ kvs)) \<Longrightarrow> fold (\<lambda>(k, v) m. jset m k v) kvs m = m @ kvs"
proof (induction kvs arbitrary: m)
  case (Cons p kvs)
  obtain k v where p: "p = (k, v)" by (cases p)
  then have "\<not> jhas m k" using Cons.prems by (auto simp: jhas_iff)
  then show ?case using Cons p by (simp add: jset_new)
qed simp

lemma reopen_vstate:
  assumes "vdisk t = Some rows" "jmap_ok (reloaded rows)"
  shows "vstate (reopen H t) = sort_key fst (reloaded rows)"
    and "reopen H t = snd (getRoot H (vempty\<lparr>vdisk := Some rows, vstate := sort_key fst (reloaded rows),
      vroot := fold (put_value H) (sort_key fst (reloaded rows)) (Branch [] None)\<rparr>))"
proof -
  have "distinct (jkeys (sort_key fst (reloaded rows)))"
    using assms(2) by (simp add: jmap_ok_def distinct_map)
  then have f: "fold (\<lambda>(k, v) m. jset m k v) (sort_key fst (reloaded rows)) [] = sort_key fst (reloaded rows)"
    using jset_fold_new[of "[]" "sort_key fst (reloaded rows)"] by simp
  then show "reopen H t = snd (getRoot H (vempty\<lparr>vdisk := Some rows, vstate := sort_key fst (reloaded rows),
      vroot := fold (put_value H) (sort_key fst (reloaded rows)) (Branch [] None)\<rparr>))"
    using assms(1) by (simp add: reopen_def loadState_def rebuildTrie_def vempty_def reloaded_def)
  then show "vstate (reopen H t) = sort_key fst (reloaded rows)" by (simp add: step_simps)
qed

lemma reopen_lookup:
  assumes "disk_ok t" "vdisk t \<noteq> None"
  shows "jget (vstate (reopen H t)) k = (if state_iterated k then map_option json_norm (jget (vstate t) k) else None)"
proof -
  obtain rows where rows: "vdisk t = Some rows" "jmap_ok (reloaded rows)"
    "\<forall>k. state_iterated k \<longrightarrow> jget rows k = map_option json_norm (jget (vstate t) k)"
    using assms by (auto simp: disk_ok_def)
  have "jget (sort_key fst (reloaded rows)) = jget (reloaded rows)"
    using rows(2) by (intro map_of_inject_set[THEN iffD2]) (simp_all add: jmap_ok_def distinct_map)
  then show ?thesis
    unfolding reopen_vstate(1)[OF rows(1,2)] using rows(3) by (simp add: reloaded_def jget_filter)
qed

lemma reopen_root:
  assumes "digest H" "inj_on H K" "vinv H K t" "disk_ok t" "vdisk t \<noteq> None"
  shows "fst (getRoot H (reopen H t)) = committed H (reloaded (vstate t))"
proof -
  obtain rows where rows: "vdisk t = Some rows" "jmap_ok (reloaded rows)" using assms(4,5) by (auto simp: disk_ok_def)
  let ?s = "sort_key fst (reloaded rows)" and ?m = "reloaded (vstate t)"
  note vs = reopen_vstate[OF rows, of H]
  have i: "jmap_ok ?m" "set (jkeys ?m) \<subseteq> K" "hashable H ?m"
    using assms(3) reloaded_ok by (auto simp: vinv_def hashable_def reloaded_def)
  have s: "jmap_ok ?s" using rows(2) by (simp add: jmap_ok_def distinct_map)
  have look: "jget ?s k = map_option json_norm (jget ?m k)" for k
    using reopen_lookup[OF assms(4,5), of H k] by (simp add: vs(1) reloaded_def jget_filter)
  have set_s: "set ?s = (\<lambda>(k, v). (k, json_norm v)) ` set ?m"
  proof -
    have "(k, w) \<in> set ?s \<longleftrightarrow> (\<exists>v. (k, v) \<in> set ?m \<and> w = json_norm v)" for k w
      using look[of k] jget_iff[OF s, of k w] jget_iff[OF i(1), of k] by auto
    then show ?thesis by (auto simp: image_iff) (metis case_prod_conv)
  qed
  have norm: "valueHashOf H (json_norm (snd kv)) = valueHashOf H (snd kv)" if "kv \<in> set ?m" for kv
    using i(3) that valueHash_norm by (auto simp: hashable_def)
  have hr: "hashed H ` set ?s = hashed H ` set ?m"
    unfolding set_s image_image by (rule image_cong) (use norm in \<open>auto simp: hashed_def\<close>)
  have hb: "hashable H ?s" using i(3) norm unfolding set_s hashable_def by fastforce
  have kr: "set (jkeys ?s) \<subseteq> K" using i(2) unfolding set_map set_s by auto
  let ?t0 = "vempty\<lparr>vdisk := Some rows, vstate := ?s, vroot := fold (put_value H) ?s (Branch [] None)\<rparr>"
  have "trie_of H ?s (fold (put_value H) ?s (Branch [] None))"
    using rebuild_trie[OF assms(1,2) _ _ trie_of_empty hb kr] jset_fold_new[of "[]" ?s] s by (simp add: jmap_ok_def)
  then have v: "vinv H K ?t0" using s hb kr by (simp add: vinv_def)
  have "fst (getRoot H (reopen H t)) = committed H ?s"
    unfolding vs(2) using getRoot_committed[OF assms(1,2) vinv_getRoot[OF v]] by (simp add: step_simps)
  then show ?thesis using committed_cong[OF assms(1,2) s i(1) kr i(2) hr] by simp
qed

section \<open>What a run of operations commits to\<close>

text \<open>The abstract effect of an operation on the key to value map.\<close>

fun vspec :: "vop \<Rightarrow> (string \<rightharpoonup> jsval) \<Rightarrow> (string \<rightharpoonup> jsval)" where
  "vspec (VInsert k v) m = m(k \<mapsto> v)"
| "vspec (VDelete k) m = m(k := None)"
| "vspec VClear m = Map.empty"
| "vspec VRoot m = m"

lemma vstep_spec: "jget (vstate (vstep H op t)) = vspec op (jget (vstate t))"
  by (cases op)
    (auto simp: vinsert_def vdelete_def vclear_def deleteState_def step_simps jmap_simps fun_eq_iff Let_def split: option.split)

lemma vrun_spec: "jget (vstate (vrun H ops t)) = fold vspec ops (jget (vstate t))"
  unfolding vrun_def by (induction ops arbitrary: t) (simp_all add: vstep_spec)

lemma vinv_run_empty:
  "digest H \<Longrightarrow> inj_on H K \<Longrightarrow> \<forall>op \<in> set ops. op_ok H K op \<Longrightarrow> vinv H K (vrun H ops vempty)"
  by (rule vinv_run) (simp_all add: vinv_empty vempty_def)

text \<open>A stand-in for SHA-256 at concrete inputs: the text cut or padded to 31 characters, with a mark.\<close>

definition pad32 :: "string \<Rightarrow> string" where
  "pad32 s = CHR ''x'' # take 31 (s @ replicate 31 CHR ''0'')"

lemma digest_pad32: "digest pad32"
  by unfold_locales (simp add: pad32_def)

lemma pad32_not_zero: "pad32 s \<noteq> zero32"
proof
  assume "pad32 s = zero32"
  then have "CHR ''x'' \<in> set zero32" by (metis list.set_intros(1) pad32_def)
  then show False by (auto simp: zero32_def char_of_def)
qed

lemma inj_pad32: "inj_on pad32 {''a'', ''b'', ''c''}"
  by (simp add: pad32_def)

definition sample_ops :: "vop list" where
  "sample_ops = [VInsert ''a'' (JStr ''1''), VRoot, VInsert ''b'' (JInt 2), VInsert ''c'' (JStr ''3''), VDelete ''a'', VRoot]"

lemma sample_ops_ok: "\<forall>op \<in> set sample_ops. op_ok pad32 {''a'', ''b'', ''c''} op"
  by (simp add: sample_ops_def op_ok_def valueHashOf_def json_stringify_def)

text \<open>C1: After any sequence of inserts, deletes, clears and root reads the state map is the one the
  operations describe, and the root, computed with the cached hashes and shortened chains of the
  code, is the per-level trie hash of that map (for keys whose digests do not collide).\<close>

theorem verkle_root_is_commitment:
  assumes "digest H" "inj_on H K" "\<forall>op \<in> set ops. op_ok H K op"
  shows "jget (vstate (vrun H ops vempty)) = fold vspec ops Map.empty \<and>
    fst (getRoot H (vrun H ops vempty)) = committed H (vstate (vrun H ops vempty))"
  using getRoot_committed[OF assms(1,2) vinv_run_empty[OF assms]] by (simp add: vrun_spec vempty_def)

lemma verkle_root_is_commitment_witness:
  "jget (vstate (vrun pad32 sample_ops vempty)) = fold vspec sample_ops Map.empty \<and>
    fst (getRoot pad32 (vrun pad32 sample_ops vempty)) = committed pad32 (vstate (vrun pad32 sample_ops vempty))"
  by (rule verkle_root_is_commitment[OF digest_pad32 inj_pad32 sample_ops_ok])

text \<open>C3: Two histories that leave the same map have the same root, in whatever order, with whatever
  overwritten or deleted keys and intermediate root reads they got there.\<close>

theorem verkle_root_convergence:
  assumes "digest H" "inj_on H K" "\<forall>op \<in> set ops. op_ok H K op" "\<forall>op \<in> set ops'. op_ok H K op"
    "fold vspec ops Map.empty = fold vspec ops' Map.empty"
  shows "fst (getRoot H (vrun H ops vempty)) = fst (getRoot H (vrun H ops' vempty))"
proof -
  have v: "vinv H K (vrun H ops vempty)" "vinv H K (vrun H ops' vempty)"
    using vinv_run_empty[OF assms(1,2)] assms(3,4) by auto
  have "set (vstate (vrun H ops vempty)) = set (vstate (vrun H ops' vempty))"
    by (rule jmap_ok_set_eq) (use v assms(5) in \<open>auto simp: vinv_def vrun_spec vempty_def\<close>)
  then show ?thesis
    unfolding getRoot_committed[OF assms(1,2) v(1)] getRoot_committed[OF assms(1,2) v(2)]
    by (intro committed_cong[OF assms(1,2)]) (use v in \<open>auto simp: vinv_def\<close>)
qed

lemma verkle_root_convergence_witness:
  "fst (getRoot pad32 (vrun pad32 sample_ops vempty))
   = fst (getRoot pad32 (vrun pad32 [VInsert ''c'' (JStr ''3''), VInsert ''b'' (JInt 2)] vempty))"
  by (rule verkle_root_convergence[OF digest_pad32 inj_pad32 sample_ops_ok])
    (auto simp: sample_ops_def op_ok_def valueHashOf_def json_stringify_def)

text \<open>C12: A restart of a tree that ran any operations over an open store reads back exactly the keys inside
  the reload's range (all but the empty key and keys from \<open>\xFF\<close> up), each with the value its JSON row
  parses to, and its root is the commitment to those entries; when every held key lies in the range, as
  the state machine's keys do, that is the root the running tree has. Conditions: the keys' digests do
  not collide and the inserted values can be hashed.\<close>

theorem verkle_restart_keeps_root:
  assumes "digest H" "inj_on H K" "\<forall>op \<in> set ops. op_ok H K op"
  shows "jget (vstate (reopen H (vrun H ops (vempty\<lparr>vdisk := Some []\<rparr>))))
      = (\<lambda>k. if state_iterated k then map_option json_norm (fold vspec ops Map.empty k) else None) \<and>
    fst (getRoot H (reopen H (vrun H ops (vempty\<lparr>vdisk := Some []\<rparr>))))
      = committed H (reloaded (vstate (vrun H ops (vempty\<lparr>vdisk := Some []\<rparr>)))) \<and>
    ((\<forall>k \<in> dom (fold vspec ops Map.empty). state_iterated k) \<longrightarrow>
      fst (getRoot H (reopen H (vrun H ops (vempty\<lparr>vdisk := Some []\<rparr>))))
        = fst (getRoot H (vrun H ops (vempty\<lparr>vdisk := Some []\<rparr>))))"
proof -
  let ?t = "vempty\<lparr>vdisk := Some []\<rparr>"
  let ?r = "vrun H ops ?t"
  have t: "vinv H K ?t" "disk_ok ?t" "vdisk ?t \<noteq> None"
    by (simp_all add: vempty_def vinv_empty disk_ok_def reloaded_def)
  note v = vinv_run[OF assms(1,2) t(1) assms(3)]
  note d = disk_ok_run[OF assms(1,2) t(1,2) assms(3)] and o = disk_open_run[OF t(3), of H ops]
  have spec: "jget (vstate ?r) = fold vspec ops Map.empty" by (simp add: vrun_spec vempty_def)
  have "reloaded (vstate ?r) = vstate ?r" if "\<forall>k \<in> dom (fold vspec ops Map.empty). state_iterated k"
    using that by (intro reloaded_all) (simp add: spec[symmetric] dom_map_of_conv_image_fst)
  then show ?thesis
    using reopen_lookup[OF d o] reopen_root[OF assms(1,2) v d o] getRoot_committed[OF assms(1,2) v]
    by (simp add: spec fun_eq_iff)
qed

lemma sample_ops_map: "fold vspec sample_ops Map.empty = [''b'' \<mapsto> JInt 2, ''c'' \<mapsto> JStr ''3'']"
  by (auto simp: sample_ops_def fun_eq_iff)

lemma verkle_restart_keeps_root_witness:
  "fst (getRoot pad32 (reopen pad32 (vrun pad32 sample_ops (vempty\<lparr>vdisk := Some []\<rparr>))))
    = fst (getRoot pad32 (vrun pad32 sample_ops (vempty\<lparr>vdisk := Some []\<rparr>)))"
proof -
  have "\<forall>k \<in> dom (fold vspec sample_ops Map.empty). state_iterated k"
    by (simp add: sample_ops_map state_iterated_def)
  then show ?thesis using verkle_restart_keeps_root[OF digest_pad32 inj_pad32 sample_ops_ok] by blast
qed

text \<open>The bounds matter: a row under the empty key, or under one from \<open>\xFF\<close> up, is written and never read
  back, and one from \<open>\xFF\<close> up outlives a clear.\<close>

lemma rows_outside_the_range:
  "vstate (reopen H (vrun H [VInsert [] (JInt 1)] (vempty\<lparr>vdisk := Some []\<rparr>))) = []"
  "vdisk (vrun H [VInsert [CHR 0xFF] (JInt 1), VClear] (vempty\<lparr>vdisk := Some []\<rparr>)) = Some [([CHR 0xFF], JInt 1)]"
  by (simp_all add: vrun_def vinsert_def saveState_def vempty_def reopen_def loadState_def rebuildTrie_def vclear_def
      step_simps state_iterated_def state_cleared_def valueHashOf_def json_stringify_def)

end
