(* ===== verification/VerkleProof.thy ===== *)
theory VerkleProof
  imports VerkleStore
begin

text \<open>
  \<open>generateProof\<close>, \<open>verifyProof\<close>, \<open>keyPath\<close> and \<open>getTreeShape\<close> of \<open>verkle-tree.js\<close>.
  A proof lists, for every depth, the hashes of the siblings of the key's child; verification
  folds the value's hash up through the rows these siblings give.
\<close>

record vproof =
  proot :: string
  ppath :: "(nat \<times> (nat \<times> string) list) list"
  pkey :: string
  pvalueHash :: string

definition siblings_of :: "(string \<Rightarrow> string) \<Rightarrow> nat \<Rightarrow> (nat \<times> vnode) list \<Rightarrow> (nat \<times> string) list" where
  "siblings_of H b ks = map (\<lambda>(n, c). (n, hex_of (fst (hashOf H c)))) (filter (\<lambda>(n, c). n \<noteq> b) ks)"

function gen_path :: "(string \<Rightarrow> string) \<Rightarrow> string \<Rightarrow> nat \<Rightarrow> vnode \<Rightarrow> (nat \<times> (nat \<times> string) list) list" where
  "gen_path H kh d n =
     (if 32 \<le> d then []
      else (case n of
          Leaf k v ld lh lb \<Rightarrow> if nib k d \<noteq> nib kh d then [] else (d, []) # gen_path H kh (Suc d) n
        | Branch ks h \<Rightarrow>
            (case jget ks (nib kh d) of
               None \<Rightarrow> []
             | Some c \<Rightarrow> (d, siblings_of H (nib kh d) ks) # gen_path H kh (Suc d) c)))"
  by pat_completeness auto
termination
  by (relation "measure (\<lambda>(H, kh, d, n). 32 - d)") auto

declare gen_path.simps [simp del]

text \<open>\<open>None\<close>: the key is not in the state (or its value cannot be hashed) and the code throws.\<close>

definition generateProof :: "(string \<Rightarrow> string) \<Rightarrow> vtree \<Rightarrow> string \<Rightarrow> (vproof \<times> vtree) option" where
  "generateProof H t key =
     (if vget t key = JUndef then None
      else (case valueHashOf H (vget t key) of None \<Rightarrow> None
            | Some vh \<Rightarrow> (let (root, t') = getRoot H t in
                Some (\<lparr>proot = root, ppath = gen_path H (H key) 0 (vroot t'),
                       pkey = hex_of (H key), pvalueHash = hex_of vh\<rparr>, t'))))"

text \<open>The row rebuilt at one depth; the depth runs below zero when the path is longer than 32.\<close>

definition verify_row :: "string \<Rightarrow> int \<Rightarrow> (nat \<times> string) list \<Rightarrow> string \<Rightarrow> string" where
  "verify_row kh depth sibs cur =
     row_of (\<lambda>j. if 0 \<le> depth \<and> nat depth < length kh \<and> j = nib kh (nat depth) then cur
       else (case find (\<lambda>s. fst s = j) sibs of Some s \<Rightarrow> unhex (snd s) | None \<Rightarrow> zero32))"

definition verify_step :: "(string \<Rightarrow> string) \<Rightarrow> string \<Rightarrow> nat \<times> (nat \<times> string) list \<Rightarrow> string \<times> int \<Rightarrow> string \<times> int" where
  "verify_step H kh p st = (H (verify_row kh (snd st) (snd p) (fst st)), snd st - 1)"

definition verifyProof :: "(string \<Rightarrow> string) \<Rightarrow> string \<Rightarrow> jsval \<Rightarrow> vproof \<Rightarrow> bool option" where
  "verifyProof H key value p =
     (case valueHashOf H value of None \<Rightarrow> None
      | Some vh \<Rightarrow> Some (if hex_of vh \<noteq> pvalueHash p then False
          else fst (fold (verify_step H (H key)) (rev (ppath p)) (vh, 31)) = unhex (proot p)))"

section \<open>Every generated proof verifies\<close>

lemma find_jget: "find (\<lambda>s. fst s = j) xs = map_option (\<lambda>v. (j, v)) (jget xs j)"
  by (induction xs) auto

lemma nslots_jget: "jget (nslots H ks) j = map_option (nhash H) (jget ks j)"
  by (induction ks) auto

lemma siblings_jget:
  "jget (siblings_of H b ks) j = (if j = b then None else map_option (\<lambda>c. hex_of (fst (hashOf H c))) (jget ks j))"
  by (induction ks) (auto simp: siblings_of_def)

lemma verify_row_branch:
  assumes "digest H" "wfn d (Branch ks h)" "cached H (Branch ks h)" "jget ks (nib kh d) = Some c" "length kh = 32"
  shows "H (verify_row kh (int d) (siblings_of H (nib kh d) ks) (nhash H c)) = nhash H (Branch ks h)"
proof -
  let ?b = "nib kh d"
  have w: "d < 32" "distinct (jkeys ks)" "wf_kids d ks" "cached_kids H ks" using assms(2,3) by auto
  have ne: "ks \<noteq> []" using assms(4) by auto
  have hs: "fst (hashOf H c') = nhash H c'" if "jget ks j = Some c'" for j c'
  proof -
    have "wfn (Suc d) c'" "cached H c'" using jget_in[OF that] w(3,4) by (auto simp: wf_kids_iff cached_kids_iff)
    then show ?thesis using hashOf_correct(1)[of "Suc d" c' H] by (cases "hashOf H c'") auto
  qed
  have sl: "\<forall>(b, x) \<in> set (nslots H ks). b < 256 \<and> length x = 32" "jkeys (nslots H ks) = jkeys ks"
    using digest.nhash_trie(2)[OF assms(1) w(3)] by auto
  have "verify_row kh (int d) (siblings_of H ?b ks) (nhash H c)
      = row_of (\<lambda>j. case jget (nslots H ks) j of Some x \<Rightarrow> x | None \<Rightarrow> zero32)"
    unfolding verify_row_def
    by (rule arg_cong[where f = row_of], rule ext)
      (use w(1) assms(4,5) hs in \<open>auto simp: find_jget siblings_jget nslots_jget split: option.split\<close>)
  also have "\<dots> = write_slots (nslots H ks) row_zero"
    by (rule write_slots_zero[symmetric]) (use sl w(2) in auto)
  finally show ?thesis using ne by simp
qed

lemma gen_path_leaf:
  assumes "digest H" "length kh = 32" "length v = 32"
  shows "d \<le> 32 \<Longrightarrow> fold (verify_step H kh) (rev (gen_path H kh d (Leaf kh v ld lh lb))) (v, 31) = (chain H kh v d, int d - 1)
     \<and> length (gen_path H kh d (Leaf kh v ld lh lb)) = 32 - d"
proof (induction "32 - d" arbitrary: d)
  case 0
  then have "d = 32" by simp
  then show ?case by (simp add: gen_path.simps[of H kh 32])
next
  case (Suc n)
  let ?n = "Leaf kh v ld lh lb"
  have d: "d < 32" using Suc.hyps(2) by simp
  have IH: "fold (verify_step H kh) (rev (gen_path H kh (Suc d) ?n)) (v, 31) = (chain H kh v (Suc d), int d)"
    "length (gen_path H kh (Suc d) ?n) = 32 - Suc d"
    using Suc.hyps(1)[of "Suc d"] Suc.hyps(2) d by auto
  have p: "gen_path H kh d ?n = (d, []) # gen_path H kh (Suc d) ?n" using d by (subst gen_path.simps) simp
  have "verify_row kh (int d) [] x = row_write x (nib kh d * 32) row_zero" if "length x = 32" for x
    using d assms(2) that by (auto simp: verify_row_def row_zero_row_of row_write_row_of nib_less intro!: arg_cong[where f = row_of] ext)
  moreover have "length (chain H kh v (Suc d)) = 32"
    using digest.chain_trie_hash[OF assms(1) _ assms(3), of "Suc d" kh] d by simp
  ultimately show ?case
    using IH d unfolding p by (simp add: verify_step_def chain_step oneChild_def)
qed

lemma gen_path_climb:
  assumes "digest H" "length kh = 32"
  shows "wfn d n \<Longrightarrow> cached H n \<Longrightarrow> (kh, vh) \<in> set (ents n) \<Longrightarrow>
     fold (verify_step H kh) (rev (gen_path H kh d n)) (vh, 31) = (nhash H n, int d - 1) \<and>
     length (gen_path H kh d n) = 32 - d"
proof (induction "32 - d" arbitrary: d n)
  case 0
  then have "\<exists>k v ld lh lb. n = Leaf k v ld lh lb" by (cases n) auto
  then obtain lh lb where n: "n = Leaf kh vh d lh lb" using 0 by auto
  then show ?case using gen_path_leaf[OF assms, of vh d] 0 by auto
next
  case (Suc m)
  have d: "d < 32" using Suc.hyps(2) by simp
  show ?case
  proof (cases n)
    case (Leaf k v ld lh lb)
    then show ?thesis using gen_path_leaf[OF assms, of v d] d Suc.prems by auto
  next
    case (Branch ks h)
    have w: "distinct (jkeys ks)" "wf_kids d ks" "cached_kids H ks" using Suc.prems Branch by auto
    obtain b c where bc: "(b, c) \<in> set ks" "(kh, vh) \<in> set (ents c)"
      using Suc.prems(3) Branch by (auto simp: ents_kids_iff)
    then have b: "b = nib kh d" and wc: "wfn (Suc d) c" "cached H c"
      using w(2,3) by (auto simp: wf_kids_iff cached_kids_iff)
    have g: "jget ks (nib kh d) = Some c" using bc(1) b w(1) by simp
    have IH: "fold (verify_step H kh) (rev (gen_path H kh (Suc d) c)) (vh, 31) = (nhash H c, int d)"
      "length (gen_path H kh (Suc d) c) = 32 - Suc d"
      using Suc.hyps(1)[OF _ wc bc(2)] Suc.hyps(2) by auto
    have p: "gen_path H kh d n = (d, siblings_of H (nib kh d) ks) # gen_path H kh (Suc d) c"
      using d g Branch by (subst gen_path.simps) simp
    have "H (verify_row kh (int d) (siblings_of H (nib kh d) ks) (nhash H c)) = nhash H n"
      unfolding Branch by (rule verify_row_branch[OF assms(1) _ _ g assms(2)]) (use Suc.prems(1,2) Branch in simp_all)
    then show ?thesis using IH d unfolding p by (simp add: verify_step_def)
  qed
qed

lemma generated_proof_verifies:
  assumes "digest H" "inj_on H K" "vinv H K t" "generateProof H t key = Some (p, t')"
  shows "verifyProof H key (vget t key) p = Some True \<and> proot p = fst (getRoot H t) \<and> length (ppath p) = 32"
proof -
  obtain vh where vh: "valueHashOf H (vget t key) = Some vh" "vget t key \<noteq> JUndef"
    using assms(4) by (auto simp: generateProof_def split: if_splits option.splits)
  have p: "p = \<lparr>proot = fst (getRoot H t), ppath = gen_path H (H key) 0 (vroot t'),
       pkey = hex_of (H key), pvalueHash = hex_of vh\<rparr>" and t': "t' = snd (getRoot H t)"
    using assms(4) vh by (auto simp: generateProof_def split: prod.splits)
  obtain x r where x: "hashOf H (vroot t) = (x, r)" by (cases "hashOf H (vroot t)")
  have v': "vinv H K t'" unfolding t' by (rule vinv_getRoot[OF assms(3)])
  then have w: "wfn 0 (vroot t')" "cached H (vroot t')" "set (ents (vroot t')) = hashed H ` set (vstate t)"
    unfolding t' by (auto simp: vinv_def trie_of_def step_simps)
  have "nhash H (vroot t') = x" "hex_of x = fst (getRoot H t)"
    using hashOf_correct(1)[of 0 "vroot t" H x r] assms(3) x t'
    by (auto simp: vinv_def trie_of_def getRoot_def)
  moreover have "(H key, vh) \<in> set (ents (vroot t'))"
  proof -
    have "(key, vget t key) \<in> set (vstate t)" using vh(2) by (auto simp: vget_def dest: jget_in split: option.splits)
    then show ?thesis unfolding w(3) using vh(1) by (force simp: hashed_def image_iff)
  qed
  moreover have "unhex (fst (getRoot H t)) = x" using \<open>hex_of x = fst (getRoot H t)\<close> by (metis unhex_hex_of)
  ultimately show ?thesis
    using gen_path_climb[OF assms(1) _ w(1,2), of "H key" vh] assms(1) vh(1) p
    by (auto simp: verifyProof_def digest_def)
qed

section \<open>A verifying proof against the true root shows the committed value\<close>

text \<open>The rows hashed along a key's path: in the trie, and by the verifier.\<close>

function trie_rows :: "(string \<Rightarrow> string) \<Rightarrow> string \<Rightarrow> nat \<Rightarrow> (string \<times> string) list \<Rightarrow> string list" where
  "trie_rows H kh d es =
     (if es = [] \<or> 32 \<le> d then []
      else row_of (\<lambda>b. trie_hash H (Suc d) (filter (\<lambda>(k, v). nib k d = b) es))
        # trie_rows H kh (Suc d) (filter (\<lambda>(k, v). nib k d = nib kh d) es))"
  by pat_completeness auto
termination
  by (relation "measure (\<lambda>(H, kh, d, es). 32 - d)") auto

declare trie_rows.simps [simp del]

fun climb :: "(string \<Rightarrow> string) \<Rightarrow> string \<Rightarrow> string \<Rightarrow> (nat \<times> (nat \<times> string) list) list \<Rightarrow> string \<times> int" where
  "climb H kh vh [] = (vh, 31)"
| "climb H kh vh (e # p) = verify_step H kh e (climb H kh vh p)"

fun climb_rows :: "(string \<Rightarrow> string) \<Rightarrow> string \<Rightarrow> string \<Rightarrow> (nat \<times> (nat \<times> string) list) list \<Rightarrow> string list" where
  "climb_rows H kh vh [] = []"
| "climb_rows H kh vh (e # p) =
     verify_row kh (snd (climb H kh vh p)) (snd e) (fst (climb H kh vh p)) # climb_rows H kh vh p"

definition hex_siblings :: "(nat \<times> (nat \<times> string) list) list \<Rightarrow> bool" where
  "hex_siblings p \<longleftrightarrow> (\<forall>(d, sibs) \<in> set p. \<forall>(n, h) \<in> set sibs. length (unhex h) = 32)"

lemma climb_fold: "fold (verify_step H kh) (rev p) (vh, 31) = climb H kh vh p"
  by (induction p) auto

lemma climb_depth: "snd (climb H kh vh p) = 31 - int (length p)"
  by (induction p) (auto simp: verify_step_def)

lemma row_of_inj:
  assumes "row_of f = row_of g" "\<And>j. length (f j) = 32" "\<And>j. length (g j) = 32" "b < 256"
  shows "f b = g b"
proof -
  have "map f [0..<256] = map g [0..<256]"
    using assms(1-3) unfolding row_of_def by (intro concat_injective) (auto simp: in_set_zip)
  then show ?thesis using assms(4) by (simp add: map_eq_conv)
qed

lemma trie_hash_length:
  assumes "digest H" "\<forall>(k, v) \<in> set es. length v = 32"
  shows "length (trie_hash H d es) = 32"
  using assms by (subst trie_hash.simps) (cases es; auto simp: digest_def)

lemma climb_length: "digest H \<Longrightarrow> length vh = 32 \<Longrightarrow> length (fst (climb H kh vh p)) = 32"
  by (cases p) (auto simp: verify_step_def digest_def)

lemma verify_row_slot:
  assumes "0 \<le> d" "nat d < length kh" "\<forall>(n, h) \<in> set sibs. length (unhex h) = 32" "length cur = 32"
    "verify_row kh d sibs cur = row_of g" "\<And>j. length (g j) = 32"
  shows "g (nib kh (nat d)) = cur"
proof -
  let ?f = "\<lambda>j. if 0 \<le> d \<and> nat d < length kh \<and> j = nib kh (nat d) then cur
       else (case find (\<lambda>s. fst s = j) sibs of Some s \<Rightarrow> unhex (snd s) | None \<Rightarrow> zero32)"
  have "length (?f j) = 32" for j
    using assms(3,4) by (auto simp: find_jget dest!: jget_in split: option.split)
  then have "?f (nib kh (nat d)) = g (nib kh (nat d))"
    using row_of_inj[of ?f g] assms(5,6) nib_less unfolding verify_row_def by blast
  then show ?thesis using assms(1,2) by simp
qed

lemma climb_sound:
  assumes "digest H" "length kh = 32" "length vh = 32" "vh \<noteq> zero32"
  shows "length p = 32 - d \<Longrightarrow> d \<le> 32 \<Longrightarrow> hex_siblings p \<Longrightarrow> zero32 \<notin> H ` set (climb_rows H kh vh p) \<Longrightarrow>
     \<forall>(k, v) \<in> set es. length k = 32 \<and> length v = 32 \<and> take d k = take d kh \<Longrightarrow>
     \<forall>(r, r') \<in> set (zip (trie_rows H kh d es) (climb_rows H kh vh p)). H r = H r' \<longrightarrow> r = r' \<Longrightarrow>
     fst (climb H kh vh p) = trie_hash H d es \<Longrightarrow> (kh, vh) \<in> set es"
proof (induction p arbitrary: d es)
  case Nil
  then have "d = 32" "vh = trie_hash H 32 es" by auto
  then have "es \<noteq> []" and "vh = snd (hd es)"
    using assms(4) by (auto simp: trie_hash.simps[of H 32 es] split: if_splits)
  moreover have "fst (hd es) = kh"
    using Nil.prems(5) \<open>es \<noteq> []\<close> \<open>d = 32\<close> assms(2) by (cases es) auto
  ultimately show ?case by (cases es) auto
next
  case (Cons e p)
  let ?es = "filter (\<lambda>(k, v). nib k d = nib kh d) es"
  let ?g = "\<lambda>b. trie_hash H (Suc d) (filter (\<lambda>(k, v). nib k d = b) es)"
  let ?row = "verify_row kh (snd (climb H kh vh p)) (snd e) (fst (climb H kh vh p))"
  have d: "d < 32" "length p = 32 - Suc d" "snd (climb H kh vh p) = int d"
    using Cons.prems(1,2) by (auto simp: climb_depth)
  have gl: "length (?g j) = 32" for j by (rule trie_hash_length[OF assms(1)]) (use Cons.prems(5) in auto)
  have c: "H ?row = trie_hash H d es" using Cons.prems(7) by (simp add: verify_step_def)
  have "H ?row \<noteq> zero32" using Cons.prems(4) by auto
  then have ne: "es \<noteq> []" using c by (metis trie_hash_Nil)
  have rows: "trie_rows H kh d es = row_of ?g # trie_rows H kh (Suc d) ?es"
    using ne d(1) by (subst trie_rows.simps) simp
  have "H ?row = H (row_of ?g)" unfolding c using ne d(1) by (subst trie_hash.simps) simp
  then have req: "?row = row_of ?g" using Cons.prems(6) by (auto simp: rows)
  have "\<forall>(n, h) \<in> set (snd e). length (unhex h) = 32"
    using Cons.prems(3) by (cases e) (auto simp: hex_siblings_def)
  then have "?g (nib kh d) = fst (climb H kh vh p)"
    using verify_row_slot[of "int d" kh "snd e" "fst (climb H kh vh p)" ?g] req d assms(1-3) gl climb_length by simp
  moreover have "\<forall>(k, v) \<in> set ?es. length k = 32 \<and> length v = 32 \<and> take (Suc d) k = take (Suc d) kh"
    using Cons.prems(5) prefix_step[OF d(1) _ assms(2)] by auto
  moreover have "\<forall>(r, r') \<in> set (zip (trie_rows H kh (Suc d) ?es) (climb_rows H kh vh p)). H r = H r' \<longrightarrow> r = r'"
    using Cons.prems(6) by (simp add: rows)
  moreover have "hex_siblings p" using Cons.prems(3) by (auto simp: hex_siblings_def)
  moreover have "zero32 \<notin> H ` set (climb_rows H kh vh p)" using Cons.prems(4) by auto
  ultimately have "(kh, vh) \<in> set ?es" using d by (intro Cons.IH) auto
  then show ?case by simp
qed

text \<open>The verifier of a generated proof hashes exactly the rows of the trie.\<close>

lemma verify_row_trie:
  assumes "digest H" "wfn d (Branch ks h)" "cached H (Branch ks h)" "jget ks (nib kh d) = Some c" "length kh = 32"
  shows "verify_row kh (int d) (siblings_of H (nib kh d) ks) (nhash H c)
    = row_of (\<lambda>b. trie_hash H (Suc d) (filter (\<lambda>(k, v). nib k d = b) (ents (Branch ks h))))"
proof -
  have w: "d < 32" "distinct (jkeys ks)" "wf_kids d ks" "cached_kids H ks" using assms(2,3) by auto
  have wc: "wfn (Suc d) c'" "cached H c'" if "jget ks j = Some c'" for j c'
    using jget_in[OF that] w(3,4) by (auto simp: wf_kids_iff cached_kids_iff)
  have hs: "fst (hashOf H c') = trie_hash H (Suc d) (ents c') \<and> nhash H c' = trie_hash H (Suc d) (ents c')"
    if "jget ks j = Some c'" for j c'
    using hashOf_correct(1)[of "Suc d" c' H, OF wc[OF that]] digest.nhash_trie(1)[OF assms(1) wc(1)[OF that]]
    by (cases "hashOf H c'") auto
  show ?thesis
    unfolding verify_row_def
    by (rule arg_cong[where f = row_of], rule ext)
      (use w assms(4,5) hs in \<open>auto simp: find_jget siblings_jget filter_ents_kids split: option.split\<close>)
qed

lemma gen_path_rows_leaf:
  assumes "digest H" "length kh = 32" "length v = 32"
  shows "d \<le> 32 \<Longrightarrow> climb_rows H kh v (gen_path H kh d (Leaf kh v ld lh lb)) = trie_rows H kh d [(kh, v)]"
proof (induction "32 - d" arbitrary: d)
  case 0
  then have "d = 32" by simp
  then show ?case by (simp add: gen_path.simps[of H kh 32] trie_rows.simps[of H kh 32])
next
  case (Suc n)
  let ?n = "Leaf kh v ld lh lb"
  have d: "d < 32" using Suc.hyps(2) by simp
  have p: "gen_path H kh d ?n = (d, []) # gen_path H kh (Suc d) ?n" using d by (subst gen_path.simps) simp
  have c: "climb H kh v (gen_path H kh (Suc d) ?n) = (trie_hash H (Suc d) [(kh, v)], int d)"
    using gen_path_leaf[OF assms, of "Suc d" ld lh lb] digest.chain_trie_hash[OF assms(1) _ assms(3), of "Suc d" kh] d
    by (simp add: climb_fold)
  have "verify_row kh (int d) [] (trie_hash H (Suc d) [(kh, v)])
     = row_of (\<lambda>b. trie_hash H (Suc d) (filter (\<lambda>(k, v). nib k d = b) [(kh, v)]))"
    unfolding verify_row_def by (rule arg_cong[where f = row_of], rule ext) (use d assms(2) in auto)
  then show ?case
    using Suc.hyps(1)[of "Suc d"] Suc.hyps(2) d c by (simp add: p trie_rows.simps[of H kh d "[(kh, v)]"])
qed

lemma gen_path_rows:
  assumes "digest H" "length kh = 32"
  shows "wfn d n \<Longrightarrow> cached H n \<Longrightarrow> (kh, vh) \<in> set (ents n) \<Longrightarrow>
     climb_rows H kh vh (gen_path H kh d n) = trie_rows H kh d (ents n) \<and> hex_siblings (gen_path H kh d n)"
proof (induction "32 - d" arbitrary: d n)
  case 0
  then show ?case
    by (cases n) (auto simp: gen_path.simps[of H kh 32] trie_rows.simps[of H kh 32] hex_siblings_def)
next
  case (Suc m)
  have d: "d < 32" using Suc.hyps(2) by simp
  show ?case
  proof (cases n)
    case (Leaf k v ld lh lb)
    have "hex_siblings (gen_path H kh j n)" for j
    proof (induction "32 - j" arbitrary: j)
      case 0
      then show ?case by (simp add: gen_path.simps[of H kh j] hex_siblings_def)
    next
      case (Suc m)
      have "hex_siblings (gen_path H kh (Suc j) n)" using Suc.hyps(1)[of "Suc j"] Suc.hyps(2) by simp
      then show ?case using Leaf by (auto simp: gen_path.simps[of H kh j] hex_siblings_def)
    qed
    then show ?thesis using gen_path_rows_leaf[OF assms, of v d ld lh lb] Leaf d Suc.prems by auto
  next
    case (Branch ks h)
    have w: "distinct (jkeys ks)" "wf_kids d ks" "cached_kids H ks" using Suc.prems Branch by auto
    obtain b c where bc: "(b, c) \<in> set ks" "(kh, vh) \<in> set (ents c)"
      using Suc.prems(3) Branch by (auto simp: ents_kids_iff)
    then have b: "b = nib kh d" and wc: "wfn (Suc d) c" "cached H c"
      using w(2,3) by (auto simp: wf_kids_iff cached_kids_iff)
    have g: "jget ks (nib kh d) = Some c" using bc(1) b w(1) by simp
    have IH: "climb_rows H kh vh (gen_path H kh (Suc d) c) = trie_rows H kh (Suc d) (ents c)"
      "hex_siblings (gen_path H kh (Suc d) c)"
      using Suc.hyps(1)[OF _ wc bc(2)] Suc.hyps(2) by auto
    have p: "gen_path H kh d n = (d, siblings_of H (nib kh d) ks) # gen_path H kh (Suc d) c"
      using d g Branch by (subst gen_path.simps) simp
    have c: "climb H kh vh (gen_path H kh (Suc d) c) = (nhash H c, int d)"
      using gen_path_climb[OF assms wc bc(2)] by (simp add: climb_fold)
    have "length (fst (hashOf H c')) = 32" if "(j, c') \<in> set ks" for j c'
    proof -
      have "wfn (Suc d) c'" "cached H c'" using that w(2,3) by (auto simp: wf_kids_iff cached_kids_iff)
      then show ?thesis
        using hashOf_correct(1)[of "Suc d" c' H] digest.nhash_trie(1)[OF assms(1), of "Suc d" c'] by (cases "hashOf H c'") auto
    qed
    then have sib: "hex_siblings (gen_path H kh d n)"
      using IH(2) unfolding p by (auto simp: hex_siblings_def siblings_of_def)
    have "ents n \<noteq> []" using Suc.prems(3) by auto
    moreover have "filter (\<lambda>(k, v). nib k d = nib kh d) (ents n) = ents c"
      using filter_ents_kids[OF w(1,2), of "nib kh d"] g Branch by simp
    ultimately have "trie_rows H kh d (ents n)
        = row_of (\<lambda>b. trie_hash H (Suc d) (filter (\<lambda>(k, v). nib k d = b) (ents n))) # trie_rows H kh (Suc d) (ents c)"
      using d by (subst trie_rows.simps) simp
    moreover have "verify_row kh (int d) (siblings_of H (nib kh d) ks) (nhash H c)
        = row_of (\<lambda>b. trie_hash H (Suc d) (filter (\<lambda>(k, v). nib k d = b) (ents n)))"
      unfolding Branch by (rule verify_row_trie[OF assms(1) _ _ g assms(2)]) (use Suc.prems(1,2) Branch in simp_all)
    ultimately show ?thesis using IH(1) c sib unfolding p by simp
  qed
qed

section \<open>The proofs of the tree\<close>

lemma generated_root_at:
  assumes "digest H" "inj_on H K" "vinv H K t" "jget (vstate t) key = Some v" "v \<noteq> JUndef"
  shows "\<exists>p t'. generateProof H t key = Some (p, t') \<and> proot p = fst (getRoot H t) \<and>
    length (ppath p) = 32 \<and> verifyProof H key v p = Some True"
proof -
  have g: "vget t key = v" using assms(4) by (simp add: vget_def)
  then have "valueHashOf H v \<noteq> None" using assms(3) jget_in[OF assms(4)] by (auto simp: vinv_def hashable_def)
  then obtain p t' where p: "generateProof H t key = Some (p, t')"
    using assms(5) g by (cases "getRoot H t") (auto simp: generateProof_def)
  show ?thesis using generated_proof_verifies[OF assms(1-3) p] p g by auto
qed

lemma distinct_singleton_list: "distinct xs \<Longrightarrow> set xs = {x} \<Longrightarrow> xs = [x]"
  by (cases xs; cases "tl xs") auto

text \<open>C13: Every key of the state has a proof, and the proof the tree generates, one row per level,
  carries the tree's root and verifies for the stored value.\<close>

theorem generated_proofs_verify:
  assumes "digest H" "inj_on H K" "\<forall>op \<in> set ops. op_ok H K op"
    "t = vrun H ops vempty" "jget (vstate t) key = Some v" "v \<noteq> JUndef"
  shows "\<exists>p t'. generateProof H t key = Some (p, t') \<and> proot p = fst (getRoot H t) \<and>
    length (ppath p) = 32 \<and> verifyProof H key v p = Some True"
  unfolding assms(4)
  by (rule generated_root_at[OF assms(1,2) vinv_run_empty[OF assms(1-3)]])
    (use assms(4-6) in auto)

lemma generated_proofs_verify_witness:
  "\<exists>p t'. generateProof pad32 (vrun pad32 sample_ops vempty) ''b'' = Some (p, t') \<and>
    proot p = fst (getRoot pad32 (vrun pad32 sample_ops vempty)) \<and>
    length (ppath p) = 32 \<and> verifyProof pad32 ''b'' (JInt 2) p = Some True"
  by (rule generated_proofs_verify[OF digest_pad32 inj_pad32 sample_ops_ok refl])
    (simp_all add: vrun_spec vempty_def sample_ops_def)

lemma verify_climb:
  assumes "verifyProof H key value p = Some True"
  obtains vh where "valueHashOf H value = Some vh" "fst (climb H (H key) vh (ppath p)) = unhex (proot p)"
  using assms by (auto simp: verifyProof_def climb_fold split: option.splits if_splits)

lemma proof_sound_in:
  assumes "digest H" "inj_on H (insert key K)" "vinv H K t" "verifyProof H key value p = Some True"
    "length (ppath p) = 32" "hex_siblings (ppath p)" "proot p = fst (getRoot H t)"
    "valueHashOf H value = Some vh" "vh \<noteq> zero32" "zero32 \<notin> H ` set (climb_rows H (H key) vh (ppath p))"
    "\<forall>(r, r') \<in> set (zip (trie_rows H (H key) 0 (map (hashed H) (vstate t))) (climb_rows H (H key) vh (ppath p))).
      H r = H r' \<longrightarrow> r = r'"
  shows "\<exists>v. jget (vstate t) key = Some v \<and> valueHashOf H v = Some vh"
proof -
  have inj: "inj_on H K" using assms(2) by (rule inj_on_subset) auto
  have m: "jmap_ok (vstate t)" "set (jkeys (vstate t)) \<subseteq> K" "hashable H (vstate t)" using assms(3) by (auto simp: vinv_def)
  have "fst (climb H (H key) vh (ppath p)) = unhex (proot p)" using verify_climb[OF assms(4)] assms(8) by auto
  moreover have "proot p = hex_of (trie_hash H 0 (map (hashed H) (vstate t)))"
    using getRoot_committed[OF assms(1) inj assms(3)] assms(7) by (simp add: committed_def)
  ultimately have c: "fst (climb H (H key) vh (ppath p)) = trie_hash H 0 (map (hashed H) (vstate t))"
    by (simp add: unhex_hex_of)
  have len: "length (H key) = 32" "length vh = 32" using assms(1) valueHash_length[OF assms(1,8)] by (auto simp: digest_def)
  have "\<forall>(k, v) \<in> set (map (hashed H) (vstate t)). length k = 32 \<and> length v = 32 \<and> take 0 k = take 0 (H key)"
    using assms(1) m(3) valueHash_length[OF assms(1)] by (fastforce simp: hashed_def hashable_def digest_def)
  then have "(H key, vh) \<in> set (map (hashed H) (vstate t))"
    using climb_sound[OF assms(1) len assms(9), of "ppath p" 0 "map (hashed H) (vstate t)"] assms(5,6,10,11) c by simp
  then obtain k v where kv: "(k, v) \<in> set (vstate t)" "H k = H key" "the (valueHashOf H v) = vh"
    by (auto simp: hashed_def)
  have "k \<in> insert key K" using kv(1) m(2) by force
  then have "k = key" using inj_onD[OF assms(2) kv(2)] by simp
  moreover have "valueHashOf H v = Some vh" using kv(1,3) m(3) by (force simp: hashable_def)
  ultimately show ?thesis using kv(1) m(1) by (auto simp: jget_iff)
qed

text \<open>C2: A proof of full length whose sibling hashes are 32 bytes and whose root is the tree's root
  verifies only for a key that is in the state, with the hash of the value it has there, or else the
  texts at hand break the hash: a row the verifier hashed collides with a different row of the trie, two
  of the keys (those the history wrote, the one asked about) have one digest, or the value or a row the
  verifier hashed has the all-zero digest that stands for an empty slot. Nothing is assumed of the hash
  but that digests are 32 bytes.\<close>

theorem verkle_proof_sound:
  assumes "digest H" "\<forall>op \<in> set ops. op_ok H K op"
    "t = vrun H ops vempty" "verifyProof H key value p = Some True"
    "length (ppath p) = 32" "hex_siblings (ppath p)" "proot p = fst (getRoot H t)"
  shows "(\<exists>v. jget (vstate t) key = Some v \<and> valueHashOf H v = valueHashOf H value) \<or>
    (\<exists>(r, r') \<in> set (zip (trie_rows H (H key) 0 (map (hashed H) (vstate t)))
        (climb_rows H (H key) (the (valueHashOf H value)) (ppath p))). r \<noteq> r' \<and> H r = H r') \<or>
    (\<exists>k \<in> insert key K. \<exists>k' \<in> insert key K. k \<noteq> k' \<and> H k = H k') \<or>
    valueHashOf H value = Some zero32 \<or>
    zero32 \<in> H ` set (climb_rows H (H key) (the (valueHashOf H value)) (ppath p))"
    (is "_ \<or> ?collide \<or> ?keys \<or> ?zero \<or> ?zrow")
proof -
  obtain vh where vh: "valueHashOf H value = Some vh" using assms(4) by (rule verify_climb)
  have "\<exists>v. jget (vstate t) key = Some v \<and> valueHashOf H v = valueHashOf H value"
    if n: "\<not> ?collide" "\<not> ?keys" "\<not> ?zero" "\<not> ?zrow"
    unfolding vh
  proof (rule proof_sound_in[OF assms(1) _ _ assms(4-7) vh])
    show inj: "inj_on H (insert key K)" using n(2) by (auto simp: inj_on_def)
    show "vinv H K t" unfolding assms(3)
      by (rule vinv_run_empty[OF assms(1) inj_on_subset[OF inj] assms(2)]) auto
    show "vh \<noteq> zero32" "zero32 \<notin> H ` set (climb_rows H (H key) vh (ppath p))" using n(3,4) vh by auto
    show "\<forall>(r, r') \<in> set (zip (trie_rows H (H key) 0 (map (hashed H) (vstate t))) (climb_rows H (H key) vh (ppath p))).
      H r = H r' \<longrightarrow> r = r'" using n(1) vh by auto
  qed
  then show ?thesis by blast
qed

lemma generated_rows:
  assumes "digest H" "inj_on H K" "vinv H K t" "generateProof H t key = Some (p, t')"
  shows "climb_rows H (H key) (the (valueHashOf H (vget t key))) (ppath p)
      = trie_rows H (H key) 0 (ents (vroot t')) \<and> hex_siblings (ppath p)"
proof -
  obtain vh where vh: "valueHashOf H (vget t key) = Some vh" "vget t key \<noteq> JUndef"
    using assms(4) by (auto simp: generateProof_def split: if_splits option.splits)
  have p: "ppath p = gen_path H (H key) 0 (vroot t')" and t': "t' = snd (getRoot H t)"
    using assms(4) vh by (auto simp: generateProof_def split: prod.splits)
  have w: "wfn 0 (vroot t')" "cached H (vroot t')" "set (ents (vroot t')) = hashed H ` set (vstate t)"
    using vinv_getRoot[OF assms(3)] unfolding t' by (auto simp: vinv_def trie_of_def step_simps)
  have "(key, vget t key) \<in> set (vstate t)" using vh(2) by (auto simp: vget_def dest: jget_in split: option.splits)
  then have "(H key, vh) \<in> set (ents (vroot t'))" unfolding w(3) using vh(1) by (force simp: hashed_def image_iff)
  then show ?thesis
    using gen_path_rows[OF assms(1) _ w(1,2), of "H key" vh] assms(1) vh(1) p by (simp add: digest_def)
qed

lemma climb_rows_length: "length (climb_rows H kh vh p) = length p"
  by (induction p) auto

lemma verkle_proof_sound_witness:
  "\<exists>p. verifyProof pad32 ''b'' (JInt 2) p = Some True \<and>
    (\<exists>v. jget (vstate (vrun pad32 [VInsert ''b'' (JInt 2)] vempty)) ''b'' = Some v \<and>
      valueHashOf pad32 v = valueHashOf pad32 (JInt 2))"
proof -
  let ?ops = "[VInsert ''b'' (JInt 2)]" and ?t = "vrun pad32 [VInsert ''b'' (JInt 2)] vempty"
  have inj: "inj_on pad32 {''b''}" and ok: "\<forall>op \<in> set ?ops. op_ok pad32 {''b''} op"
    by (simp_all add: op_ok_def valueHashOf_def json_stringify_def)
  have st: "vstate ?t = [(''b'', JInt 2)]"
    by (auto simp: vrun_def vinsert_def vempty_def saveState_def Let_def split: option.split)
  have i: "vinv pad32 {''b''} ?t" by (rule vinv_run_empty[OF digest_pad32 inj ok])
  obtain p t' where p: "generateProof pad32 ?t ''b'' = Some (p, t')" "proot p = fst (getRoot pad32 ?t)"
    "length (ppath p) = 32" "verifyProof pad32 ''b'' (JInt 2) p = Some True"
    using generated_root_at[OF digest_pad32 inj i, of "''b''" "JInt 2"] st by auto
  have "t' = snd (getRoot pad32 ?t)" using p(1) by (auto simp: generateProof_def split: if_splits option.splits prod.splits)
  then have w: "trie_of pad32 [(''b'', JInt 2)] (vroot t')"
    using vinv_getRoot[OF i] by (simp add: vinv_def step_simps st)
  then have "distinct (ents (vroot t'))" "set (ents (vroot t')) = {hashed pad32 (''b'', JInt 2)}"
    using distinct_ents(1)[of 0 "vroot t'"] by (auto simp: trie_of_def distinct_map)
  then have "ents (vroot t') = map (hashed pad32) (vstate ?t)"
    using distinct_singleton_list st by fastforce
  then have "climb_rows pad32 (pad32 ''b'') (the (valueHashOf pad32 (JInt 2))) (ppath p)
      = trie_rows pad32 (pad32 ''b'') 0 (map (hashed pad32) (vstate ?t)) \<and> hex_siblings (ppath p)"
    using generated_rows[OF digest_pad32 inj i p(1)] by (simp add: vget_def st)
  then have rows: "hex_siblings (ppath p)"
    "\<forall>(r, r') \<in> set (zip (trie_rows pad32 (pad32 ''b'') 0 (map (hashed pad32) (vstate ?t)))
        (climb_rows pad32 (pad32 ''b'') (the (valueHashOf pad32 (JInt 2))) (ppath p))). pad32 r = pad32 r' \<longrightarrow> r = r'"
    by (auto simp: zip_same_conv_map)
  have zero: "valueHashOf pad32 (JInt 2) \<noteq> Some zero32" "zero32 \<notin> pad32 ` A" for A
    using pad32_not_zero by (auto simp: valueHashOf_def dest: sym)
  have "\<not> (\<exists>(r, r') \<in> set (zip (trie_rows pad32 (pad32 ''b'') 0 (map (hashed pad32) (vstate ?t)))
        (climb_rows pad32 (pad32 ''b'') (the (valueHashOf pad32 (JInt 2))) (ppath p))). r \<noteq> r' \<and> pad32 r = pad32 r')"
    using rows(2) by auto
  then show ?thesis
    using verkle_proof_sound[OF digest_pad32 ok refl p(4,3) rows(1) p(2)] zero p(4) by blast
qed

end
