(* ===== verification/Micromine.thy ===== *)
theory Micromine
  imports Sha256
begin

text \<open>
  Content addressing: \<open>micromine.js\<close> of the cubic ledger. The content id of a datum is the hash of
  its JSON text; mining finds the smallest nonce whose hash with it carries the datum's type as a
  two-character prefix; the answers are kept in a bounded first-in first-out memo. Shown: the memo
  never changes an answer and stays bounded, the nonce is the smallest and verifies, and a verified
  key determines the datum's text.
\<close>

section \<open>The functions\<close>

definition sha256hex :: "(string \<Rightarrow> string) \<Rightarrow> string \<Rightarrow> string" where
  "sha256hex H s = hex_of (H s)"

definition starts_with :: "string \<Rightarrow> string \<Rightarrow> bool" where
  "starts_with s p \<longleftrightarrow> take (length p) s = p"

definition typePrefix :: "nat \<Rightarrow> string" where
  "typePrefix type = ''0'' @ show_nat type"

text \<open>\<open>None\<close>: the JSON text throws (a BigInt in the data).\<close>

definition oidOf :: "(string \<Rightarrow> string) \<Rightarrow> jsval \<Rightarrow> string option" where
  "oidOf H data = map_option (sha256hex H) (json_stringify (JObj [(''data'', data)]))"

record mined =
  moid :: string
  mnonce :: nat
  mxid :: string
  mkey :: string

definition mined_of :: "string \<Rightarrow> nat \<Rightarrow> string \<Rightarrow> mined" where
  "mined_of oid nonce xid = \<lparr>moid = oid, mnonce = nonce, mxid = xid, mkey = xid @ ''_'' @ show_nat nonce\<rparr>"

record miner =
  memo :: "(string, nat \<times> string) jmap"
  memo_max :: nat
  hits :: nat
  searches :: nat

definition miner0 :: "nat \<Rightarrow> miner" where
  "miner0 mx = \<lparr>memo = [], memo_max = mx, hits = 0, searches = 0\<rparr>"

definition nonce_limit :: nat where
  "nonce_limit = 1000000"

definition xid_at :: "(string \<Rightarrow> string) \<Rightarrow> string \<Rightarrow> nat \<Rightarrow> string" where
  "xid_at H oid nonce = sha256hex H (oid @ show_nat nonce)"

text \<open>The search loop from a nonce; \<open>None\<close> when it passes the limit.\<close>

function search_from :: "(string \<Rightarrow> string) \<Rightarrow> string \<Rightarrow> string \<Rightarrow> nat \<Rightarrow> (nat \<times> string) option" where
  "search_from H oid prefix nonce =
     (if nonce_limit < nonce then None
      else (let xid = xid_at H oid nonce in
        if starts_with xid prefix then Some (nonce, xid) else search_from H oid prefix (Suc nonce)))"
  by pat_completeness auto
termination
  by (relation "measure (\<lambda>(H, oid, prefix, nonce). Suc nonce_limit - nonce)") auto

declare search_from.simps [simp del]

datatype mine_error = UnserializableData | NoNonce nat

text \<open>The write to the memo: the first entry leaves when the memo outgrows its maximum.\<close>

definition remember :: "string \<Rightarrow> nat \<times> string \<Rightarrow> miner \<Rightarrow> miner" where
  "remember key nx m = (let mm = jset (memo m) key nx in
     m\<lparr>memo := (if memo_max m < length mm then jdel mm (fst (hd mm)) else mm)\<rparr>)"

lemma remember_frame [step_simps]: "memo_max (remember key nx m) = memo_max m"
  by (simp add: remember_def Let_def)

definition micromine :: "(string \<Rightarrow> string) \<Rightarrow> jsval \<Rightarrow> nat \<Rightarrow> miner \<Rightarrow> (mine_error + mined) \<times> miner" where
  "micromine H data type m =
     (case oidOf H data of
        None \<Rightarrow> (Inl UnserializableData, m)
      | Some oid \<Rightarrow>
          (let prefix = typePrefix type; memoKey = prefix @ '':'' @ oid in
           case jget (memo m) memoKey of
             Some (nonce, xid) \<Rightarrow> (Inr (mined_of oid nonce xid), m\<lparr>hits := Suc (hits m)\<rparr>)
           | None \<Rightarrow>
               (let m1 = m\<lparr>searches := Suc (searches m)\<rparr> in
                case search_from H oid prefix 0 of
                  None \<Rightarrow> (Inl (NoNonce type), m1)
                | Some (nonce, xid) \<Rightarrow> (Inr (mined_of oid nonce xid), remember memoKey (nonce, xid) m1))))"

text \<open>\<open>String(nonce)\<close> of whatever value arrives; \<open>None\<close> when the JSON text throws.\<close>

definition verifyMicromine :: "(string \<Rightarrow> string) \<Rightarrow> jsval \<Rightarrow> jsval \<Rightarrow> string \<Rightarrow> nat \<Rightarrow> bool option" where
  "verifyMicromine H data nonce xid type =
     map_option (\<lambda>oid. sha256hex H (oid @ js_string nonce) = xid \<and> starts_with xid (typePrefix type)) (oidOf H data)"

definition type6TxBody :: "jsval \<Rightarrow> jsval" where
  "type6TxBody t = JObj
     [(''chain'', getp t ''chain''), (''from'', nullish (getp t ''from'') (JArr [])), (''to'', nullish (getp t ''to'') (JArr [])),
      (''asset'', getp t ''asset''), (''amount'', getp t ''amount''), (''seq'', getp t ''seq''),
      (''prev'', nullish (getp t ''prev'') (JStr [])), (''unspent'', nullish (getp t ''unspent'') (JStr []))]"

definition type7PointerBody :: "jsval \<Rightarrow> jsval" where
  "type7PointerBody p = JObj
     [(''from'', nullish (getp p ''from'') (JArr [])), (''to'', nullish (getp p ''to'') (JArr [])), (''how'', getp p ''how'')]"

section \<open>The search\<close>

lemma search_sound:
  "search_from H oid p k = Some (n, x) \<Longrightarrow>
     k \<le> n \<and> n \<le> nonce_limit \<and> x = xid_at H oid n \<and> starts_with x p \<and> (\<forall>j. k \<le> j \<and> j < n \<longrightarrow> \<not> starts_with (xid_at H oid j) p)"
proof (induction H oid p k rule: search_from.induct)
  case (1 H oid p k)
  show ?case
  proof (cases "nonce_limit < k \<or> starts_with (xid_at H oid k) p")
    case True
    then show ?thesis using 1(2) by (subst (asm) search_from.simps) (auto simp: Let_def split: if_splits)
  next
    case False
    then have s: "search_from H oid p (Suc k) = Some (n, x)" using 1(2) by (subst (asm) search_from.simps) simp
    then have "Suc k \<le> n \<and> n \<le> nonce_limit \<and> x = xid_at H oid n \<and> starts_with x p \<and>
        (\<forall>j. Suc k \<le> j \<and> j < n \<longrightarrow> \<not> starts_with (xid_at H oid j) p)"
      using 1(1) False by auto
    moreover have "j = k \<or> Suc k \<le> j" if "k \<le> j" for j using that by auto
    ultimately show ?thesis using False by (metis Suc_leD)
  qed
qed

lemma search_complete:
  "k \<le> j \<Longrightarrow> j \<le> nonce_limit \<Longrightarrow> starts_with (xid_at H oid j) p \<Longrightarrow> search_from H oid p k \<noteq> None"
proof (induction "nonce_limit - k" arbitrary: k)
  case 0
  then have "k = j" "k = nonce_limit" by auto
  then show ?case using 0 by (subst search_from.simps) simp
next
  case (Suc n)
  show ?case
  proof (cases "starts_with (xid_at H oid k) p")
    case True
    then show ?thesis using Suc by (subst search_from.simps) simp
  next
    case False
    then have "Suc k \<le> j" using Suc.prems by (cases "k = j") auto
    then have "search_from H oid p (Suc k) \<noteq> None" using Suc by auto
    then show ?thesis using Suc.prems False by (subst search_from.simps) simp
  qed
qed

section \<open>The memo\<close>

text \<open>Mining without the memo: what the answer is a function of.\<close>

definition mine :: "(string \<Rightarrow> string) \<Rightarrow> jsval \<Rightarrow> nat \<Rightarrow> mine_error + mined" where
  "mine H data type =
     (case oidOf H data of None \<Rightarrow> Inl UnserializableData
      | Some oid \<Rightarrow> (case search_from H oid (typePrefix type) 0 of None \<Rightarrow> Inl (NoNonce type)
          | Some (nonce, xid) \<Rightarrow> Inr (mined_of oid nonce xid)))"

definition memo_ok :: "(string \<Rightarrow> string) \<Rightarrow> miner \<Rightarrow> bool" where
  "memo_ok H m \<longleftrightarrow> jmap_ok (memo m) \<and> length (memo m) \<le> memo_max m \<and>
     (\<forall>type oid nx. jget (memo m) (typePrefix type @ '':'' @ oid) = Some nx \<longrightarrow>
        search_from H oid (typePrefix type) 0 = Some nx)"

lemma typePrefix_inj: "typePrefix a @ '':'' @ x = typePrefix b @ '':'' @ y \<longleftrightarrow> a = b \<and> x = y"
proof
  assume e: "typePrefix a @ '':'' @ x = typePrefix b @ '':'' @ y"
  have d: "takeWhile is_digit (typePrefix n @ '':'' @ z) = typePrefix n" for n z
  proof -
    have "\<forall>c \<in> set (typePrefix n). is_digit c"
      using show_nat_digits[of n] by (auto simp: typePrefix_def is_digit_def)
    then show ?thesis by (subst takeWhile_append2) (auto simp: is_digit_def)
  qed
  have "typePrefix a = typePrefix b" using arg_cong[OF e, of "takeWhile is_digit"] unfolding d .
  then show "a = b \<and> x = y" using e by (simp add: typePrefix_def show_nat_inj)
qed simp

lemma memo_ok_miner0: "memo_ok H (miner0 mx)"
  by (simp add: memo_ok_def miner0_def)

lemma evict_first: "jmap_ok mm \<Longrightarrow> mm \<noteq> [] \<Longrightarrow> length (jdel mm (fst (hd mm))) = length mm - 1"
  by (cases mm) (auto simp: jmap_ok_def jdel_absent jhas_iff)

lemma memo_ok_remember:
  assumes "memo_ok H m" "search_from H oid (typePrefix type) 0 = Some nx"
    "jget (memo m) (typePrefix type @ '':'' @ oid) = None"
  shows "memo_ok H (remember (typePrefix type @ '':'' @ oid) nx m)"
proof -
  define mm where "mm = jset (memo m) (typePrefix type @ '':'' @ oid) nx"
  define mm' where "mm' = (if memo_max m < length mm then jdel mm (fst (hd mm)) else mm)"
  have mm: "jmap_ok mm" "mm \<noteq> []" using assms(1) unfolding mm_def by (simp_all add: memo_ok_def wf_intros update_nonempty)
  have "length mm = Suc (length (memo m))"
    using assms(3) unfolding mm_def by (simp add: jset_length jhas_def)
  then have "length mm' \<le> memo_max m"
    using assms(1) evict_first[OF mm] unfolding mm'_def by (auto simp: memo_ok_def)
  moreover have "jmap_ok mm'" using mm(1) unfolding mm'_def by (simp add: wf_intros)
  moreover have "search_from H o' (typePrefix t) 0 = Some v"
    if "jget mm' (typePrefix t @ '':'' @ o') = Some v" for t o' v
  proof -
    have "jget mm (typePrefix t @ '':'' @ o') = Some v" using that unfolding mm'_def by (auto simp: jmap_simps split: if_splits)
    then have "(t = type \<and> o' = oid \<and> v = nx) \<or> jget (memo m) (typePrefix t @ '':'' @ o') = Some v"
      unfolding mm_def jget_jset typePrefix_inj by (auto split: if_splits)
    then show ?thesis using assms(1,2) unfolding memo_ok_def by blast
  qed
  ultimately have "memo_ok H (m\<lparr>memo := mm'\<rparr>)" unfolding memo_ok_def by simp
  then show ?thesis unfolding remember_def mm'_def mm_def Let_def .
qed

lemma micromine_correct:
  assumes "memo_ok H m"
  shows "fst (micromine H data type m) = mine H data type \<and> memo_ok H (snd (micromine H data type m)) \<and>
    memo_max (snd (micromine H data type m)) = memo_max m"
proof (cases "oidOf H data")
  case None
  then show ?thesis using assms by (simp add: micromine_def mine_def)
next
  case (Some oid)
  let ?k = "typePrefix type @ '':'' @ oid"
  have frame: "memo_ok H (m\<lparr>hits := a\<rparr>)" "memo_ok H (m\<lparr>searches := a\<rparr>)" for a
    using assms by (simp_all add: memo_ok_def)
  show ?thesis
  proof (cases "jget (memo m) ?k")
    case None
    then have n: "jget (memo (m\<lparr>searches := Suc (searches m)\<rparr>)) ?k = None" by simp
    show ?thesis
    proof (cases "search_from H oid (typePrefix type) 0")
      case None
      then show ?thesis using Some n frame by (simp add: micromine_def mine_def)
    next
      case s: (Some nx)
      obtain a b where nx: "nx = (a, b)" by (cases nx)
      show ?thesis
        using Some n s memo_ok_remember[OF frame(2) s n]
        unfolding nx by (simp add: micromine_def mine_def Let_def step_simps)
    qed
  next
    case k: (Some nx)
    then have "search_from H oid (typePrefix type) 0 = Some nx" using assms unfolding memo_ok_def by blast
    then show ?thesis using Some k frame by (cases nx) (simp add: micromine_def mine_def)
  qed
qed

lemma mine_verifies:
  assumes "mine H data type = Inr r"
  shows "oidOf H data = Some (moid r) \<and> mkey r = mxid r @ ''_'' @ show_nat (mnonce r) \<and>
    mxid r = xid_at H (moid r) (mnonce r) \<and> starts_with (mxid r) (typePrefix type) \<and>
    verifyMicromine H data (JInt (int (mnonce r))) (mxid r) type = Some True \<and>
    (\<forall>j < mnonce r. \<not> starts_with (xid_at H (moid r) j) (typePrefix type))"
proof -
  obtain oid n x where o: "oidOf H data = Some oid" "search_from H oid (typePrefix type) 0 = Some (n, x)" "r = mined_of oid n x"
    using assms by (auto simp: mine_def split: option.splits)
  note s = search_sound[OF o(2)]
  have "verifyMicromine H data (JInt (int n)) x type = Some True"
    using o(1) s by (auto simp: verifyMicromine_def xid_at_def show_int_def)
  then show ?thesis using o(1) s unfolding o(3) mined_of_def by auto
qed

text \<open>A stream of mining requests, and the miner it leaves.\<close>

fun mine_all :: "(string \<Rightarrow> string) \<Rightarrow> (jsval \<times> nat) list \<Rightarrow> miner \<Rightarrow> (mine_error + mined) list \<times> miner" where
  "mine_all H [] m = ([], m)"
| "mine_all H ((d, t) # rs) m =
     (let (r, m1) = micromine H d t m; (out, m2) = mine_all H rs m1 in (r # out, m2))"

lemma mine_all_correct:
  "memo_ok H m \<Longrightarrow> fst (mine_all H rs m) = map (\<lambda>(d, t). mine H d t) rs \<and> memo_ok H (snd (mine_all H rs m))
     \<and> memo_max (snd (mine_all H rs m)) = memo_max m"
proof (induction rs arbitrary: m)
  case (Cons q rs)
  obtain d t where q: "q = (d, t)" by (cases q)
  note c = micromine_correct[OF Cons.prems, of d t]
  note i = Cons.IH[of "snd (micromine H d t m)"]
  show ?case using c i q
    by (cases "micromine H d t m"; cases "mine_all H rs (snd (micromine H d t m))") auto
qed simp

section \<open>Properties\<close>

text \<open>Whatever was mined before, every answer of \<open>micromine\<close> is the one a direct search gives, and
  the memo never holds more than its maximum.\<close>

lemma micromine_memo_transparent:
  "fst (mine_all H rs (miner0 mx)) = map (\<lambda>(d, t). mine H d t) rs \<and>
   length (memo (snd (mine_all H rs (miner0 mx)))) \<le> mx"
  using mine_all_correct[OF memo_ok_miner0, of H rs mx] by (auto simp: memo_ok_def miner0_def)

lemma mine_limit: "mine H data type = Inr r \<Longrightarrow> mnonce r \<le> nonce_limit"
  using search_sound by (fastforce simp: mine_def mined_of_def split: option.splits)

lemma mine_fails:
  assumes "mine H data type = Inl e"
  shows "case e of UnserializableData \<Rightarrow> \<not> no_big data
    | NoNonce t \<Rightarrow> t = type \<and> (\<exists>oid. oidOf H data = Some oid \<and>
        \<not> (\<exists>j \<le> nonce_limit. starts_with (xid_at H oid j) (typePrefix type)))"
proof (cases "oidOf H data")
  case None
  then have "\<not> no_big data"
    using json_stringify_total[of "JObj [(''data'', data)]"] by (auto simp: oidOf_def)
  then show ?thesis using None assms by (simp add: mine_def)
next
  case (Some oid)
  then show ?thesis using assms search_complete[of 0 _ H oid "typePrefix type"]
    by (auto simp: mine_def split: option.splits)
qed

text \<open>C14: Whatever a miner mined before and whatever its memo holds, \<open>micromine\<close> answers with the object id of
  the data it was given, the key made of that answer's xid and nonce, the xid that nonce hashes to, and
  the smallest nonce whose hash has the type's prefix; xid and nonce pass \<open>verifyMicromine\<close> for those data.
  It fails only when the data has no JSON text or no nonce up to the limit fits, and names which.\<close>

theorem micromine_least_and_verifies:
  "case fst (micromine H data type (snd (mine_all H rs (miner0 mx)))) of
     Inr r \<Rightarrow> oidOf H data = Some (moid r) \<and> mkey r = mxid r @ ''_'' @ show_nat (mnonce r) \<and>
       mxid r = xid_at H (moid r) (mnonce r) \<and> starts_with (mxid r) (typePrefix type) \<and>
       mnonce r \<le> nonce_limit \<and> \<not> (\<exists>j < mnonce r. starts_with (xid_at H (moid r) j) (typePrefix type)) \<and>
       verifyMicromine H data (JInt (int (mnonce r))) (mxid r) type = Some True
   | Inl UnserializableData \<Rightarrow> \<not> no_big data
   | Inl (NoNonce t) \<Rightarrow> t = type \<and> (\<exists>oid. oidOf H data = Some oid \<and>
       \<not> (\<exists>j \<le> nonce_limit. starts_with (xid_at H oid j) (typePrefix type)))"
proof -
  have m: "fst (micromine H data type (snd (mine_all H rs (miner0 mx)))) = mine H data type"
    using micromine_correct mine_all_correct[OF memo_ok_miner0, of H rs mx] by blast
  show ?thesis
  proof (cases "mine H data type")
    case (Inl e)
    then show ?thesis using mine_fails[OF Inl] unfolding m by (cases e) auto
  next
    case (Inr r)
    then show ?thesis using mine_verifies[OF Inr] mine_limit[OF Inr] unfolding m by auto
  qed
qed

lemma digit_text: "0 \<le> i \<Longrightarrow> js_string (JInt i) = show_nat (nat i)"
  by (simp add: show_int_def)

text \<open>A verified key content-addresses its datum: two data that verify under one xid, at whatever
  nonces, have the same nonce and the same JSON text, unless the four hashed texts collide.\<close>

lemma xid_commits_to_content:
  assumes "digest H"
    "verifyMicromine H d (JInt n) xid type = Some True" "verifyMicromine H d' (JInt n') xid type' = Some True"
    "json_stringify (JObj [(''data'', d)]) = Some s" "json_stringify (JObj [(''data'', d')]) = Some s'"
    "inj_on H {s, s', sha256hex H s @ show_int n, sha256hex H s' @ show_int n'}"
  shows "n = n' \<and> s = s'"
proof -
  have "hex_of (H (sha256hex H s @ show_int n)) = hex_of (H (sha256hex H s' @ show_int n'))"
    using assms(2-5) by (auto simp: verifyMicromine_def oidOf_def sha256hex_def)
  then have "sha256hex H s @ show_int n = sha256hex H s' @ show_int n'"
    using inj_onD[OF assms(6), of "sha256hex H s @ show_int n" "sha256hex H s' @ show_int n'"] by (simp add: hex_of_inj)
  moreover have "length (sha256hex H s) = length (sha256hex H s')"
    using assms(1) by (simp add: sha256hex_def digest_def)
  ultimately have "sha256hex H s = sha256hex H s' \<and> show_int n = show_int n'"
    using append_eq_append_conv by blast
  then show ?thesis using inj_onD[OF assms(6), of s s'] by (simp add: sha256hex_def hex_of_inj show_int_inj)
qed

text \<open>A digest whose first byte is fixed, so that the first nonce fits, for concrete inputs.\<close>

definition lead :: "nat \<Rightarrow> string \<Rightarrow> string" where
  "lead n s = char_of n # take 31 (s @ replicate 31 CHR ''0'')"

lemma digest_lead: "digest (lead n)"
  by unfold_locales (simp add: lead_def)

lemma lead_fits: "n < 10 \<Longrightarrow> starts_with (sha256hex (lead n) s) (typePrefix n)"
  by (simp add: starts_with_def typePrefix_def sha256hex_def lead_def hex_of_def show_nat.simps hex_char_def)

lemma mine_lead:
  assumes "n < 10" "oidOf (lead n) data = Some oid"
  shows "mine (lead n) data n = Inr (mined_of oid 0 (xid_at (lead n) oid 0))"
  using assms lead_fits[OF assms(1)] by (simp add: mine_def search_from.simps[of _ _ _ 0] xid_at_def)

definition sample_xid :: string where
  "sample_xid = sha256hex (lead 6) (sha256hex (lead 6) ''{\"data\":\"a\"}'' @ ''0'')"

lemma sample_oid: "json_stringify (JObj [(''data'', JStr ''a'')]) = Some ''{\"data\":\"a\"}''"
  by code_simp

lemma sample_verifies: "verifyMicromine (lead 6) (JStr ''a'') (JInt 0) sample_xid 6 = Some True"
  by code_simp

lemma xid_commits_to_content_witness: "(0 :: int) = 0 \<and> ''{\"data\":\"a\"}'' = ''{\"data\":\"a\"}''"
  by (rule xid_commits_to_content[OF digest_lead[of 6] sample_verifies sample_verifies sample_oid sample_oid]) code_simp

end
