(* ===== verification/TransactionValidator.thy ===== *)
theory TransactionValidator
  imports Micromine
begin

text \<open>
  \<open>transaction-validator.js\<close> with the tables it reads (\<open>tokens.json\<close>, \<open>app-types.json\<close>): the
  transaction types, the canonical body an xid mines, the two validation stages (shape, then xid)
  and the writes a state_diff may make. Shown: a mined transaction validates, the envelope a
  signer or the network adds never changes the body, and a state_diff that is no contract receipt
  writes datums under their own mined keys and nothing else.

  An error keeps the constructor of the message the code throws and the tag (\<open>UNTYPED\<close>,
  \<open>XID_MISMATCH\<close>) its callers look at.
\<close>

section \<open>The tables\<close>

record token_type =
  required :: "string list"
  code :: nat
  authority :: string

definition token_types :: "(string \<times> token_type) list" where
  "token_types =
     [(''identity'', \<lparr>required = [''publicKey'', ''signature''], code = 1, authority = ''signed''\<rparr>),
      (''utxo'', \<lparr>required = [''from'', ''to'', ''amount''], code = 2, authority = ''signed''\<rparr>),
      (''token_creation'', \<lparr>required = [''creator'', ''tokenId''], code = 3, authority = ''signed''\<rparr>),
      (''contract'', \<lparr>required = [''contractHash'', ''abi''], code = 4, authority = ''signed''\<rparr>),
      (''state_diff'', \<lparr>required = [''function'', ''args''], code = 5, authority = ''signed''\<rparr>),
      (''anchor'', \<lparr>required = [''event'', ''hash''], code = 7, authority = ''content-addressed''\<rparr>),
      (''tx'', \<lparr>required = [''chain'', ''from'', ''to'', ''amount'', ''unspent'', ''xid'', ''nonce''], code = 6,
         authority = ''content-addressed''\<rparr>)]"

definition app_lexicon :: "string list" where
  "app_lexicon = [''datum'', ''app'', ''component'', ''update'', ''action'', ''event'', ''tx'', ''pointer'', ''trait'', ''type'']"

text \<open>The schema of each typed datum; type 0 has none that is checked.\<close>

definition app_schema :: "(string \<times> string) list list" where
  "app_schema =
     [[],
      [(''datums'', ''array''), (''deploy'', ''array''), (''index'', ''object''), (''config'', ''object''),
       (''scopes'', ''object''), (''stack'', ''array''), (''accounts'', ''object''), (''token'', ''string'')],
      [(''type'', ''string''), (''props'', ''object'')],
      [(''target'', ''string''), (''diffops'', ''array''), (''elements'', ''object'')],
      [(''name'', ''string''), (''inputs'', ''object''), (''commands'', ''array''), (''tests'', ''array''), (''outputs'', ''object'')],
      [(''schedule'', ''object''), (''name'', ''string''), (''actions'', ''array''), (''data'', ''object'')],
      [(''chain'', ''string''), (''from'', ''array''), (''to'', ''array''), (''asset'', ''string''), (''amount'', ''string''),
       (''seq'', ''number''), (''prev'', ''string''), (''unspent'', ''string'')],
      [(''from'', ''array''), (''to'', ''array''), (''how'', ''string'')],
      [(''type'', ''string''), (''updates'', ''array'')],
      [(''name'', ''string''), (''model'', ''object''), (''prefix'', ''string'')]]"

text \<open>A table lookup with a value of any kind as the key; only a known type's own text finds a row.\<close>

definition token_type_of :: "jsval \<Rightarrow> token_type option" where
  "token_type_of v = jget token_types (js_string v)"

definition typeCodeOf :: "jsval \<Rightarrow> nat option" where
  "typeCodeOf v = map_option code (token_type_of v)"

definition authorityOf :: "jsval \<Rightarrow> string" where
  "authorityOf v = (case token_type_of v of Some t \<Rightarrow> authority t | None \<Rightarrow> ''signed'')"

definition contentAddressedTypes :: "string list" where
  "contentAddressedTypes = sort (map fst (filter (\<lambda>(k, t). authority t = ''content-addressed'') token_types))"

definition xid_re :: "string \<Rightarrow> bool" where
  "xid_re s \<longleftrightarrow> length s = 64 \<and> hd s = CHR ''0'' \<and> is_digit (s ! 1) \<and> (\<forall>c \<in> set s. is_hex c)"

definition typeOfXid :: "jsval \<Rightarrow> string option" where
  "typeOfXid v = (case v of
     JStr xid \<Rightarrow> if xid_re xid then map_option fst (find (\<lambda>(k, t). code t = digit_val (xid ! 1)) token_types) else None
   | _ \<Rightarrow> None)"

section \<open>The canonical body\<close>

definition envelope :: "string list" where
  "envelope = [''sig'', ''publicKey'', ''xid'', ''nonce'', ''id'', ''validationTimestamp'', ''validationTimestamps'']"

text \<open>
  Own property order of a fresh object: array indices first, by value, then the rest as inserted.
\<close>

definition is_index :: "string \<Rightarrow> bool" where
  "is_index s \<longleftrightarrow> all_digits s \<and> show_nat (read_nat s) = s \<and> read_nat s < 2 ^ 32 - 1"

definition own_order :: "(string \<times> 'v) list \<Rightarrow> (string \<times> 'v) list" where
  "own_order kvs = sort_key (\<lambda>(k, v). read_nat k) (filter (\<lambda>(k, v). is_index k) kvs) @ filter (\<lambda>(k, v). \<not> is_index k) kvs"

fun canonical :: "jsval \<Rightarrow> jsval" and canonical_list :: "jsval list \<Rightarrow> jsval list"
  and canonical_props :: "(string \<times> jsval) list \<Rightarrow> (string \<times> jsval) list" where
  "canonical (JArr xs) = JArr (canonical_list xs)"
| "canonical (JBig n) = JStr (show_int n)"
| "canonical (JObj kvs) = JObj (own_order (sort_key fst (canonical_props kvs)))"
| "canonical v = v"
| "canonical_list [] = []"
| "canonical_list (v # vs) = canonical v # canonical_list vs"
| "canonical_props [] = []"
| "canonical_props ((k, v) # kvs) =
     (if v = JUndef then canonical_props kvs else (k, canonical v) # canonical_props kvs)"

text \<open>\<open>None\<close>: not an object, and the code throws.\<close>

definition micromineBody :: "jsval \<Rightarrow> jsval option" where
  "micromineBody tx =
     (if \<not> is_object tx then None
      else if getp tx ''type'' = JStr ''tx'' then Some (type6TxBody tx)
      else if getp tx ''type'' = JStr ''anchor'' then
        Some (type7PointerBody (JObj [(''from'', JArr (if truthy (getp tx ''prior'') then [getp tx ''prior''] else [])),
          (''to'', JArr [getp tx ''hash'']), (''how'', JStr ''anchor'')]))
      else Some (canonical (JObj (filter (\<lambda>(k, v). k \<notin> set envelope) (obj_entries tx)))))"

section \<open>Validation\<close>

datatype diff_error =
    ArgsNotObject
  | WritesNothing
  | ReceiptWrite string
  | NotDatumKey string
  | ValueUnit string
  | NotDatumValue string
  | BadShape string
  | ChainPointer string
  | Unminable string mine_error
  | OtherKey string
  | OtherOidOrNonce string

datatype tx_error =
    NotAnObject
  | NoType
  | UnknownType
  | MissingField string
  | NotADigest
  | BadStateDiff diff_error
  | NoTypeCode
  | MineFailed mine_error
  | NoXid
  | BadNonce
  | WrongPrefix
  | NoPrior
  | NotContentAddressed

definition untyped :: "tx_error \<Rightarrow> bool" where
  "untyped e \<longleftrightarrow> e \<in> {NoXid, BadNonce, NoPrior}"

definition xid_mismatch :: "tx_error \<Rightarrow> bool" where
  "xid_mismatch e \<longleftrightarrow> e \<in> {WrongPrefix, NotContentAddressed}"

definition appTypeOf :: "jsval \<Rightarrow> string" where
  "appTypeOf v = (if is_array v then ''array'' else js_typeof v)"

text \<open>True when the data is a datum of the type.\<close>

definition datum_shape_ok :: "jsval \<Rightarrow> nat \<Rightarrow> bool" where
  "datum_shape_ok data type =
     (if \<not> truthy data then False
      else if type = 0 then True
      else if appTypeOf data \<noteq> ''object'' \<or> data = JNull then False
      else (let schema = app_schema ! type; want = sort (jkeys schema); got = sort (jkeys (obj_entries data)) in
        if join '','' got \<noteq> join '','' want then False
        else find (\<lambda>f. Some (appTypeOf (getp data f)) \<noteq> jget schema f) want = None))"

definition datumWrite :: "(string \<Rightarrow> string) \<Rightarrow> jsval \<Rightarrow> nat \<Rightarrow> miner \<Rightarrow> (mine_error + jsval) \<times> miner" where
  "datumWrite H data type m = (case micromine H data type m of
     (Inl e, m') \<Rightarrow> (Inl e, m')
   | (Inr r, m') \<Rightarrow> (Inr (JObj [(mkey r, JObj [(''oid'', JStr (moid r)), (''nonce'', JInt (int (mnonce r))), (''data'', data)])]), m'))"

text \<open>\<open>DATUM_KEY_RE\<close>: the datum's type when the key has the shape of a mined key.\<close>

definition datum_key :: "string \<Rightarrow> nat option" where
  "datum_key k =
     (let x = take 64 k; n = drop 65 k in
      if 66 \<le> length k \<and> xid_re x \<and> k ! 64 = CHR ''_'' \<and> all_digits n \<and> (n = ''0'' \<or> hd n \<noteq> CHR ''0'')
      then Some (digit_val (k ! 1)) else None)"

definition chain_pointer_hows :: "jsval list" where
  "chain_pointer_hows = [JStr ''spend'', JStr ''anchor'']"

definition receipt_args :: "jsval \<Rightarrow> string list" where
  "receipt_args f = (if f = JStr ''settlement_seal'' then [''chain'', ''address'', ''authorization''] else [''params'', ''writes''])"

text \<open>One write of a state_diff: its refusal, or the datum to store.\<close>

definition diff_write :: "(string \<Rightarrow> string) \<Rightarrow> string \<Rightarrow> jsval \<Rightarrow> miner \<Rightarrow> (diff_error + jsval) \<times> miner" where
  "diff_write H k v m =
     (case datum_key k of
        None \<Rightarrow> (Inl (NotDatumKey k), m)
      | Some type \<Rightarrow>
          if type = 6 then (Inl (ValueUnit k), m)
          else if appTypeOf v \<noteq> ''object'' \<or> v = JNull \<or> join '','' (sort (jkeys (obj_entries v))) \<noteq> ''data,nonce,oid''
          then (Inl (NotDatumValue k), m)
          else if \<not> datum_shape_ok (getp v ''data'') type then (Inl (BadShape k), m)
          else if type = 7 \<and> getp (getp v ''data'') ''how'' \<in> set chain_pointer_hows then (Inl (ChainPointer k), m)
          else (case micromine H (getp v ''data'') type m of
              (Inl e, m') \<Rightarrow> (Inl (Unminable k e), m')
            | (Inr r, m') \<Rightarrow>
                if mkey r \<noteq> k then (Inl (OtherKey k), m')
                else if getp v ''oid'' \<noteq> JStr (moid r) \<or> getp v ''nonce'' \<noteq> JInt (int (mnonce r))
                then (Inl (OtherOidOrNonce k), m')
                else (Inr (JObj [(''oid'', JStr (moid r)), (''nonce'', JInt (int (mnonce r))), (''data'', getp v ''data'')]), m')))"

fun diff_writes :: "(string \<Rightarrow> string) \<Rightarrow> (string \<times> jsval) list \<Rightarrow> miner \<Rightarrow> (diff_error + (string \<times> jsval) list) \<times> miner" where
  "diff_writes H [] m = (Inr [], m)"
| "diff_writes H ((k, v) # kvs) m =
     (case diff_write H k v m of
        (Inl e, m') \<Rightarrow> (Inl e, m')
      | (Inr w, m') \<Rightarrow> (case diff_writes H kvs m' of
            (Inl e, m'') \<Rightarrow> (Inl e, m'')
          | (Inr ws, m'') \<Rightarrow> (Inr ((k, w) # ws), m'')))"

definition stateDiffWrites :: "(string \<Rightarrow> string) \<Rightarrow> jsval \<Rightarrow> miner \<Rightarrow> (diff_error + (string \<times> jsval) list) \<times> miner" where
  "stateDiffWrites H tx m =
     (let args = getp tx ''args'' in
      if \<not> is_object args \<or> is_array args then (Inl ArgsNotObject, m)
      else if obj_entries args = [] then (Inl WritesNothing, m)
      else if truthy (getp tx ''contractAddress'') then
        (case find (\<lambda>k. k \<notin> set (receipt_args (getp tx ''function''))) (jkeys (obj_entries args)) of
           Some bad \<Rightarrow> (Inl (ReceiptWrite bad), m)
         | None \<Rightarrow> (Inr (obj_entries args), m))
      else diff_writes H (obj_entries args) m)"

definition validateShape :: "(string \<Rightarrow> string) \<Rightarrow> jsval \<Rightarrow> miner \<Rightarrow> (tx_error + bool) \<times> miner" where
  "validateShape H tx m =
     (if \<not> is_object tx then (Inl NotAnObject, m)
      else if \<not> truthy (getp tx ''type'') then (Inl NoType, m)
      else (case token_type_of (getp tx ''type'') of
          None \<Rightarrow> (Inl UnknownType, m)
        | Some t \<Rightarrow>
            (case find (\<lambda>f. \<not> has_prop tx f) (required t) of
               Some f \<Rightarrow> (Inl (MissingField f), m)
             | None \<Rightarrow>
                 if getp tx ''type'' = JStr ''anchor'' \<and> \<not> hex64 (js_string (getp tx ''hash'')) then (Inl NotADigest, m)
                 else if getp tx ''type'' = JStr ''state_diff'' then
                   (case stateDiffWrites H tx m of
                      (Inl e, m') \<Rightarrow> (Inl (BadStateDiff e), m')
                    | (Inr w, m') \<Rightarrow> (Inr True, m'))
                 else (Inr True, m))))"

definition validateXid :: "(string \<Rightarrow> string) \<Rightarrow> jsval \<Rightarrow> tx_error + bool" where
  "validateXid H tx =
     (if \<not> is_object tx \<or> \<not> truthy (getp tx ''type'') then Inl NotAnObject
      else (case getp tx ''xid'' of
          JStr xid \<Rightarrow>
            if \<not> xid_re xid then Inl NoXid
            else (case getp tx ''nonce'' of
                JInt n \<Rightarrow>
                  if n < 0 then Inl BadNonce
                  else (case typeCodeOf (getp tx ''type'') of
                      None \<Rightarrow> Inl NoTypeCode
                    | Some c \<Rightarrow>
                        if \<not> starts_with xid (typePrefix c) then Inl WrongPrefix
                        else if getp tx ''type'' = JStr ''anchor'' \<and> \<not> is_string (getp tx ''prior'') then Inl NoPrior
                        else (case Option.bind (micromineBody tx) (\<lambda>b. verifyMicromine H b (JInt n) xid c) of
                            None \<Rightarrow> Inl (MineFailed UnserializableData)
                          | Some False \<Rightarrow> Inl NotContentAddressed
                          | Some True \<Rightarrow> Inr True))
              | _ \<Rightarrow> Inl BadNonce)
        | _ \<Rightarrow> Inl NoXid))"

definition validateTransaction :: "(string \<Rightarrow> string) \<Rightarrow> jsval \<Rightarrow> miner \<Rightarrow> (tx_error + bool) \<times> miner" where
  "validateTransaction H tx m = (case validateShape H tx m of
     (Inl e, m') \<Rightarrow> (Inl e, m')
   | (Inr b, m') \<Rightarrow> (validateXid H tx, m'))"

definition getTransactionType :: "jsval \<Rightarrow> token_type option" where
  "getTransactionType tx = (if \<not> truthy tx \<or> \<not> truthy (getp tx ''type'') then None else token_type_of (getp tx ''type''))"

text \<open>\<open>{ ...t, k: v }\<close>: a present property keeps its place.\<close>

fun set_prop :: "jsval \<Rightarrow> string \<Rightarrow> jsval \<Rightarrow> jsval" where
  "set_prop (JObj kvs) k v = JObj (jset kvs k v)"
| "set_prop _ k v = JObj [(k, v)]"

definition micromineTx :: "(string \<Rightarrow> string) \<Rightarrow> jsval \<Rightarrow> miner \<Rightarrow> (tx_error + jsval) \<times> miner" where
  "micromineTx H tx m =
     (if \<not> is_object tx \<or> \<not> truthy (getp tx ''type'') then (Inl NotAnObject, m)
      else (let t = (if getp tx ''type'' = JStr ''anchor'' \<and> getp tx ''prior'' = JUndef then set_prop tx ''prior'' (JStr []) else tx) in
        case typeCodeOf (getp t ''type'') of
          None \<Rightarrow> (Inl NoTypeCode, m)
        | Some c \<Rightarrow>
            (case micromineBody t of
               None \<Rightarrow> (Inl NotAnObject, m)
             | Some b \<Rightarrow>
                 (case micromine H b c m of
                    (Inl e, m') \<Rightarrow> (Inl (MineFailed e), m')
                  | (Inr r, m') \<Rightarrow> (Inr (set_prop (set_prop t ''xid'' (JStr (mxid r))) ''nonce'' (JInt (int (mnonce r)))), m')))))"

section \<open>The body and its envelope\<close>

lemma canonical_props_map: "canonical_props kvs = map (\<lambda>(k, v). (k, canonical v)) (filter (\<lambda>(k, v). v \<noteq> JUndef) kvs)"
  by (induction kvs) auto

lemma canonical_perm:
  assumes "mset kvs = mset kvs'" "distinct (jkeys kvs)"
  shows "canonical (JObj kvs) = canonical (JObj kvs')"
proof -
  have m: "mset (canonical_props kvs) = mset (canonical_props kvs')"
    using assms(1) by (simp add: canonical_props_map mset_map)
  have "map fst (canonical_props kvs) = jkeys (filter (\<lambda>(k, v). v \<noteq> JUndef) kvs)"
    by (induction kvs) auto
  then have "distinct (map fst (canonical_props kvs))" using assms(2) by (simp add: distinct_map_filter)
  then have "sort_key fst (canonical_props kvs) = sort_key fst (canonical_props kvs')"
    using m by (rule sort_key_perm)
  then show ?thesis by simp
qed

lemma filter_jset: "\<not> P k \<Longrightarrow> filter (\<lambda>(k, v). P k) (jset kvs k v) = filter (\<lambda>(k, v). P k) kvs"
  by (induction kvs) auto

lemma getp_set_prop [simp]: "getp (set_prop (JObj kvs) k v) j = (if j = k then v else getp (JObj kvs) j)"
  by (simp add: jget_jset)

lemma body_set_prop:
  assumes "k \<in> set envelope"
  shows "micromineBody (set_prop (JObj kvs) k v) = micromineBody (JObj kvs)"
proof -
  have "k \<noteq> ''type''" "k \<noteq> ''prior''" "k \<noteq> ''hash''" "k \<noteq> ''chain''" "k \<noteq> ''from''" "k \<noteq> ''to''" "k \<noteq> ''asset''"
    "k \<noteq> ''amount''" "k \<noteq> ''seq''" "k \<noteq> ''prev''" "k \<noteq> ''unspent''"
    using assms by (auto simp: envelope_def)
  then show ?thesis
    using assms by (simp add: micromineBody_def type6TxBody_def jget_jset filter_jset)
qed

lemma object_cases: "is_object tx \<Longrightarrow> truthy (getp tx k) \<Longrightarrow> \<exists>kvs. tx = JObj kvs"
  by (cases tx) auto

lemma set_prop_object [simp]: "is_object (set_prop tx k v)"
  by (cases tx) auto

lemma typeCode_le: "typeCodeOf v = Some c \<Longrightarrow> c \<le> 7"
  by (auto simp: typeCodeOf_def token_type_of_def token_types_def split: if_splits)

lemma show_nat_digit: "n < 10 \<Longrightarrow> show_nat n = [char_of (48 + n)]"
  by (simp add: show_nat.simps)

lemma xid_re_mined:
  assumes "digest H" "c < 10" "xid = xid_at H oid n" "starts_with xid (typePrefix c)"
  shows "xid_re xid"
proof -
  have h: "length xid = 64" "\<forall>c \<in> set xid. is_hex c"
    using hex_of_hex[of "H (oid @ show_nat n)"] assms(1,3) by (auto simp: xid_at_def sha256hex_def digest_def)
  obtain a b r where x: "xid = a # b # r" using h(1) by (auto simp: length_Suc_conv numeral_eq_Suc)
  have "a = CHR ''0''" "b = char_of (48 + c)"
    using assms(2,4) by (simp_all add: starts_with_def typePrefix_def show_nat_digit x)
  then show ?thesis using h is_digit_char[OF assms(2)] by (simp add: xid_re_def x)
qed

section \<open>The writes of a state_diff\<close>

text \<open>A stored write is the datum its key is mined from.\<close>

definition mined_write :: "(string \<Rightarrow> string) \<Rightarrow> string \<times> jsval \<Rightarrow> bool" where
  "mined_write H kw \<longleftrightarrow> (\<exists>type data r. mine H data type = Inr r \<and> fst kw = mkey r \<and> type < 10 \<and> type \<noteq> 6 \<and>
     datum_shape_ok data type \<and> (type = 7 \<longrightarrow> getp data ''how'' \<notin> {JStr ''spend'', JStr ''anchor''}) \<and>
     snd kw = JObj [(''oid'', JStr (moid r)), (''nonce'', JInt (int (mnonce r))), (''data'', data)])"

lemma datum_key_bound:
  assumes "datum_key k = Some type"
  shows "type < 10 \<and> xid_re (take 64 k)"
proof -
  have "66 \<le> length k" "xid_re (take 64 k)" "type = digit_val (k ! 1)"
    using assms by (auto simp: datum_key_def Let_def split: if_splits)
  moreover then have "is_digit (k ! 1)" by (simp add: xid_re_def)
  ultimately show ?thesis by (auto simp: is_digit_def digit_val_def)
qed

lemma diff_write_mined:
  assumes "memo_ok H m" "diff_write H k v m = (Inr w, m')"
  shows "mined_write H (k, w) \<and> memo_ok H m'"
proof -
  obtain type where ty: "datum_key k = Some type" "type \<noteq> 6" "datum_shape_ok (getp v ''data'') type"
    "type = 7 \<longrightarrow> getp (getp v ''data'') ''how'' \<notin> set chain_pointer_hows"
    using assms(2) by (auto simp: diff_write_def split: option.splits if_splits)
  obtain r where r: "micromine H (getp v ''data'') type m = (Inr r, m')" "mkey r = k"
    "w = JObj [(''oid'', JStr (moid r)), (''nonce'', JInt (int (mnonce r))), (''data'', getp v ''data'')]"
    using assms(2) ty(1) by (auto simp: diff_write_def split: if_splits prod.splits sum.splits)
  have "mine H (getp v ''data'') type = Inr r" "memo_ok H m'"
    using micromine_correct[OF assms(1), of "getp v ''data''" type] r(1) by auto
  then show ?thesis
    using ty r(2,3) datum_key_bound[OF ty(1)] unfolding mined_write_def chain_pointer_hows_def by auto
qed

lemma diff_writes_mined:
  "memo_ok H m \<Longrightarrow> diff_writes H kvs m = (Inr ws, m') \<Longrightarrow> list_all (mined_write H) ws \<and> jkeys ws = jkeys kvs"
proof (induction kvs arbitrary: m ws)
  case Nil
  then show ?case by simp
next
  case (Cons p kvs)
  obtain k v where p: "p = (k, v)" by (cases p)
  obtain w m1 ws' where w: "diff_write H k v m = (Inr w, m1)" "diff_writes H kvs m1 = (Inr ws', m')" "ws = (k, w) # ws'"
    using Cons.prems(2) p by (auto split: prod.splits sum.splits)
  then show ?case using Cons.IH[OF _ w(2)] diff_write_mined[OF Cons.prems(1) w(1)] p by simp
qed

lemma micromineTx_validates:
  assumes "digest H" "memo_ok H m" "micromineTx H tx m = (Inr t, m')"
    "getp tx ''type'' = JStr ''anchor'' \<longrightarrow> getp tx ''prior'' = JUndef \<or> is_string (getp tx ''prior'')"
  shows "validateXid H t = Inr True"
proof -
  have o: "is_object tx" "truthy (getp tx ''type'')" using assms(3) by (auto simp: micromineTx_def split: if_splits)
  then obtain kvs0 where kvs0: "tx = JObj kvs0" using object_cases by blast
  define t0 where "t0 = (if getp tx ''type'' = JStr ''anchor'' \<and> getp tx ''prior'' = JUndef then set_prop tx ''prior'' (JStr []) else tx)"
  have "\<exists>kvs. t0 = JObj kvs" unfolding t0_def kvs0 by simp
  then obtain kvs where kvs: "t0 = JObj kvs" by blast
  have ty: "getp t0 ''type'' = getp tx ''type''" and pr: "getp tx ''type'' = JStr ''anchor'' \<longrightarrow> is_string (getp t0 ''prior'')"
    using assms(4) unfolding t0_def kvs0 by (auto simp: jget_jset)
  obtain c b r where c: "typeCodeOf (getp tx ''type'') = Some c" "micromineBody t0 = Some b" "micromine H b c m = (Inr r, m')"
    "t = set_prop (set_prop t0 ''xid'' (JStr (mxid r))) ''nonce'' (JInt (int (mnonce r)))"
    using assms(3) o ty unfolding micromineTx_def t0_def[symmetric]
    by (auto simp: Let_def split: option.splits prod.splits sum.splits)
  have "mine H b c = Inr r" using micromine_correct[OF assms(2), of b c] c(3) by simp
  note mv = mine_verifies[OF this]
  have body: "micromineBody t = Some b"
    unfolding c(4) kvs using body_set_prop[of "''xid''"] body_set_prop[of "''nonce''"] c(2)[unfolded kvs]
    by (simp add: envelope_def)
  have g: "getp t ''xid'' = JStr (mxid r)" "getp t ''nonce'' = JInt (int (mnonce r))" "getp t ''type'' = getp tx ''type''"
    "getp t ''prior'' = getp t0 ''prior''" "is_object t"
    unfolding ty[symmetric] c(4) kvs by (simp_all add: jget_jset)
  have "xid_re (mxid r)" by (rule xid_re_mined[OF assms(1), of c _ "moid r" "mnonce r"]) (use mv typeCode_le[OF c(1)] in auto)
  then show ?thesis
    using g o(2) c(1) body mv[THEN conjunct2, THEN conjunct2, THEN conjunct2] pr by (simp add: validateXid_def)
qed

lemma validateXid_envelope:
  assumes "k \<in> {''sig'', ''publicKey'', ''id'', ''validationTimestamp'', ''validationTimestamps''}"
  shows "validateXid H (set_prop (JObj kvs) k v) = validateXid H (JObj kvs)"
proof -
  have "micromineBody (set_prop (JObj kvs) k v) = micromineBody (JObj kvs)"
    by (rule body_set_prop) (use assms in \<open>auto simp: envelope_def\<close>)
  moreover have "getp (set_prop (JObj kvs) k v) ''type'' = getp (JObj kvs) ''type''"
    "getp (set_prop (JObj kvs) k v) ''xid'' = getp (JObj kvs) ''xid''"
    "getp (set_prop (JObj kvs) k v) ''nonce'' = getp (JObj kvs) ''nonce''"
    "getp (set_prop (JObj kvs) k v) ''prior'' = getp (JObj kvs) ''prior''"
    using assms by (auto simp: jget_jset)
  moreover have "is_object (set_prop (JObj kvs) k v) = is_object (JObj kvs)" by simp
  ultimately show ?thesis unfolding validateXid_def by (simp only:)
qed

section \<open>Properties\<close>

text \<open>C11: A transaction \<open>micromineTx\<close> returns passes \<open>validateXid\<close>: its xid has the type's prefix and
  content-addresses its body at its nonce (for an anchor, when a given \<open>prior\<close> is text).\<close>

theorem mined_tx_validates:
  assumes "digest H" "memo_ok H m" "micromineTx H tx m = (Inr t, m')"
    "getp tx ''type'' = JStr ''anchor'' \<longrightarrow> getp tx ''prior'' = JUndef \<or> is_string (getp tx ''prior'')"
  shows "validateXid H t = Inr True"
  by (rule micromineTx_validates[OF assms])

definition sample_tx :: jsval where
  "sample_tx = JObj [(''type'', JStr ''tx''), (''chain'', JStr ''xmbl''), (''from'', JArr []), (''to'', JArr [JStr ''bob'']),
     (''asset'', JStr ''XMBL''), (''amount'', JStr ''1''), (''seq'', JInt 0), (''prev'', JStr []), (''unspent'', JStr ''1'')]"

lemma micromineTx_sample: "\<exists>x n m'. micromineTx (lead 6) sample_tx (miner0 8)
    = (Inr (set_prop (set_prop sample_tx ''xid'' (JStr x)) ''nonce'' (JInt n)), m')"
proof -
  have b: "micromineBody sample_tx = Some (type6TxBody sample_tx)" by (simp add: micromineBody_def sample_tx_def)
  have "typeCodeOf (getp sample_tx ''type'') = Some 6" by code_simp
  moreover have "no_big (JObj [(''data'', type6TxBody sample_tx)])" by (simp add: type6TxBody_def sample_tx_def)
  then obtain oid where "oidOf (lead 6) (type6TxBody sample_tx) = Some oid"
    using json_stringify_total[of "JObj [(''data'', type6TxBody sample_tx)]"] by (auto simp: oidOf_def)
  then have "fst (micromine (lead 6) (type6TxBody sample_tx) 6 (miner0 8)) = Inr (mined_of oid 0 (xid_at (lead 6) oid 0))"
    using micromine_correct[OF memo_ok_miner0] mine_lead[of 6] by simp
  then obtain r m' where "micromine (lead 6) (type6TxBody sample_tx) 6 (miner0 8) = (Inr r, m')"
    by (cases "micromine (lead 6) (type6TxBody sample_tx) 6 (miner0 8)") auto
  moreover have "is_object sample_tx" "truthy (getp sample_tx ''type'')" "getp sample_tx ''type'' \<noteq> JStr ''anchor''"
    by (simp_all add: sample_tx_def)
  ultimately show ?thesis using b by (auto simp: micromineTx_def)
qed

lemma mined_tx_validates_witness:
  "\<exists>t m'. micromineTx (lead 6) sample_tx (miner0 8) = (Inr t, m') \<and> validateXid (lead 6) t = Inr True"
proof -
  obtain t m' where m: "micromineTx (lead 6) sample_tx (miner0 8) = (Inr t, m')" using micromineTx_sample by auto
  have "validateXid (lead 6) t = Inr True"
    by (rule mined_tx_validates[OF digest_lead memo_ok_miner0 m]) (simp add: sample_tx_def)
  then show ?thesis using m by blast
qed

text \<open>What a signer or the network writes around a datum after mining (signature, public key, block id,
  validation timestamps) never changes its xid validation.\<close>

lemma envelope_never_changes_validation:
  assumes "k \<in> {''sig'', ''publicKey'', ''id'', ''validationTimestamp'', ''validationTimestamps''}"
  shows "validateXid H (set_prop (JObj kvs) k v) = validateXid H (JObj kvs)"
  by (rule validateXid_envelope[OF assms])

lemma envelope_never_changes_validation_witness:
  "validateXid (lead 6) (set_prop (JObj [(''type'', JStr ''tx'')]) ''sig'' (JStr ''ff'')) = validateXid (lead 6) (JObj [(''type'', JStr ''tx'')])"
  by (rule envelope_never_changes_validation) simp

text \<open>The body a signed-type transaction mines does not depend on the order its fields arrived in.\<close>

lemma body_order_independent:
  assumes "mset kvs = mset kvs'" "distinct (jkeys kvs)" "jget kvs ''type'' = Some (JStr ty)" "ty \<notin> {''tx'', ''anchor''}"
  shows "micromineBody (JObj kvs) = micromineBody (JObj kvs')"
proof -
  let ?f = "filter (\<lambda>(k, v). k \<notin> set envelope)"
  have d: "distinct (jkeys kvs')" by (metis assms(1,2) mset_eq_imp_distinct_iff mset_map)
  have "jget kvs' ''type'' = Some (JStr ty)"
    using assms(1-3) d by (metis map_of_eq_Some_iff mset_eq_setD)
  moreover have "canonical (JObj (?f kvs)) = canonical (JObj (?f kvs'))"
    by (rule canonical_perm) (use assms(1,2) in \<open>simp_all add: distinct_map_filter\<close>)
  ultimately show ?thesis using assms(3,4) by (simp add: micromineBody_def)
qed

lemma body_order_independent_witness:
  "micromineBody (JObj [(''type'', JStr ''utxo''), (''from'', JStr ''a''), (''to'', JStr ''b'')])
   = micromineBody (JObj [(''to'', JStr ''b''), (''type'', JStr ''utxo''), (''from'', JStr ''a'')])"
  by (rule body_order_independent[where ty = "''utxo''"]) simp_all

text \<open>C7: A state_diff that is no contract receipt and is admitted writes only datums under the key their own
  data mines to, at the lowest nonce, never a value unit and never a spend or anchor pointer; and it
  writes every key it names.\<close>

theorem state_diff_writes_only_mined_datums:
  assumes "memo_ok H m" "\<not> truthy (getp tx ''contractAddress'')" "stateDiffWrites H tx m = (Inr changes, m')"
  shows "list_all (mined_write H) changes \<and> jkeys changes = jkeys (obj_entries (getp tx ''args'')) \<and> changes \<noteq> []"
proof -
  have d: "diff_writes H (obj_entries (getp tx ''args'')) m = (Inr changes, m')" "obj_entries (getp tx ''args'') \<noteq> []"
    using assms(2,3) by (auto simp: stateDiffWrites_def Let_def split: if_splits)
  note w = diff_writes_mined[OF assms(1) d(1)]
  then have "changes \<noteq> []" using d(2) by (metis list.map_disc_iff)
  then show ?thesis using w by simp
qed

definition sample_datum_key :: string where
  "sample_datum_key = xid_at (lead 0) (sha256hex (lead 0) ''{\"data\":\"a\"}'') 0 @ ''_0''"

definition sample_diff :: jsval where
  "sample_diff = JObj [(''type'', JStr ''state_diff''), (''function'', JStr ''write''), (''args'', JObj [(sample_datum_key,
     JObj [(''oid'', JStr (sha256hex (lead 0) ''{\"data\":\"a\"}'')), (''nonce'', JInt 0), (''data'', JStr ''a'')])])]"

lemma sample_datum_key_type: "datum_key sample_datum_key = Some 0"
  by code_simp

lemma sample_diff_admitted: "\<exists>changes m'. stateDiffWrites (lead 0) sample_diff (miner0 8) = (Inr changes, m')"
proof -
  let ?oid = "sha256hex (lead 0) ''{\"data\":\"a\"}''"
  have "oidOf (lead 0) (JStr ''a'') = Some ?oid" by (simp only: oidOf_def sample_oid option.map)
  then have "fst (micromine (lead 0) (JStr ''a'') 0 (miner0 8)) = Inr (mined_of ?oid 0 (xid_at (lead 0) ?oid 0))"
    using micromine_correct[OF memo_ok_miner0] mine_lead[of 0] by simp
  then obtain m' where "micromine (lead 0) (JStr ''a'') 0 (miner0 8) = (Inr (mined_of ?oid 0 (xid_at (lead 0) ?oid 0)), m')"
    by (cases "micromine (lead 0) (JStr ''a'') 0 (miner0 8)") auto
  moreover have "join '','' (sort [''oid'', ''nonce'', ''data'']) = ''data,nonce,oid''" by code_simp
  moreover have "mkey (mined_of ?oid 0 (xid_at (lead 0) ?oid 0)) = sample_datum_key"
    by (simp add: mined_of_def sample_datum_key_def show_nat.simps)
  ultimately show ?thesis
    by (simp add: stateDiffWrites_def sample_diff_def diff_write_def sample_datum_key_type appTypeOf_def datum_shape_ok_def mined_of_def)
qed

lemma state_diff_writes_only_mined_datums_witness:
  "\<exists>changes m'. stateDiffWrites (lead 0) sample_diff (miner0 8) = (Inr changes, m') \<and>
    list_all (mined_write (lead 0)) changes \<and> jkeys changes = jkeys (obj_entries (getp sample_diff ''args'')) \<and> changes \<noteq> []"
proof -
  obtain changes m' where w: "stateDiffWrites (lead 0) sample_diff (miner0 8) = (Inr changes, m')"
    using sample_diff_admitted by auto
  have "\<not> truthy (getp sample_diff ''contractAddress'')" by (simp add: sample_diff_def)
  note state_diff_writes_only_mined_datums[OF memo_ok_miner0 this w]
  then show ?thesis using w by blast
qed

end
