(* ===== verification/StateMachine.thy ===== *)
theory StateMachine
  imports VerkleProof TransactionValidator
begin

text \<open>
  \<open>state-machine.js\<close>, \<open>state-diff.js\<close>, \<open>state-assembly.js\<close> and \<open>sharding.js\<close>: the machine that
  applies ledger blocks to the Verkle tree and remembers one diff for each content identity, in
  memory (\<open>diffs\<close> with the index over it) and on disk (the \<open>diff:\<close> rows).

  \<open>sm_rows = None\<close> is a closed database. A row is kept under the key without its \<open>diff:\<close> prefix
  and holds the value its JSON text parses back to. Transaction ids are primitives, so a Map keyed
  by them is an association list. \<open>coll\<close> is the collation key by which \<open>localeCompare\<close> orders
  text, and \<open>now\<close> the clock reading of a new diff.
\<close>

section \<open>A state diff\<close>

record sdiff =
  d_tx :: jsval
  d_stamp :: jsval
  d_changes :: "(string, jsval) jmap"

definition new_diff :: "jsval \<Rightarrow> (string, jsval) jmap \<Rightarrow> int \<Rightarrow> sdiff" where
  "new_diff tx changes now = \<lparr>d_tx = tx, d_stamp = JInt now, d_changes = changes\<rparr>"

definition diff_identity :: "sdiff \<Rightarrow> jsval" where
  "diff_identity d = (let keys = jkeys (d_changes d) in if length keys = 1 then JStr (hd keys) else d_tx d)"

definition diff_apply :: "sdiff \<Rightarrow> (string, jsval) jmap \<Rightarrow> (string, jsval) jmap" where
  "diff_apply d state = fold (\<lambda>(k, v) s. jset s k v) (d_changes d) state"

definition diff_merge :: "sdiff list \<Rightarrow> int \<Rightarrow> sdiff" where
  "diff_merge ds now = new_diff (JStr ''merged'') (fold diff_apply ds []) now"

text \<open>The row a diff is written as; \<open>None\<close> when it has no JSON text and nothing is written.\<close>

definition diff_serialize :: "sdiff \<Rightarrow> jsval option" where
  "diff_serialize d =
     (let v = JObj [(''txId'', d_tx d), (''timestamp'', d_stamp d), (''changes'', JObj (d_changes d))]
      in map_option (\<lambda>_. json_norm v) (json_stringify v))"

definition diff_of_row :: "jsval \<Rightarrow> sdiff" where
  "diff_of_row row = \<lparr>d_tx = getp row ''txId'', d_stamp = getp row ''timestamp'', d_changes = obj_entries (getp row ''changes'')\<rparr>"

definition diff_deserialize :: "jsval \<Rightarrow> int \<Rightarrow> sdiff" where
  "diff_deserialize row now = new_diff (getp row ''txId'') (obj_entries (getp row ''changes'')) now"

definition millis :: "jsval \<Rightarrow> int" where
  "millis v = (case v of JInt n \<Rightarrow> n | _ \<Rightarrow> 0)"

section \<open>Assembly and shards\<close>

text \<open>\<open>assemble\<close> sorts the array it is given in place: the second component is that array after it.\<close>

definition sm_assemble :: "(string, jsval) jmap \<Rightarrow> sdiff list \<Rightarrow> (string, jsval) jmap \<times> sdiff list" where
  "sm_assemble base ds = (let ds' = sort_key (\<lambda>d. millis (d_stamp d)) ds in (fold diff_apply ds' base, ds'))"

definition getStateAtTimestamp :: "(string, jsval) jmap \<Rightarrow> sdiff list \<Rightarrow> int \<Rightarrow> (string, jsval) jmap" where
  "getStateAtTimestamp base ds ts = fst (sm_assemble base (filter (\<lambda>d. millis (d_stamp d) \<le> ts) ds))"

text \<open>\<open>readUInt32BE(0)\<close> of the digest.\<close>

definition uint32_be :: "string \<Rightarrow> nat" where
  "uint32_be s = foldl (\<lambda>n c. 256 * n + of_char c) 0 (take 4 s)"

definition getShardForKey :: "(string \<Rightarrow> string) \<Rightarrow> string \<Rightarrow> nat \<Rightarrow> nat" where
  "getShardForKey H key n = uint32_be (H key) mod n"

definition shard_set :: "string \<Rightarrow> jsval \<Rightarrow> (string, jsval) jmap \<Rightarrow> (string, jsval) jmap" where
  "shard_set k v s = jset s k v"

definition shard_get :: "string \<Rightarrow> (string, jsval) jmap \<Rightarrow> jsval" where
  "shard_get k s = (case jget s k of Some v \<Rightarrow> v | None \<Rightarrow> JUndef)"

definition shard_delete :: "string \<Rightarrow> (string, jsval) jmap \<Rightarrow> (string, jsval) jmap" where
  "shard_delete k s = jdel s k"

section \<open>The machine\<close>

record smachine =
  sm_tree :: vtree
  sm_diffs :: "sdiff list"
  sm_index :: "(jsval, nat) jmap"
  sm_log :: "jsval list"
  sm_shards :: "(string, jsval) jmap list"
  sm_base :: "(string, jsval) jmap"
  sm_rows :: "(string, jsval) jmap option"
  sm_logrow :: "jsval option"
  sm_miner :: miner

definition new_machine :: "nat \<Rightarrow> miner \<Rightarrow> smachine" where
  "new_machine n m = \<lparr>sm_tree = vempty, sm_diffs = [], sm_index = [], sm_log = [],
     sm_shards = replicate n [], sm_base = [], sm_rows = None, sm_logrow = None, sm_miner = m\<rparr>"

definition recordDiff :: "sdiff \<Rightarrow> smachine \<Rightarrow> bool \<times> smachine" where
  "recordDiff d sm = (case jget (sm_index sm) (diff_identity d) of
     None \<Rightarrow> (True, sm\<lparr>sm_index := jset (sm_index sm) (diff_identity d) (length (sm_diffs sm)), sm_diffs := sm_diffs sm @ [d]\<rparr>)
   | Some i \<Rightarrow> (False, sm\<lparr>sm_diffs := (sm_diffs sm)[i := d]\<rparr>))"

definition diffKey :: "sdiff \<Rightarrow> string" where
  "diffKey d = js_string (diff_identity d)"

definition saveDiff :: "sdiff \<Rightarrow> smachine \<Rightarrow> smachine" where
  "saveDiff d sm = (case (sm_rows sm, diff_serialize d) of
     (Some rows, Some r) \<Rightarrow> sm\<lparr>sm_rows := Some (jset rows (diffKey d) r)\<rparr> | _ \<Rightarrow> sm)"

subsection \<open>Boot\<close>

definition sweep_diff_row :: "string \<times> jsval \<Rightarrow> smachine \<times> sdiff list \<Rightarrow> smachine \<times> sdiff list" where
  "sweep_diff_row kr st =
     (let (have, row) = kr; (sm, loaded) = st; d = diff_of_row row; want = diffKey d;
          sm1 = (if have \<noteq> want then sm\<lparr>sm_rows := map_option (\<lambda>rows. jdel (jset rows want row) have) (sm_rows sm)\<rparr> else sm);
          (fresh, sm2) = recordDiff d sm1
      in (sm2, if fresh then loaded @ [d] else loaded))"

text \<open>The iterator reads a snapshot, in key order, of the keys strictly between the empty text and \<open>\xFF\<close>.\<close>

definition diff_snapshot :: "(string, jsval) jmap \<Rightarrow> (string \<times> jsval) list" where
  "diff_snapshot rows = filter (\<lambda>(k, row). [] < k \<and> k < [CHR 0xFF]) (sort_key fst rows)"

text \<open>The flag is false when an insert throws, which ends the whole replay.\<close>

fun replay_changes :: "(string \<Rightarrow> string) \<Rightarrow> (string \<times> jsval) list \<Rightarrow> vtree \<Rightarrow> bool \<times> vtree" where
  "replay_changes H [] t = (True, t)"
| "replay_changes H ((k, v) # kvs) t =
     (if v = JNull then replay_changes H kvs (vdelete H k t)
      else (case vinsert H k v t of (ok, t') \<Rightarrow> if ok then replay_changes H kvs t' else (False, t')))"

fun replay_diffs :: "(string \<Rightarrow> string) \<Rightarrow> sdiff list \<Rightarrow> vtree \<Rightarrow> vtree" where
  "replay_diffs H [] t = t"
| "replay_diffs H (d # ds) t =
     (case replay_changes H (d_changes d) t of (ok, t') \<Rightarrow> if ok then replay_diffs H ds t' else t')"

definition replay_order :: "(string \<Rightarrow> string) \<Rightarrow> sdiff list \<Rightarrow> sdiff list" where
  "replay_order coll ds = sort_key (\<lambda>d. millis (d_stamp d)) (sort_key (\<lambda>d. coll (js_string (d_tx d))) ds)"

definition loadDiffs :: "(string \<Rightarrow> string) \<Rightarrow> (string \<Rightarrow> string) \<Rightarrow> smachine \<Rightarrow> smachine" where
  "loadDiffs H coll sm = (case sm_rows sm of None \<Rightarrow> sm
     | Some rows \<Rightarrow>
         (let (sm1, loaded) = fold sweep_diff_row (diff_snapshot rows) (sm, []) in
          if vstate (sm_tree sm1) = [] \<and> loaded \<noteq> []
          then sm1\<lparr>sm_tree := replay_diffs H (replay_order coll loaded) (sm_tree sm1)\<rparr> else sm1))"

definition loadTransactionLog :: "smachine \<Rightarrow> smachine" where
  "loadTransactionLog sm =
     (if sm_rows sm = None then sm
      else (case sm_logrow sm of Some (JArr xs) \<Rightarrow> sm\<lparr>sm_log := xs\<rparr> | _ \<Rightarrow> sm))"

definition saveTransactionLog :: "smachine \<Rightarrow> smachine" where
  "saveTransactionLog sm =
     (if sm_rows sm = None \<or> json_stringify (JArr (sm_log sm)) = None then sm
      else sm\<lparr>sm_logrow := Some (json_norm (JArr (sm_log sm)))\<rparr>)"

text \<open>A new process over the store an earlier one left.\<close>

definition sm_initDb :: "(string \<Rightarrow> string) \<Rightarrow> (string \<Rightarrow> string) \<Rightarrow> smachine \<Rightarrow> smachine" where
  "sm_initDb H coll sm = loadTransactionLog (loadDiffs H coll (sm\<lparr>sm_tree := loadState H (sm_tree sm)\<rparr>))"

definition reboot :: "(string \<Rightarrow> string) \<Rightarrow> (string \<Rightarrow> string) \<Rightarrow> nat \<Rightarrow> miner \<Rightarrow> smachine \<Rightarrow> smachine" where
  "reboot H coll n m sm = sm_initDb H coll ((new_machine n m)\<lparr>sm_tree := vempty\<lparr>vdisk := vdisk (sm_tree sm)\<rparr>,
     sm_rows := sm_rows sm, sm_logrow := sm_logrow sm\<rparr>)"

subsection \<open>The changes of a block\<close>

definition or_null :: "jsval \<Rightarrow> jsval" where
  "or_null v = nullish v JNull"

definition stateChangesFor :: "(string \<Rightarrow> string) \<Rightarrow> jsval \<Rightarrow> miner \<Rightarrow> (string, jsval) jmap option \<times> miner" where
  "stateChangesFor H block m =
     (let tx = getp block ''tx''; ty = getp tx ''type'' in
      if \<not> is_object tx then (None, m)
      else if ty = JStr ''state_diff'' then
        (case stateDiffWrites H tx m of (Inl e, m') \<Rightarrow> (None, m') | (Inr changes, m') \<Rightarrow> (Some changes, m'))
      else if ty = JStr ''anchor'' then
        (if \<not> truthy (getp tx ''event'') \<or> \<not> truthy (getp tx ''hash'') then None
         else Some [(''anchor:'' @ js_string (getp tx ''event'') @ '':'' @ js_string (getp tx ''hash''),
                     JObj [(''ts'', or_null (getp tx ''ts''))])], m)
      else if ty = JStr ''tx'' then
        (if \<not> truthy (getp tx ''xid'') then None
         else Some [(''tx:'' @ js_string (getp tx ''xid''),
                     JObj (map (\<lambda>f. (f, or_null (getp tx f))) [''chain'', ''from'', ''to'', ''asset'', ''amount'', ''unspent'']))], m)
      else if ty = JStr ''utxo'' then
        (if \<not> truthy (getp tx ''from'') \<or> \<not> truthy (getp tx ''to'') then None
         else Some [(''utxo:'' @ js_string (getp block ''id''),
                     JObj [(''from'', getp tx ''from''), (''to'', getp tx ''to''), (''amount'', or_null (getp tx ''amount''))])], m)
      else if ty = JStr ''identity'' then
        (if \<not> truthy (getp tx ''publicKey'') then None
         else Some [(''identity:'' @ js_string (nullish (getp tx ''from'') (getp block ''id'')),
                     JObj [(''publicKey'', getp tx ''publicKey'')])], m)
      else if ty = JStr ''token_creation'' then
        (if \<not> truthy (getp tx ''tokenId'') then None
         else Some [(''token:'' @ js_string (getp tx ''tokenId''), JObj [(''creator'', or_null (getp tx ''creator''))])], m)
      else if ty = JStr ''contract'' then
        (if \<not> truthy (getp tx ''contractHash'') then None
         else Some [(''contract:'' @ js_string (getp tx ''contractHash''), JObj [(''abi'', or_null (getp tx ''abi''))])], m)
      else (None, m))"

subsection \<open>Applying blocks\<close>

text \<open>Inserts in order up to the first that throws.\<close>

fun apply_changes :: "(string \<Rightarrow> string) \<Rightarrow> (string \<times> jsval) list \<Rightarrow> vtree \<Rightarrow> bool \<times> vtree" where
  "apply_changes H [] t = (True, t)"
| "apply_changes H ((k, v) # kvs) t =
     (case vinsert H k v t of (ok, t') \<Rightarrow> if ok then apply_changes H kvs t' else (False, t'))"

definition apply_diff :: "(string \<Rightarrow> string) \<Rightarrow> sdiff \<Rightarrow> smachine \<Rightarrow> bool \<times> smachine" where
  "apply_diff H d sm =
     (let sm1 = snd (recordDiff d sm); (ok, t) = apply_changes H (d_changes d) (sm_tree sm1); sm2 = sm1\<lparr>sm_tree := t\<rparr>
      in (ok, if ok then saveDiff d sm2 else sm2))"

definition handleLedgerBlock :: "(string \<Rightarrow> string) \<Rightarrow> int \<Rightarrow> jsval \<Rightarrow> smachine \<Rightarrow> smachine" where
  "handleLedgerBlock H now block sm =
     (let (changes, m) = stateChangesFor H block (sm_miner sm); sm0 = sm\<lparr>sm_miner := m\<rparr> in
      case changes of None \<Rightarrow> sm0
      | Some kvs \<Rightarrow> if kvs = [] then sm0 else snd (apply_diff H (new_diff (getp block ''id'') kvs now) sm0))"

record backfill_out =
  bo_scanned :: nat
  bo_applied :: nat
  bo_skipped :: nat
  bo_failed :: nat

text \<open>A stored block row is its parsed value, \<open>None\<close> when it does not parse.\<close>

definition backfill_row :: "(string \<Rightarrow> string) \<Rightarrow> int \<Rightarrow> jsval option \<Rightarrow> smachine \<times> backfill_out \<Rightarrow> smachine \<times> backfill_out" where
  "backfill_row H now row st =
     (let (sm, out0) = st; out = out0\<lparr>bo_scanned := Suc (bo_scanned out0)\<rparr> in
      case row of None \<Rightarrow> (sm, out\<lparr>bo_failed := Suc (bo_failed out)\<rparr>)
      | Some block \<Rightarrow>
          (let (changes, m) = stateChangesFor H block (sm_miner sm); sm0 = sm\<lparr>sm_miner := m\<rparr> in
           case changes of None \<Rightarrow> (sm0, out\<lparr>bo_skipped := Suc (bo_skipped out)\<rparr>)
           | Some kvs \<Rightarrow>
               if kvs = [] then (sm0, out\<lparr>bo_skipped := Suc (bo_skipped out)\<rparr>)
               else (let (ok, sm1) = apply_diff H (new_diff (getp block ''id'') kvs now) sm0 in
                 (sm1, if ok then out\<lparr>bo_applied := Suc (bo_applied out)\<rparr> else out\<lparr>bo_failed := Suc (bo_failed out)\<rparr>))))"

text \<open>\<open>None\<close> as the ledger's rows: there is no ledger database, and nothing starts.\<close>

definition backfillFromLedger ::
  "(string \<Rightarrow> string) \<Rightarrow> int \<Rightarrow> jsval option list option \<Rightarrow> smachine \<Rightarrow> (backfill_out \<times> string) option \<times> smachine" where
  "backfillFromLedger H now ledger sm = (case ledger of None \<Rightarrow> (None, sm)
     | Some rows \<Rightarrow>
         (let (sm1, out) = fold (backfill_row H now) rows (sm, \<lparr>bo_scanned = 0, bo_applied = 0, bo_skipped = 0, bo_failed = 0\<rparr>);
              (root, t) = getRoot H (sm_tree sm1)
          in (Some (out, root), sm1\<lparr>sm_tree := t\<rparr>)))"

subsection \<open>The canonical rebuild\<close>

definition anchor_named :: "jsval \<Rightarrow> bool" where
  "anchor_named a \<longleftrightarrow> truthy a \<and> truthy (getp a ''event'') \<and> truthy (getp a ''hash'')"

definition anchor_entry :: "jsval \<Rightarrow> string \<times> jsval" where
  "anchor_entry a = (''anchor:'' @ js_string (getp a ''event'') @ '':'' @ js_string (getp a ''hash''),
     JObj [(''ts'', or_null (getp a ''ts''))])"

text \<open>The tree first, then the diff: a throwing insert counts as skipped and records nothing.\<close>

definition rebuild_anchor :: "(string \<Rightarrow> string) \<Rightarrow> int \<Rightarrow> jsval \<Rightarrow> smachine \<times> nat \<times> nat \<Rightarrow> smachine \<times> nat \<times> nat" where
  "rebuild_anchor H now a st =
     (let (sm, applied, skipped) = st; (k, v) = anchor_entry a in
      if \<not> anchor_named a then (sm, applied, Suc skipped)
      else (let (ok, t) = vinsert H k v (sm_tree sm); sm1 = sm\<lparr>sm_tree := t\<rparr>; d = new_diff (JStr k) [(k, v)] now in
        if ok then (saveDiff d (snd (recordDiff d sm1)), Suc applied, skipped) else (sm1, applied, Suc skipped)))"

definition array_items :: "jsval \<Rightarrow> jsval list" where
  "array_items v = (case v of JArr xs \<Rightarrow> xs | _ \<Rightarrow> [])"

definition clear_diff_rows :: "(string, jsval) jmap \<Rightarrow> (string, jsval) jmap" where
  "clear_diff_rows rows = filter (\<lambda>(k, r). \<not> k < [CHR 0xFF]) rows"

definition rebuildFromCanonical ::
  "(string \<Rightarrow> string) \<Rightarrow> int \<Rightarrow> jsval \<Rightarrow> smachine \<Rightarrow> (nat \<times> nat \<times> nat \<times> string) \<times> smachine" where
  "rebuildFromCanonical H now anchors sm =
     (let list = array_items anchors;
          sm0 = sm\<lparr>sm_tree := vclear (sm_tree sm), sm_diffs := [], sm_index := [], sm_rows := map_option clear_diff_rows (sm_rows sm)\<rparr>;
          (sm1, applied, skipped) = fold (rebuild_anchor H now) list (sm0, 0, 0);
          (root, t) = getRoot H (sm_tree sm1)
      in ((length list, applied, skipped, root), sm1\<lparr>sm_tree := t\<rparr>))"

subsection \<open>Forgetting keys\<close>

definition reindex :: "sdiff list \<Rightarrow> (jsval, nat) jmap" where
  "reindex ds = fold (\<lambda>(i, d) m. jset m (diff_identity d) i) (enumerate 0 ds) []"

definition splice_out :: "nat \<Rightarrow> 'a list \<Rightarrow> 'a list" where
  "splice_out i xs = take i xs @ drop (Suc i) xs"

text \<open>Of each key: was it present, and was it a key at all.\<close>

definition forget_key :: "(string \<Rightarrow> string) \<Rightarrow> jsval \<Rightarrow> smachine \<Rightarrow> bool option \<times> smachine" where
  "forget_key H key sm = (case key of
     JStr k \<Rightarrow>
       if k = [] then (None, sm)
       else (let was = jhas (vstate (sm_tree sm)) k;
                 sm1 = sm\<lparr>sm_tree := vdelete H k (sm_tree sm)\<rparr>;
                 sm2 = (case jget (sm_index sm1) (JStr k) of None \<Rightarrow> sm1
                   | Some i \<Rightarrow> (let ds = splice_out i (sm_diffs sm1) in sm1\<lparr>sm_diffs := ds, sm_index := reindex ds\<rparr>))
             in (Some was, sm2\<lparr>sm_rows := map_option (\<lambda>rows. jdel rows k) (sm_rows sm2)\<rparr>))
   | _ \<Rightarrow> (None, sm))"

fun forget_keys :: "(string \<Rightarrow> string) \<Rightarrow> jsval list \<Rightarrow> smachine \<Rightarrow> bool option list \<times> smachine" where
  "forget_keys H [] sm = ([], sm)"
| "forget_keys H (k # ks) sm =
     (let (w, sm1) = forget_key H k sm; (ws, sm2) = forget_keys H ks sm1 in (w # ws, sm2))"

record forget_out =
  fo_requested :: nat
  fo_removed :: nat
  fo_absent :: nat
  fo_keys :: "bool option list"
  fo_root :: string

definition forgetKeys :: "(string \<Rightarrow> string) \<Rightarrow> jsval \<Rightarrow> smachine \<Rightarrow> forget_out \<times> smachine" where
  "forgetKeys H keys sm =
     (let list = (if is_array keys then array_items keys else [keys]);
          (ws, sm1) = forget_keys H list sm; (root, t) = getRoot H (sm_tree sm1)
      in (\<lparr>fo_requested = length list, fo_removed = length (filter (\<lambda>w. w = Some True) ws),
           fo_absent = length (filter (\<lambda>w. w = Some False) ws), fo_keys = ws, fo_root = root\<rparr>, sm1\<lparr>sm_tree := t\<rparr>))"

subsection \<open>Commitment and reads\<close>

text \<open>The event's cube with its \<open>stateRoot\<close>, and the \<open>state:committed\<close> event, when there is a cube.\<close>

definition event_cube :: "jsval \<Rightarrow> jsval" where
  "event_cube evt = (if is_object evt \<and> is_object (getp evt ''cube'') then getp evt ''cube'' else evt)"

definition handleCubeComplete :: "(string \<Rightarrow> string) \<Rightarrow> jsval \<Rightarrow> smachine \<Rightarrow> (string \<times> (jsval \<times> jsval) option) \<times> smachine" where
  "handleCubeComplete H evt sm =
     (let (root, t) = getRoot H (sm_tree sm); cube = event_cube evt in
      ((root, if is_object cube
          then Some (set_prop cube ''stateRoot'' (JStr root), or_null (nullish (getp cube ''id'') (getp evt ''cubeId'')))
          else None),
       sm\<lparr>sm_tree := t\<rparr>))"

text \<open>With a timestamp a copy is assembled; without one the machine's own array is sorted.\<close>

definition getState :: "(string \<Rightarrow> string) \<Rightarrow> string \<Rightarrow> int \<Rightarrow> smachine \<Rightarrow> jsval \<times> smachine" where
  "getState H key timestamp sm =
     (if timestamp \<noteq> 0 then (JObj (getStateAtTimestamp (sm_base sm) (sm_diffs sm) timestamp), sm)
      else (let v = shard_get key (sm_shards sm ! getShardForKey H key (length (sm_shards sm))) in
        if truthy v then (v, sm)
        else (let (state, ds) = sm_assemble (sm_base sm) (sm_diffs sm) in (JObj state, sm\<lparr>sm_diffs := ds\<rparr>))))"

definition sm_generateProof :: "(string \<Rightarrow> string) \<Rightarrow> string \<Rightarrow> smachine \<Rightarrow> vproof option \<times> smachine" where
  "sm_generateProof H key sm =
     (if vget (sm_tree sm) key = JUndef then (None, sm)
      else (case generateProof H (sm_tree sm) key of None \<Rightarrow> (None, sm)
            | Some (p, t) \<Rightarrow> (Some p, sm\<lparr>sm_tree := t\<rparr>)))"

definition sm_verifyProof :: "(string \<Rightarrow> string) \<Rightarrow> string \<Rightarrow> jsval \<Rightarrow> vproof \<Rightarrow> bool option" where
  "sm_verifyProof H key value p = verifyProof H key value p"

definition getStateRoot :: "(string \<Rightarrow> string) \<Rightarrow> smachine \<Rightarrow> string \<times> smachine" where
  "getStateRoot H sm = (let (root, t) = getRoot H (sm_tree sm) in (root, sm\<lparr>sm_tree := t\<rparr>))"

record sm_statistics =
  st_transactions :: nat
  st_applied :: nat
  st_diffs :: nat
  st_root :: string
  st_shards :: "(nat \<times> nat) list"

definition getStatistics :: "(string \<Rightarrow> string) \<Rightarrow> smachine \<Rightarrow> sm_statistics \<times> smachine" where
  "getStatistics H sm = (let (root, t) = getRoot H (sm_tree sm) in
     (\<lparr>st_transactions = length (sm_log sm) + length (sm_diffs sm), st_applied = length (sm_diffs sm),
       st_diffs = length (sm_diffs sm), st_root = root,
       st_shards = map (\<lambda>(i, s). (i, length (jkeys s))) (enumerate 0 (sm_shards sm))\<rparr>, sm\<lparr>sm_tree := t\<rparr>))"

end
