(* ===== verification/StateMachineProps.thy ===== *)
theory StateMachineProps
  imports StateMachine
begin

text \<open>
  What the state machine keeps: the index over the recorded diffs is exact whatever handlers ran, but for
  reads of the latest state that find the diffs out of time order; a backfill run twice is a backfill run
  once; a canonical rebuild gives a root that depends only on the last time given for each anchor and that
  survives a restart; and no two transaction types share a key.
\<close>

section \<open>The index over the diffs\<close>

definition positions :: "'a list \<Rightarrow> 'a \<rightharpoonup> nat" where
  "positions xs = map_of (zip xs [0..<length xs])"

abbreviation diff_ids :: "smachine \<Rightarrow> jsval list" where
  "diff_ids sm \<equiv> map diff_identity (sm_diffs sm)"

definition index_ok :: "smachine \<Rightarrow> bool" where
  "index_ok sm \<longleftrightarrow> distinct (diff_ids sm) \<and> jget (sm_index sm) = positions (diff_ids sm)"

lemma positions_snoc: "x \<notin> set xs \<Longrightarrow> positions (xs @ [x]) = (positions xs)(x \<mapsto> length xs)"
  by (rule ext) (auto simp: positions_def map_add_Some_iff map_of_eq_None_iff[THEN iffD2] map_add_dom_app_simps)

lemma positions_Some: "positions xs x = Some i \<Longrightarrow> i < length xs \<and> xs ! i = x"
  unfolding positions_def by (auto dest!: map_of_SomeD simp: set_zip)

lemma positions_None: "positions xs x = None \<longleftrightarrow> x \<notin> set xs"
  by (simp add: positions_def)

lemma recordDiff_spec:
  assumes "index_ok sm"
  shows "index_ok (snd (recordDiff d sm)) \<and> set (diff_ids (snd (recordDiff d sm))) = insert (diff_identity d) (set (diff_ids sm))"
proof (cases "jget (sm_index sm) (diff_identity d)")
  case None
  then have "diff_identity d \<notin> set (diff_ids sm)" using assms by (simp add: index_ok_def positions_None)
  then show ?thesis using assms None
    by (simp add: recordDiff_def index_ok_def positions_snoc[of "diff_identity d" "diff_ids sm", simplified] jmap_simps fun_eq_iff)
next
  case (Some i)
  then have "positions (diff_ids sm) (diff_identity d) = Some i" using assms by (simp add: index_ok_def)
  then have i: "i < length (sm_diffs sm)" "diff_ids sm ! i = diff_identity d"
    using positions_Some[of "diff_ids sm"] by fastforce+
  then have "map diff_identity ((sm_diffs sm)[i := d]) = diff_ids sm"
    by (simp add: map_update list_update_same_conv)
  moreover have "diff_identity d \<in> set (diff_ids sm)" using i by (metis length_map nth_mem)
  ultimately show ?thesis using assms Some by (auto simp: recordDiff_def index_ok_def)
qed

lemma index_ok_frame [step_simps]:
  "index_ok (sm\<lparr>sm_tree := t\<rparr>) = index_ok sm" "index_ok (sm\<lparr>sm_miner := m\<rparr>) = index_ok sm"
  "index_ok (sm\<lparr>sm_rows := r\<rparr>) = index_ok sm" "index_ok (sm\<lparr>sm_log := l\<rparr>) = index_ok sm"
  by (simp_all add: index_ok_def)

lemma saveDiff_frame [step_simps]:
  "sm_diffs (saveDiff d sm) = sm_diffs sm" "sm_index (saveDiff d sm) = sm_index sm" "sm_tree (saveDiff d sm) = sm_tree sm"
  "sm_miner (saveDiff d sm) = sm_miner sm"
  by (simp_all add: saveDiff_def split: option.split)

lemma index_ok_save [step_simps]: "index_ok (saveDiff d sm) = index_ok sm"
  by (simp add: index_ok_def step_simps)

lemma recordDiff_frame [step_simps]:
  "sm_tree (snd (recordDiff d sm)) = sm_tree sm" "sm_miner (snd (recordDiff d sm)) = sm_miner sm"
  "sm_rows (snd (recordDiff d sm)) = sm_rows sm" "sm_log (snd (recordDiff d sm)) = sm_log sm"
  by (simp_all add: recordDiff_def split: option.split)

lemma apply_diff_frame [step_simps]:
  "sm_diffs (snd (apply_diff H d sm)) = sm_diffs (snd (recordDiff d sm))"
  "sm_index (snd (apply_diff H d sm)) = sm_index (snd (recordDiff d sm))"
  "sm_tree (snd (apply_diff H d sm)) = snd (apply_changes H (d_changes d) (sm_tree sm))"
  "fst (apply_diff H d sm) = fst (apply_changes H (d_changes d) (sm_tree sm))"
  "sm_miner (snd (apply_diff H d sm)) = sm_miner sm"
  by (simp_all add: apply_diff_def Let_def step_simps split: prod.split)

lemma shards_frame [step_simps]: "sm_shards (snd (recordDiff d sm)) = sm_shards sm" "sm_shards (saveDiff d sm) = sm_shards sm"
  "sm_shards (snd (apply_diff H d sm)) = sm_shards sm"
  by (simp_all add: recordDiff_def saveDiff_def apply_diff_def Let_def split: option.split prod.split)

lemma index_ok_apply:
  "index_ok sm \<Longrightarrow> index_ok (snd (apply_diff H d sm)) \<and>
     set (diff_ids (snd (apply_diff H d sm))) = insert (diff_identity d) (set (diff_ids sm))"
  using recordDiff_spec[of sm d] by (simp add: index_ok_def step_simps)

lemma index_ok_block: "index_ok sm \<Longrightarrow> index_ok (handleLedgerBlock H now block sm)"
  by (auto simp: handleLedgerBlock_def Let_def step_simps index_ok_apply split: prod.split option.split)

lemma index_ok_backfill_row: "index_ok sm \<Longrightarrow> index_ok (fst (backfill_row H now row (sm, out)))"
  by (auto simp: backfill_row_def Let_def step_simps split: prod.splits option.splits)
    (metis index_ok_apply index_ok_frame(2) snd_conv)+

lemma index_ok_backfill_fold: "index_ok (fst st) \<Longrightarrow> index_ok (fst (fold (backfill_row H now) rows st))"
proof (induction rows arbitrary: st)
  case (Cons r rows)
  then show ?case using index_ok_backfill_row[of "fst st" H now r "snd st"] by simp
qed simp

lemma index_ok_backfill: "index_ok sm \<Longrightarrow> index_ok (snd (backfillFromLedger H now ledger sm))"
  using index_ok_backfill_fold[of "(sm, \<lparr>bo_scanned = 0, bo_applied = 0, bo_skipped = 0, bo_failed = 0\<rparr>)"]
  by (auto simp: backfillFromLedger_def Let_def step_simps split: option.split prod.split)
    (metis fst_conv)

lemma index_ok_rebuild_anchor: "index_ok (fst st) \<Longrightarrow> index_ok (fst (rebuild_anchor H now a st))"
  by (cases st) (auto simp: rebuild_anchor_def Let_def step_simps recordDiff_spec split: prod.split)

lemma index_ok_rebuild_fold: "index_ok (fst st) \<Longrightarrow> index_ok (fst (fold (rebuild_anchor H now) as st))"
  by (induction as arbitrary: st) (simp_all add: index_ok_rebuild_anchor)

lemma index_ok_empty: "sm_diffs sm = [] \<Longrightarrow> sm_index sm = [] \<Longrightarrow> index_ok sm"
  by (simp add: index_ok_def positions_def)

lemma index_ok_rebuild: "index_ok (snd (rebuildFromCanonical H now anchors sm))"
proof -
  let ?sm0 = "sm\<lparr>sm_tree := vclear (sm_tree sm), sm_diffs := [], sm_index := [], sm_rows := map_option clear_diff_rows (sm_rows sm)\<rparr>"
  have "index_ok (fst (fold (rebuild_anchor H now) (array_items anchors) (?sm0, 0, 0)))"
    by (rule index_ok_rebuild_fold) (simp add: index_ok_empty)
  then show ?thesis by (simp add: rebuildFromCanonical_def Let_def step_simps case_prod_beta)
qed

lemma splice_out_map: "map f (splice_out i xs) = splice_out i (map f xs)"
  by (simp add: splice_out_def take_map drop_map)

lemma splice_out_distinct: "distinct xs \<Longrightarrow> distinct (splice_out i xs)"
  unfolding splice_out_def using set_take_disj_set_drop_if_distinct[of xs i "Suc i"] by simp

lemma reindex_positions: "distinct (map diff_identity ds) \<Longrightarrow> jget (reindex ds) = positions (map diff_identity ds)"
proof (induction ds rule: rev_induct)
  case Nil
  then show ?case by (simp add: reindex_def positions_def)
next
  case (snoc d ds)
  have "reindex (ds @ [d]) = jset (reindex ds) (diff_identity d) (length ds)"
    by (simp add: reindex_def enumerate_append_eq)
  then show ?case using snoc positions_snoc[of "diff_identity d" "map diff_identity ds"]
    by (simp add: jmap_simps fun_eq_iff)
qed

lemma index_ok_forget_key: "index_ok sm \<Longrightarrow> index_ok (snd (forget_key H key sm))"
proof -
  assume ok: "index_ok sm"
  have "index_ok (sm\<lparr>sm_tree := t, sm_diffs := splice_out i (sm_diffs sm), sm_index := reindex (splice_out i (sm_diffs sm))\<rparr>)" for t i
    using ok splice_out_distinct[of "diff_ids sm" i] reindex_positions[of "splice_out i (sm_diffs sm)"]
    by (simp add: index_ok_def splice_out_map)
  then show ?thesis using ok by (auto simp: forget_key_def Let_def step_simps split: jsval.split option.split)
qed

lemma forget_keys_snd: "snd (forget_keys H ks sm) = fold (\<lambda>k sm. snd (forget_key H k sm)) ks sm"
  by (induction ks arbitrary: sm) (simp_all add: case_prod_beta Let_def)

lemma index_ok_forget_keys: "index_ok sm \<Longrightarrow> index_ok (fold (\<lambda>k sm. snd (forget_key H k sm)) ks sm)"
  by (induction ks arbitrary: sm) (simp_all add: index_ok_forget_key)

lemma index_ok_forget: "index_ok sm \<Longrightarrow> index_ok (snd (forgetKeys H keys sm))"
  by (simp add: forgetKeys_def Let_def step_simps case_prod_beta forget_keys_snd index_ok_forget_keys)

lemma index_ok_sweep: "index_ok (fst st) \<Longrightarrow> index_ok (fst (sweep_diff_row kr st))"
  by (cases kr; cases st) (simp add: sweep_diff_row_def Let_def case_prod_beta recordDiff_spec step_simps)

lemma index_ok_sweep_fold: "index_ok (fst st) \<Longrightarrow> index_ok (fst (fold sweep_diff_row krs st))"
  by (induction krs arbitrary: st) (simp_all add: index_ok_sweep)

lemma index_ok_load: "index_ok sm \<Longrightarrow> index_ok (loadDiffs H coll sm)"
  using index_ok_sweep_fold[of "(sm, [])"]
  by (simp add: loadDiffs_def Let_def case_prod_beta step_simps split: option.split)

lemma index_ok_reboot: "index_ok (reboot H coll n m sm)"
proof -
  have "index_ok (loadDiffs H coll sm')" if "sm_diffs sm' = []" "sm_index sm' = []" for sm'
    by (rule index_ok_load[OF index_ok_empty[OF that]])
  then show ?thesis
    by (auto simp: reboot_def sm_initDb_def loadTransactionLog_def new_machine_def step_simps split: option.split jsval.split)
qed

text \<open>The handlers a running machine executes.\<close>

datatype sm_op =
    SBlock int jsval
  | SBackfill int "jsval option list option"
  | SRebuild int jsval
  | SForget jsval
  | SCube jsval
  | SProof string
  | SStats
  | SRoot
  | SRead string int

fun sm_step :: "(string \<Rightarrow> string) \<Rightarrow> sm_op \<Rightarrow> smachine \<Rightarrow> smachine" where
  "sm_step H (SBlock now b) sm = handleLedgerBlock H now b sm"
| "sm_step H (SBackfill now l) sm = snd (backfillFromLedger H now l sm)"
| "sm_step H (SRebuild now a) sm = snd (rebuildFromCanonical H now a sm)"
| "sm_step H (SForget ks) sm = snd (forgetKeys H ks sm)"
| "sm_step H (SCube e) sm = snd (handleCubeComplete H e sm)"
| "sm_step H (SProof k) sm = snd (sm_generateProof H k sm)"
| "sm_step H SStats sm = snd (getStatistics H sm)"
| "sm_step H SRoot sm = snd (getStateRoot H sm)"
| "sm_step H (SRead k ts) sm = snd (getState H k ts sm)"

text \<open>\<open>getState\<close> without a timestamp sorts the machine's own diffs by time. A run reads in order when every
  such read finds them sorted already.\<close>

definition time_ordered :: "smachine \<Rightarrow> bool" where
  "time_ordered sm \<longleftrightarrow> sorted (map (\<lambda>d. millis (d_stamp d)) (sm_diffs sm))"

fun reads_in_order :: "(string \<Rightarrow> string) \<Rightarrow> sm_op list \<Rightarrow> smachine \<Rightarrow> bool" where
  "reads_in_order H [] sm = True"
| "reads_in_order H (op # ops) sm =
     ((case op of SRead k ts \<Rightarrow> ts \<noteq> 0 \<or> time_ordered sm | _ \<Rightarrow> True) \<and> reads_in_order H ops (sm_step H op sm))"

lemma getState_ordered: "timestamp \<noteq> 0 \<or> time_ordered sm \<Longrightarrow> snd (getState H key timestamp sm) = sm"
  by (auto simp: getState_def sm_assemble_def time_ordered_def sort_key_id_if_sorted Let_def)

lemma index_ok_step:
  assumes "index_ok sm" "case op of SRead k ts \<Rightarrow> ts \<noteq> 0 \<or> time_ordered sm | _ \<Rightarrow> True"
  shows "index_ok (sm_step H op sm)"
proof (cases op)
  case (SRead k ts)
  then show ?thesis using assms getState_ordered[of ts sm H k] by simp
qed (use assms(1) in \<open>simp_all add: index_ok_block index_ok_backfill index_ok_rebuild index_ok_forget handleCubeComplete_def
      sm_generateProof_def getStatistics_def getStateRoot_def Let_def case_prod_beta step_simps split: option.split\<close>)

lemma index_ok_run: "index_ok sm \<Longrightarrow> reads_in_order H ops sm \<Longrightarrow> index_ok (fold (sm_step H) ops sm)"
proof (induction ops arbitrary: sm)
  case (Cons op ops)
  then show ?case using index_ok_step[of sm op H] by simp
qed simp

section \<open>Applying changes is a run of inserts\<close>

definition inserts :: "(string \<times> jsval) list \<Rightarrow> vop list" where
  "inserts kvs = map (\<lambda>(k, v). VInsert k v) kvs"

definition entries_ok :: "(string \<Rightarrow> string) \<Rightarrow> string set \<Rightarrow> (string \<times> jsval) list \<Rightarrow> bool" where
  "entries_ok H K kvs \<longleftrightarrow> list_all (\<lambda>(k, v). k \<in> K \<and> valueHashOf H v \<noteq> None) kvs"

lemma inserts_simps [simp]: "inserts [] = []" "inserts ((k, v) # kvs) = VInsert k v # inserts kvs"
  "inserts (kvs @ kvs') = inserts kvs @ inserts kvs'"
  by (simp_all add: inserts_def)

lemma entries_ok_simps [simp]: "entries_ok H K []"
  "entries_ok H K ((k, v) # kvs) \<longleftrightarrow> k \<in> K \<and> valueHashOf H v \<noteq> None \<and> entries_ok H K kvs"
  "entries_ok H K (kvs @ kvs') \<longleftrightarrow> entries_ok H K kvs \<and> entries_ok H K kvs'"
  by (simp_all add: entries_ok_def)

lemma vrun_simps [simp]: "vrun H [] t = t" "vrun H (op # ops) t = vrun H ops (vstep H op t)"
  "vrun H (ops @ ops') t = vrun H ops' (vrun H ops t)"
  by (simp_all add: vrun_def)

lemma vinsert_ok: "fst (vinsert H k v t) \<longleftrightarrow> valueHashOf H v \<noteq> None"
  by (simp add: vinsert_def Let_def split: option.split)

lemma apply_changes_run: "entries_ok H K kvs \<Longrightarrow> apply_changes H kvs t = (True, vrun H (inserts kvs) t)"
proof (induction kvs arbitrary: t)
  case (Cons p kvs)
  obtain k v where p: "p = (k, v)" by (cases p)
  obtain ok t' where t': "vinsert H k v t = (ok, t')" by (cases "vinsert H k v t")
  then have "ok" "vstep H (VInsert k v) t = t'" using vinsert_ok[of H k v t] Cons.prems p by auto
  then show ?case using Cons p t' by simp
qed simp

lemma inserts_ok: "entries_ok H K kvs \<longleftrightarrow> (\<forall>op \<in> set (inserts kvs). op_ok H K op)"
  by (auto simp: entries_ok_def inserts_def op_ok_def list_all_iff)

lemma vspec_inserts: "fold vspec (inserts kvs) m = m ++ map_of (rev kvs)"
proof (induction kvs arbitrary: m)
  case (Cons p kvs)
  then show ?case by (cases p) (simp add: fun_eq_iff map_add_def split: option.split)
qed simp

lemma map_add_idem [simp]: "m ++ (n ++ n) = m ++ n"
  by (simp add: fun_eq_iff map_add_def split: option.split)

lemma map_of_rev_sv: "single_valued (set es) \<Longrightarrow> map_of (rev es) k = Some v \<longleftrightarrow> (k, v) \<in> set es"
proof
  assume "map_of (rev es) k = Some v"
  then show "(k, v) \<in> set es" by (metis map_of_SomeD set_rev)
next
  assume sv: "single_valued (set es)" and in_es: "(k, v) \<in> set es"
  then obtain w where w: "map_of (rev es) k = Some w"
    using map_of_eq_None_iff[of "rev es" k] by (metis (no_types, lifting) fst_conv image_eqI not_None_eq set_rev)
  then have "(k, w) \<in> set es" by (metis map_of_SomeD set_rev)
  then show "map_of (rev es) k = Some v" using sv in_es w by (metis single_valuedD)
qed

text \<open>The root depends on the map only.\<close>

lemma root_of_map:
  assumes "digest H" "inj_on H K" "vinv H K t" "vinv H K t'" "jget (vstate t) = jget (vstate t')"
  shows "fst (getRoot H t) = fst (getRoot H t')"
proof -
  have "set (vstate t) = set (vstate t')"
    by (rule jmap_ok_set_eq) (use assms(3-5) in \<open>auto simp: vinv_def\<close>)
  then show ?thesis
    unfolding getRoot_committed[OF assms(1-3)] getRoot_committed[OF assms(1,2,4)]
    by (intro committed_cong[OF assms(1,2)]) (use assms(3,4) in \<open>auto simp: vinv_def\<close>)
qed

section \<open>The memo of the miner does not show\<close>

lemma micromine_fst: "memo_ok H m \<Longrightarrow> micromine H d ty m = (mine H d ty, snd (micromine H d ty m)) \<and> memo_ok H (snd (micromine H d ty m))"
  using micromine_correct[of H m d ty] by (metis prod.collapse)

lemma diff_write_memo:
  assumes "memo_ok H m" "memo_ok H n"
  shows "fst (diff_write H k v m) = fst (diff_write H k v n) \<and> memo_ok H (snd (diff_write H k v m))"
proof -
  have e: "micromine H (getp v ''data'') ty q = (mine H (getp v ''data'') ty, snd (micromine H (getp v ''data'') ty q))"
    "memo_ok H (snd (micromine H (getp v ''data'') ty q))" if "memo_ok H q" for q ty
    using micromine_fst[OF that, of "getp v ''data''" ty] by auto
  have "fst (diff_write H k v q) = (case datum_key k of
        None \<Rightarrow> Inl (NotDatumKey k)
      | Some type \<Rightarrow>
          if type = 6 then Inl (ValueUnit k)
          else if appTypeOf v \<noteq> ''object'' \<or> v = JNull \<or> join '','' (sort (jkeys (obj_entries v))) \<noteq> ''data,nonce,oid''
          then Inl (NotDatumValue k)
          else if \<not> datum_shape_ok (getp v ''data'') type then Inl (BadShape k)
          else if type = 7 \<and> getp (getp v ''data'') ''how'' \<in> set chain_pointer_hows then Inl (ChainPointer k)
          else (case mine H (getp v ''data'') type of
              Inl e \<Rightarrow> Inl (Unminable k e)
            | Inr r \<Rightarrow>
                if mkey r \<noteq> k then Inl (OtherKey k)
                else if getp v ''oid'' \<noteq> JStr (moid r) \<or> getp v ''nonce'' \<noteq> JInt (int (mnonce r))
                then Inl (OtherOidOrNonce k)
                else Inr (JObj [(''oid'', JStr (moid r)), (''nonce'', JInt (int (mnonce r))), (''data'', getp v ''data'')])))
    \<and> memo_ok H (snd (diff_write H k v q))" if q: "memo_ok H q" for q
  proof (cases "datum_key k")
    case None
    then show ?thesis using q by (simp add: diff_write_def)
  next
    case (Some ty)
    show ?thesis using q e(2)[OF q, of ty] unfolding diff_write_def Some by (subst (1 2) e(1)[OF q]) (auto split: sum.split)
  qed
  from this[OF assms(1)] this[OF assms(2)] show ?thesis by simp
qed

lemma diff_writes_memo:
  "memo_ok H m \<Longrightarrow> memo_ok H n \<Longrightarrow> fst (diff_writes H kvs m) = fst (diff_writes H kvs n) \<and> memo_ok H (snd (diff_writes H kvs m))"
proof (induction kvs arbitrary: m n)
  case (Cons p kvs)
  obtain k v where p: "p = (k, v)" by (cases p)
  obtain a m1 where a: "diff_write H k v m = (a, m1)" by (cases "diff_write H k v m")
  obtain b n1 where b: "diff_write H k v n = (b, n1)" by (cases "diff_write H k v n")
  have ab: "a = b" "memo_ok H m1" "memo_ok H n1"
    using diff_write_memo[OF Cons.prems, of k v] diff_write_memo[OF Cons.prems(2,1), of k v] a b by auto
  obtain x m2 where x: "diff_writes H kvs m1 = (x, m2)" by (cases "diff_writes H kvs m1")
  obtain y n2 where y: "diff_writes H kvs n1 = (y, n2)" by (cases "diff_writes H kvs n1")
  have "x = y" "memo_ok H m2" using Cons.IH[OF ab(2,3)] x y by auto
  then show ?case using p a b ab x y by (auto split: sum.split)
qed simp

lemma stateChangesFor_memo:
  assumes "memo_ok H m" "memo_ok H n"
  shows "fst (stateChangesFor H b m) = fst (stateChangesFor H b n) \<and> memo_ok H (snd (stateChangesFor H b m))"
proof -
  have "fst (stateDiffWrites H tx m) = fst (stateDiffWrites H tx n) \<and> memo_ok H (snd (stateDiffWrites H tx m))" for tx
    using diff_writes_memo[OF assms] assms(1) by (simp add: stateDiffWrites_def Let_def split: option.split)
  then show ?thesis using assms(1)
    by (auto simp: stateChangesFor_def Let_def case_prod_beta split: sum.splits)
qed

section \<open>The backfill\<close>

text \<open>What a stored row changes, and the identity it is recorded under.\<close>

definition row_changes :: "(string \<Rightarrow> string) \<Rightarrow> jsval option \<Rightarrow> (string, jsval) jmap" where
  "row_changes H row = (case row of None \<Rightarrow> []
     | Some b \<Rightarrow> (case fst (stateChangesFor H b (miner0 0)) of None \<Rightarrow> [] | Some kvs \<Rightarrow> kvs))"

definition row_ids :: "(string \<Rightarrow> string) \<Rightarrow> jsval option \<Rightarrow> jsval set" where
  "row_ids H row = (if row_changes H row = [] then {}
     else {diff_identity (new_diff (getp (the row) ''id'') (row_changes H row) 0)})"

definition row_count :: "(string \<Rightarrow> string) \<Rightarrow> jsval option \<Rightarrow> backfill_out \<Rightarrow> backfill_out" where
  "row_count H row out0 = (let out = out0\<lparr>bo_scanned := Suc (bo_scanned out0)\<rparr> in
     if row = None then out\<lparr>bo_failed := Suc (bo_failed out)\<rparr>
     else if row_changes H row = [] then out\<lparr>bo_skipped := Suc (bo_skipped out)\<rparr>
     else out\<lparr>bo_applied := Suc (bo_applied out)\<rparr>)"

definition backfill_rel :: "(string \<Rightarrow> string) \<Rightarrow> string set \<Rightarrow> jsval option list \<Rightarrow> smachine \<times> backfill_out \<Rightarrow> smachine \<times> backfill_out \<Rightarrow> bool" where
  "backfill_rel H K rows st st' \<longleftrightarrow>
     sm_tree (fst st') = vrun H (inserts (concat (map (row_changes H) rows))) (sm_tree (fst st)) \<and>
     index_ok (fst st') \<and> memo_ok H (sm_miner (fst st')) \<and>
     set (diff_ids (fst st')) = set (diff_ids (fst st)) \<union> \<Union> (row_ids H ` set rows) \<and>
     snd st' = fold (row_count H) rows (snd st)"

lemma identity_now: "diff_identity (new_diff i kvs a) = diff_identity (new_diff i kvs b)"
  by (simp add: diff_identity_def new_diff_def)

lemma backfill_row_rel:
  assumes "index_ok sm" "memo_ok H (sm_miner sm)" "entries_ok H K (row_changes H row)"
  shows "backfill_rel H K [row] (sm, out) (backfill_row H now row (sm, out))"
proof (cases row)
  case None
  then show ?thesis using assms by (simp add: backfill_rel_def backfill_row_def row_changes_def row_ids_def row_count_def Let_def)
next
  case (Some b)
  obtain ch m where ch: "stateChangesFor H b (sm_miner sm) = (ch, m)" by (cases "stateChangesFor H b (sm_miner sm)")
  have m: "memo_ok H m" "ch = fst (stateChangesFor H b (miner0 0))"
    using stateChangesFor_memo[OF assms(2) memo_ok_miner0, of b 0] ch by auto
  show ?thesis
  proof (cases "row_changes H row = []")
    case True
    then have "ch = None \<or> ch = Some []" using Some m(2) by (auto simp: row_changes_def split: option.splits)
    then show ?thesis using True Some ch m(1) assms(1)
      by (auto simp: backfill_rel_def backfill_row_def row_ids_def row_count_def Let_def step_simps)
  next
    case False
    then have c: "ch = Some (row_changes H row)" using Some m(2) by (auto simp: row_changes_def split: option.splits)
    let ?d = "new_diff (getp b ''id'') (row_changes H row) now"
    let ?sm0 = "sm\<lparr>sm_miner := m\<rparr>"
    have ac: "apply_changes H (d_changes ?d) t = (True, vrun H (inserts (row_changes H row)) t)" for t
      using apply_changes_run[OF assms(3)] by (simp add: new_diff_def)
    have e: "backfill_row H now row (sm, out) = (snd (apply_diff H ?d ?sm0), row_count H row out)"
      using False Some ch c by (simp add: backfill_row_def row_count_def Let_def case_prod_beta step_simps ac[unfolded Some])
    show ?thesis using index_ok_apply[of ?sm0 H ?d] assms(1) False Some m(1) identity_now[of _ _ now 0]
      unfolding e backfill_rel_def by (simp add: step_simps ac[unfolded Some] row_ids_def index_ok_def)
  qed
qed

lemma backfill_fold_rel:
  assumes "index_ok (fst st)" "memo_ok H (sm_miner (fst st))" "list_all (\<lambda>row. entries_ok H K (row_changes H row)) rows"
  shows "backfill_rel H K rows st (fold (backfill_row H now) rows st)"
  using assms
proof (induction rows arbitrary: st)
  case Nil
  then show ?case by (simp add: backfill_rel_def)
next
  case (Cons row rows)
  have "backfill_rel H K [row] st (backfill_row H now row st)"
    using backfill_row_rel[of "fst st" H K row "snd st" now] Cons.prems by simp
  moreover from this have "backfill_rel H K rows (backfill_row H now row st) (fold (backfill_row H now) rows (backfill_row H now row st))"
    using Cons by (auto simp: backfill_rel_def)
  ultimately show ?case by (auto simp: backfill_rel_def)
qed

definition out0 :: backfill_out where
  "out0 = \<lparr>bo_scanned = 0, bo_applied = 0, bo_skipped = 0, bo_failed = 0\<rparr>"

lemma backfill_spec:
  fixes now :: int
  assumes "index_ok sm" "memo_ok H (sm_miner sm)" "list_all (\<lambda>row. entries_ok H K (row_changes H row)) rows"
  defines "ops \<equiv> inserts (concat (map (row_changes H) rows))"
  defines "res \<equiv> backfillFromLedger H now (Some rows) sm"
  shows "fst res = Some (fold (row_count H) rows out0, fst (getRoot H (vrun H ops (sm_tree sm))))"
    "sm_tree (snd res) = vrun H (ops @ [VRoot]) (sm_tree sm)" "index_ok (snd res)" "memo_ok H (sm_miner (snd res))"
    "set (diff_ids (snd res)) = set (diff_ids sm) \<union> \<Union> (row_ids H ` set rows)"
proof -
  define st where "st = fold (backfill_row H now) rows (sm, out0)"
  have b: "backfill_rel H K rows (sm, out0) st"
    unfolding st_def by (rule backfill_fold_rel) (use assms(1-3) in auto)
  have e: "res = (Some (snd st, fst (getRoot H (sm_tree (fst st)))), (fst st)\<lparr>sm_tree := snd (getRoot H (sm_tree (fst st)))\<rparr>)"
    unfolding res_def backfillFromLedger_def st_def out0_def by (simp add: case_prod_beta Let_def)
  show "fst res = Some (fold (row_count H) rows out0, fst (getRoot H (vrun H ops (sm_tree sm))))"
    "sm_tree (snd res) = vrun H (ops @ [VRoot]) (sm_tree sm)" "index_ok (snd res)" "memo_ok H (sm_miner (snd res))"
    "set (diff_ids (snd res)) = set (diff_ids sm) \<union> \<Union> (row_ids H ` set rows)"
    using b unfolding e ops_def backfill_rel_def by (simp_all add: index_ok_def)
qed

lemma rows_entries_ok:
  "list_all (\<lambda>row. entries_ok H K (row_changes H row)) rows \<Longrightarrow> entries_ok H K (concat (map (row_changes H) rows))"
  by (induction rows) simp_all

lemma backfill_twice:
  fixes now now' :: int
  assumes "digest H" "inj_on H K" "vinv H K (sm_tree sm)" "index_ok sm" "memo_ok H (sm_miner sm)"
    "list_all (\<lambda>row. entries_ok H K (row_changes H row)) rows"
  defines "once \<equiv> backfillFromLedger H now (Some rows) sm"
  defines "twice \<equiv> backfillFromLedger H now' (Some rows) (snd once)"
  shows "fst twice = fst once \<and> length (sm_diffs (snd twice)) = length (sm_diffs (snd once))"
proof -
  let ?ops = "inserts (concat (map (row_changes H) rows))"
  note a = backfill_spec[OF assms(4,5,6), of now, folded once_def]
  note b = backfill_spec[OF a(3,4) assms(6), of now', folded twice_def]
  have ok: "\<forall>op \<in> set ?ops. op_ok H K op" using rows_entries_ok[OF assms(6)] by (simp add: inserts_ok)
  have v: "vinv H K (vrun H ?ops (sm_tree sm))" by (rule vinv_run[OF assms(1,2,3) ok])
  have "vinv H K (sm_tree (snd once))" unfolding a(2) using v by (simp add: vinv_getRoot)
  then have v2: "vinv H K (vrun H ?ops (sm_tree (snd once)))" by (rule vinv_run[OF assms(1,2) _ ok])
  have "fst (getRoot H (vrun H ?ops (sm_tree (snd once)))) = fst (getRoot H (vrun H ?ops (sm_tree sm)))"
    by (rule root_of_map[OF assms(1,2) v2 v]) (simp add: vrun_spec a(2) vspec_inserts step_simps map_add_assoc[symmetric] del: map_add_assoc)
  moreover have "length (sm_diffs (snd twice)) = length (sm_diffs (snd once))"
  proof -
    have "set (diff_ids (snd twice)) = set (diff_ids (snd once))" using a(5) b(5) by auto
    moreover have "distinct (diff_ids (snd twice))" "distinct (diff_ids (snd once))"
      using a(3) b(3) by (simp_all add: index_ok_def)
    ultimately show ?thesis by (metis distinct_card length_map)
  qed
  ultimately show ?thesis using a(1) b(1) by simp
qed

section \<open>The canonical rebuild\<close>

definition canonical_entries :: "jsval \<Rightarrow> (string \<times> jsval) list" where
  "canonical_entries anchors = map anchor_entry (filter anchor_named (array_items anchors))"

definition anchor_ids :: "(string \<times> jsval) list \<Rightarrow> jsval set" where
  "anchor_ids es = JStr ` fst ` set es"

lemma rebuild_fold:
  assumes "entries_ok H K (map anchor_entry (filter anchor_named as))" "index_ok sm"
  shows "\<exists>sm'. fold (rebuild_anchor H now) as (sm, a, s) = (sm', a + length (filter anchor_named as), s + length (filter (\<lambda>x. \<not> anchor_named x) as))
    \<and> sm_tree sm' = vrun H (inserts (map anchor_entry (filter anchor_named as))) (sm_tree sm)
    \<and> index_ok sm' \<and> set (diff_ids sm') = set (diff_ids sm) \<union> anchor_ids (map anchor_entry (filter anchor_named as))"
  using assms
proof (induction as arbitrary: sm a s)
  case Nil
  then show ?case by (simp add: anchor_ids_def)
next
  case (Cons x as)
  obtain k v where kv: "anchor_entry x = (k, v)" by (cases "anchor_entry x")
  show ?case
  proof (cases "anchor_named x")
    case False
    then show ?thesis using Cons.IH[of sm a "Suc s"] Cons.prems kv by (simp add: rebuild_anchor_def)
  next
    case True
    obtain ok t where t: "vinsert H k v (sm_tree sm) = (ok, t)" by (cases "vinsert H k v (sm_tree sm)")
    have ok: "ok" "entries_ok H K (map anchor_entry (filter anchor_named as))"
      using vinsert_ok[of H k v "sm_tree sm"] t Cons.prems(1) True kv by auto
    let ?d = "new_diff (JStr k) [(k, v)] now"
    let ?sm1 = "saveDiff ?d (snd (recordDiff ?d (sm\<lparr>sm_tree := t\<rparr>)))"
    have id: "diff_identity ?d = JStr k" by (simp add: diff_identity_def new_diff_def)
    have i: "index_ok ?sm1" "set (diff_ids ?sm1) = insert (JStr k) (set (diff_ids sm))" "sm_tree ?sm1 = t"
      using recordDiff_spec[of "sm\<lparr>sm_tree := t\<rparr>" ?d] Cons.prems(2) id by (simp_all add: step_simps)
    have "rebuild_anchor H now x (sm, a, s) = (?sm1, Suc a, s)"
      using True kv t ok(1) by (simp add: rebuild_anchor_def Let_def)
    then show ?thesis using Cons.IH[OF ok(2) i(1), of "Suc a" s] i True kv t by (auto simp: anchor_ids_def)
  qed
qed

lemma rebuild_spec:
  fixes now :: int and sm :: smachine
  assumes "entries_ok H K (canonical_entries anchors)"
  defines "res \<equiv> rebuildFromCanonical H now anchors sm"
  defines "es \<equiv> canonical_entries anchors"
  shows "fst res = (length (array_items anchors), length es, length (array_items anchors) - length es,
      fst (getRoot H (vrun H (VClear # inserts es) (sm_tree sm))))"
    "sm_tree (snd res) = vrun H (VClear # inserts es @ [VRoot]) (sm_tree sm)"
    "length (sm_diffs (snd res)) = card (fst ` set es)" "set (diff_ids (snd res)) = anchor_ids es"
    "index_ok (snd res)"
proof -
  let ?sm0 = "sm\<lparr>sm_tree := vclear (sm_tree sm), sm_diffs := [], sm_index := [], sm_rows := map_option clear_diff_rows (sm_rows sm)\<rparr>"
  obtain sm' where sm': "fold (rebuild_anchor H now) (array_items anchors) (?sm0, 0, 0)
      = (sm', length es, length (filter (\<lambda>x. \<not> anchor_named x) (array_items anchors)))"
    "sm_tree sm' = vrun H (inserts es) (vclear (sm_tree sm))" "index_ok sm'" "set (diff_ids sm') = anchor_ids es"
    using rebuild_fold[OF assms(1)[unfolded canonical_entries_def], of ?sm0 now 0 0] index_ok_empty[of ?sm0]
    unfolding es_def canonical_entries_def by auto
  have len: "length (filter (\<lambda>x. \<not> anchor_named x) xs) = length xs - length (filter anchor_named xs)" for xs
    using sum_length_filter_compl[of anchor_named xs] by simp
  have e: "res = ((length (array_items anchors), length es, length (array_items anchors) - length es, fst (getRoot H (sm_tree sm'))),
      sm'\<lparr>sm_tree := snd (getRoot H (sm_tree sm'))\<rparr>)"
    unfolding res_def rebuildFromCanonical_def using sm'(1) len[of "array_items anchors"]
    by (simp add: Let_def case_prod_beta es_def canonical_entries_def)
  show "fst res = (length (array_items anchors), length es, length (array_items anchors) - length es,
      fst (getRoot H (vrun H (VClear # inserts es) (sm_tree sm))))"
    "sm_tree (snd res) = vrun H (VClear # inserts es @ [VRoot]) (sm_tree sm)"
    unfolding e using sm'(2) by simp_all
  have "card (set (diff_ids sm')) = length (sm_diffs sm')"
    using sm'(3) distinct_card[of "diff_ids sm'"] by (simp add: index_ok_def)
  moreover have "card (anchor_ids es) = card (fst ` set es)"
    unfolding anchor_ids_def by (rule card_image) (simp add: inj_on_def)
  ultimately show "length (sm_diffs (snd res)) = card (fst ` set es)" unfolding e sm'(4) by simp
  show "set (diff_ids (snd res)) = anchor_ids es" "index_ok (snd res)" unfolding e using sm'(3,4) by (simp_all add: step_simps)
qed

lemma vinv_vclear_run:
  "digest H \<Longrightarrow> inj_on H K \<Longrightarrow> entries_ok H K es \<Longrightarrow> vinv H K (vrun H (VClear # inserts es) t)"
  using vinv_run[of H K "vclear t" "inserts es"] by (simp add: vinv_clear inserts_ok)

lemma vclear_state: "vstate (vclear t) = []"
  by (simp add: vclear_def)

text \<open>Which order the anchors come in matters only for a name given with different times.\<close>

lemma entries_any_order:
  "set es = set es' \<Longrightarrow> single_valued (set es) \<Longrightarrow> map_of (rev es) = map_of (rev es')"
  by (rule ext, rule option.expand, metis map_of_rev_sv not_None_eq) (metis map_of_rev_sv option.collapse)

text \<open>C5: A canonical rebuild forgets what the node held: two nodes, whatever their trees, diffs and stores
  were, that rebuild from anchor lists giving every anchor name (event and hash) the same last time
  report the same root and hold exactly that map, and each records one diff for every anchor name it was
  given and no other. Where a list gives no name two times, its order and repetitions do not matter.
  Conditions: the keys' digests do not collide and the times can be hashed.\<close>

theorem canonical_rebuild_converges:
  assumes "digest H" "inj_on H K" "entries_ok H K (canonical_entries A)" "entries_ok H K (canonical_entries B)"
    "map_of (rev (canonical_entries A)) = map_of (rev (canonical_entries B)) \<or>
     set (canonical_entries A) = set (canonical_entries B) \<and> single_valued (set (canonical_entries A))"
  shows "fst (getStateRoot H (snd (rebuildFromCanonical H now A sm))) = fst (getStateRoot H (snd (rebuildFromCanonical H now' B sm'))) \<and>
    jget (vstate (sm_tree (snd (rebuildFromCanonical H now A sm)))) = map_of (rev (canonical_entries A)) \<and>
    jget (vstate (sm_tree (snd (rebuildFromCanonical H now' B sm')))) = map_of (rev (canonical_entries A)) \<and>
    distinct (map diff_identity (sm_diffs (snd (rebuildFromCanonical H now A sm)))) \<and>
    set (map diff_identity (sm_diffs (snd (rebuildFromCanonical H now A sm)))) = JStr ` fst ` set (canonical_entries A) \<and>
    length (sm_diffs (snd (rebuildFromCanonical H now A sm))) = card (fst ` set (canonical_entries A)) \<and>
    length (sm_diffs (snd (rebuildFromCanonical H now A sm))) = length (sm_diffs (snd (rebuildFromCanonical H now' B sm')))"
proof -
  note a = rebuild_spec[OF assms(3), of now sm] and b = rebuild_spec[OF assms(4), of now' sm']
  have v: "vinv H K (vrun H (VClear # inserts (canonical_entries A) @ [VRoot]) (sm_tree sm))"
    "vinv H K (vrun H (VClear # inserts (canonical_entries B) @ [VRoot]) (sm_tree sm'))"
    using vinv_vclear_run[OF assms(1,2,3)] vinv_vclear_run[OF assms(1,2,4)] by (simp_all add: vinv_getRoot)
  have e: "map_of (rev (canonical_entries A)) = map_of (rev (canonical_entries B))"
    using assms(5) entries_any_order by blast
  have held: "jget (vstate (sm_tree (snd (rebuildFromCanonical H now A sm)))) = map_of (rev (canonical_entries A))"
    "jget (vstate (sm_tree (snd (rebuildFromCanonical H now' B sm')))) = map_of (rev (canonical_entries A))"
    unfolding a(2) b(2) using e by (simp_all add: vrun_spec vspec_inserts step_simps vclear_state)
  have root: "fst (getRoot H (sm_tree (snd (rebuildFromCanonical H now A sm))))
      = fst (getRoot H (sm_tree (snd (rebuildFromCanonical H now' B sm'))))"
    using held v by (intro root_of_map[OF assms(1,2)]) (simp_all only: a(2) b(2))
  have "fst ` set (canonical_entries A) = fst ` set (canonical_entries B)"
    using arg_cong[OF e, of dom] by (simp add: dom_map_of_conv_image_fst)
  then show ?thesis using root held a(3-5) b(3) by (simp add: getStateRoot_def case_prod_beta index_ok_def anchor_ids_def)
qed

section \<open>A restart after a rebuild\<close>

definition anchor_row :: "int \<Rightarrow> string \<times> jsval \<Rightarrow> jsval" where
  "anchor_row now kv = JObj [(''txId'', JStr (fst kv)), (''timestamp'', JInt now), (''changes'', JObj [(fst kv, json_norm (snd kv))])]"

definition put_anchor :: "int \<Rightarrow> string \<times> jsval \<Rightarrow> (string, jsval) jmap \<Rightarrow> (string, jsval) jmap" where
  "put_anchor now kv rows = jset rows (fst kv) (anchor_row now kv)"

lemma anchor_diff_row:
  assumes "valueHashOf H (snd (anchor_entry a)) \<noteq> None"
  shows "diff_serialize (new_diff (JStr (fst (anchor_entry a))) [anchor_entry a] now) = Some (anchor_row now (anchor_entry a))"
proof -
  obtain k ts where kv: "anchor_entry a = (k, JObj [(''ts'', ts)])" by (simp add: anchor_entry_def)
  then have "jstr (JObj [(''ts'', ts)]) \<noteq> None" using assms by (auto simp: valueHashOf_def json_stringify_def)
  then show ?thesis unfolding kv
    by (auto simp: diff_serialize_def new_diff_def anchor_row_def json_stringify_def Let_def split: option.splits if_splits)
qed

lemma rebuild_rows:
  assumes "entries_ok H K (map anchor_entry (filter anchor_named as))"
  shows "sm_rows (fst (fold (rebuild_anchor H now) as st))
    = map_option (fold (put_anchor now) (map anchor_entry (filter anchor_named as))) (sm_rows (fst st))"
  using assms
proof (induction as arbitrary: st)
  case Nil
  then show ?case by (simp add: option.map_id0[unfolded id_def])
next
  case (Cons x as)
  obtain sm a s where st: "st = (sm, a, s)" by (cases st) auto
  obtain k v where kv: "anchor_entry x = (k, v)" by (cases "anchor_entry x")
  show ?case
  proof (cases "anchor_named x")
    case False
    then show ?thesis using Cons kv st by (simp add: rebuild_anchor_def)
  next
    case True
    obtain ok t where t: "vinsert H k v (sm_tree sm) = (ok, t)" by (cases "vinsert H k v (sm_tree sm)")
    have ok: "ok" "valueHashOf H v \<noteq> None" "entries_ok H K (map anchor_entry (filter anchor_named as))"
      using vinsert_ok[of H k v "sm_tree sm"] t Cons.prems(1) True kv by auto
    have r: "diff_serialize (new_diff (JStr k) [(k, v)] now) = Some (anchor_row now (k, v))"
      using anchor_diff_row[of H x now] ok(2) kv by simp
    have key: "diffKey (new_diff (JStr k) [(k, v)] now) = k" by (simp add: diffKey_def diff_identity_def new_diff_def)
    have "sm_rows (fst (rebuild_anchor H now x st)) = map_option (put_anchor now (k, v)) (sm_rows sm)"
      using True kv st t ok(1) r key
      by (simp add: rebuild_anchor_def saveDiff_def put_anchor_def step_simps Let_def split: option.split)
    then show ?thesis using Cons.IH[OF ok(3), of "rebuild_anchor H now x st"] True kv st
      by (simp add: option.map_comp comp_def)
  qed
qed

definition clean_rows :: "(string \<times> jsval) list \<Rightarrow> bool" where
  "clean_rows krs \<longleftrightarrow> list_all (\<lambda>(k, r). diff_identity (diff_of_row r) = JStr k) krs"

lemma recordDiff_fresh:
  "index_ok sm \<Longrightarrow> diff_identity d \<notin> set (diff_ids sm) \<Longrightarrow>
    fst (recordDiff d sm) \<and> diff_ids (snd (recordDiff d sm)) = diff_ids sm @ [diff_identity d]"
  using positions_None[of "diff_ids sm" "diff_identity d"] by (simp add: recordDiff_def index_ok_def)

lemma sweep_clean:
  assumes "clean_rows krs" "distinct (map fst krs)" "index_ok sm" "(JStr ` fst ` set krs) \<inter> set (diff_ids sm) = {}"
  shows "diff_ids (fst (fold sweep_diff_row krs (sm, l))) = diff_ids sm @ map (\<lambda>kr. JStr (fst kr)) krs
    \<and> sm_tree (fst (fold sweep_diff_row krs (sm, l))) = sm_tree sm \<and> (krs = [] \<longleftrightarrow> fold sweep_diff_row krs (sm, l) = (sm, l))"
  using assms
proof (induction krs arbitrary: sm l)
  case (Cons kr krs)
  obtain k r where kr: "kr = (k, r)" by (cases kr)
  let ?d = "diff_of_row r"
  have id: "diff_identity ?d = JStr k" "clean_rows krs" using Cons.prems(1) kr by (simp_all add: clean_rows_def)
  have f: "fst (recordDiff ?d sm)" "diff_ids (snd (recordDiff ?d sm)) = diff_ids sm @ [JStr k]"
    using recordDiff_fresh[OF Cons.prems(3), of ?d] id(1) Cons.prems(4) kr by auto
  have e: "sweep_diff_row kr (sm, l) = (snd (recordDiff ?d sm), l @ [?d])"
    using f(1) id(1) kr by (simp add: sweep_diff_row_def diffKey_def Let_def case_prod_beta)
  have i: "index_ok (snd (recordDiff ?d sm))" using recordDiff_spec[OF Cons.prems(3)] by simp
  have "(JStr ` fst ` set krs) \<inter> set (diff_ids (snd (recordDiff ?d sm))) = {}"
    using Cons.prems(2,4) f(2) kr by auto
  note ih = Cons.IH[OF id(2) _ i this, of "l @ [?d]"]
  then have d: "diff_ids (fst (fold sweep_diff_row (kr # krs) (sm, l))) = diff_ids sm @ map (\<lambda>kr. JStr (fst kr)) (kr # krs)"
    using Cons.prems(2) f(2) kr e by simp
  then have "fold sweep_diff_row (kr # krs) (sm, l) \<noteq> (sm, l)" by (metis append_self_conv fst_conv list.distinct(1) list.map_disc_iff)
  then show ?case using d ih Cons.prems(2) e kr by (simp add: step_simps)
qed simp

lemma clean_rows_set: "clean_rows krs \<longleftrightarrow> (\<forall>(k, r) \<in> set krs. diff_identity (diff_of_row r) = JStr k)"
  by (simp add: clean_rows_def list_all_iff)

lemma anchor_row_identity: "diff_identity (diff_of_row (anchor_row now (k, v))) = JStr k"
  by (simp add: diff_identity_def diff_of_row_def anchor_row_def)

definition in_range :: "string \<Rightarrow> bool" where
  "in_range k \<longleftrightarrow> [] < k \<and> k < [CHR 0xFF]"

lemma anchor_key_in_range: "in_range (fst (anchor_entry a))"
  by (simp add: in_range_def anchor_entry_def less_char_def)

lemma put_anchors:
  "jmap_ok rows \<Longrightarrow> jmap_ok (fold (put_anchor now) es rows) \<and>
     set (jkeys (fold (put_anchor now) es rows)) = set (jkeys rows) \<union> fst ` set es \<and>
     (\<forall>k r. (k, r) \<in> set (fold (put_anchor now) es rows) \<longrightarrow>
       (k, r) \<in> set rows \<and> k \<notin> fst ` set es \<or> (\<exists>v. r = anchor_row now (k, v)))"
proof (induction es arbitrary: rows)
  case (Cons e es)
  have ok: "jmap_ok (put_anchor now e rows)" using Cons.prems by (simp add: put_anchor_def wf_intros)
  have keys: "set (jkeys (put_anchor now e rows)) = insert (fst e) (set (jkeys rows))" by (simp only: put_anchor_def jset_keys)
  have new: "set (put_anchor now e rows) = insert (fst e, anchor_row now e) {p \<in> set rows. fst p \<noteq> fst e}"
    unfolding put_anchor_def by (rule jset_set[OF Cons.prems])
  have "(k, r) \<in> set rows \<and> k \<noteq> fst e \<or> (\<exists>v. r = anchor_row now (k, v))" if "(k, r) \<in> set (put_anchor now e rows)" for k r
    using that unfolding new by (cases e) auto
  then have "(k, r) \<in> set rows \<and> k \<notin> fst ` set (e # es) \<or> (\<exists>v. r = anchor_row now (k, v))"
    if "(k, r) \<in> set (fold (put_anchor now) es (put_anchor now e rows))" for k r
    using Cons.IH[OF ok] that by (simp only: list.set image_insert insert_iff de_Morgan_disj) blast
  then show ?case using Cons.IH[OF ok] unfolding keys by simp
qed (simp)

lemma snapshot_after_rebuild:
  fixes now :: int
  assumes "jmap_ok rows" "list_all in_range (map fst es)"
  defines "krs \<equiv> diff_snapshot (fold (put_anchor now) es (clear_diff_rows rows))"
  shows "clean_rows krs" "distinct (map fst krs)" "fst ` set krs = fst ` set es"
proof -
  let ?rows = "fold (put_anchor now) es (clear_diff_rows rows)"
  have "jmap_ok (clear_diff_rows rows)" using assms(1) by (simp add: clear_diff_rows_def jmap_ok_def distinct_map_filter)
  note p = put_anchors[OF this, of now es]
  have s: "set krs = {kr \<in> set ?rows. in_range (fst kr)}" unfolding krs_def by (auto simp: diff_snapshot_def in_range_def)
  have c: "\<not> in_range k" if "(k, r) \<in> set (clear_diff_rows rows)" for k r
    using that by (auto simp: clear_diff_rows_def in_range_def)
  show "clean_rows krs" unfolding clean_rows_set s
  proof safe
    fix k r assume k: "(k, r) \<in> set ?rows" "in_range (fst (k, r))"
    then obtain v where "r = anchor_row now (k, v)" using p c[of k r] by (metis fst_conv)
    then show "diff_identity (diff_of_row r) = JStr k" by (simp add: anchor_row_identity)
  qed
  show "distinct (map fst krs)" unfolding krs_def diff_snapshot_def
    using p by (simp add: distinct_map_filter distinct_map_sort_key jmap_ok_def)
  have "fst ` set krs = {k \<in> set (jkeys ?rows). in_range k}" unfolding s by auto
  also have "\<dots> = fst ` set es"
    using p assms(2) c by (auto simp: list_all_iff)
  finally show "fst ` set krs = fst ` set es" .
qed

lemma reopen_state_empty:
  assumes "disk_ok t" "vdisk t \<noteq> None" "\<forall>k \<in> set (jkeys (vstate t)). state_iterated k"
  shows "vstate (reopen H t) = [] \<longleftrightarrow> vstate t = []"
proof -
  have that: "jget (vstate t) k = Some v \<Longrightarrow> state_iterated k" for k v
    using assms(3) jget_in by fastforce
  have "jget (vstate (reopen H t)) k = None \<longleftrightarrow> jget (vstate t) k = None" for k
    using reopen_lookup[OF assms(1,2), of H k] that by (cases "jget (vstate t) k") (auto split: if_splits)
  moreover have "m = [] \<longleftrightarrow> jget m = Map.empty" for m :: "(string, jsval) jmap" by simp
  ultimately show ?thesis by (simp add: fun_eq_iff del: map_of_eq_empty_iff empty_eq_map_of_iff)
qed

lemma anchor_key_iterated: "state_iterated (fst (anchor_entry a))"
  by (simp add: state_iterated_def anchor_entry_def)

lemma diff_snapshot_clear: "diff_snapshot (clear_diff_rows rows) = []"
  by (auto simp: diff_snapshot_def clear_diff_rows_def filter_empty_conv)

lemma reboot_diffs:
  assumes "sm_rows sm = Some rows" "clean_rows (diff_snapshot rows)" "distinct (map fst (diff_snapshot rows))"
    "vstate (reopen H (sm_tree sm)) = [] \<longrightarrow> diff_snapshot rows = []"
  shows "sm_tree (reboot H coll n m sm) = reopen H (sm_tree sm) \<and> length (sm_diffs (reboot H coll n m sm)) = length (diff_snapshot rows)"
proof -
  let ?sm0 = "(new_machine n m)\<lparr>sm_tree := reopen H (sm_tree sm), sm_rows := sm_rows sm, sm_logrow := sm_logrow sm\<rparr>"
  have i: "index_ok ?sm0" "set (diff_ids ?sm0) = {}" by (simp_all add: new_machine_def index_ok_empty)
  note s = sweep_clean[OF assms(2,3) i(1), of "[]"]
  have s1: "diff_ids (fst (fold sweep_diff_row (diff_snapshot rows) (?sm0, []))) = map (\<lambda>kr. JStr (fst kr)) (diff_snapshot rows)"
    "sm_tree (fst (fold sweep_diff_row (diff_snapshot rows) (?sm0, []))) = reopen H (sm_tree sm)"
    using s i(2) by (simp_all add: new_machine_def)
  have l: "loadDiffs H coll ?sm0 = fst (fold sweep_diff_row (diff_snapshot rows) (?sm0, []))"
  proof (cases "vstate (reopen H (sm_tree sm)) = []")
    case True
    then have "diff_snapshot rows = []" using assms(4) by blast
    then show ?thesis using assms(1) by (simp add: loadDiffs_def)
  next
    case False
    then show ?thesis using assms(1) s1(2) by (simp add: loadDiffs_def case_prod_beta Let_def)
  qed
  have "sm_diffs (reboot H coll n m sm) = sm_diffs (loadDiffs H coll ?sm0) \<and> sm_tree (reboot H coll n m sm) = sm_tree (loadDiffs H coll ?sm0)"
    by (auto simp: reboot_def sm_initDb_def loadTransactionLog_def reopen_def new_machine_def split: option.split jsval.split)
  moreover have "length (sm_diffs (fst (fold sweep_diff_row (diff_snapshot rows) (?sm0, [])))) = length (diff_snapshot rows)"
    using s1(1) by (metis length_map)
  ultimately show ?thesis using s1(2) l by simp
qed

lemma vclear_disk: "vdisk t \<noteq> None \<Longrightarrow> disk_ok (vclear t) \<and> vdisk (vclear t) \<noteq> None"
  by (rule conjI[OF vclear_disk_ok]) (simp add: vclear_def)

text \<open>C6: The canonical state survives a restart: a process started on the store a rebuilt node leaves has
  the root the node adopted and the same applied count, and replays no diff of the dropped past.\<close>

theorem canonical_rebuild_survives_restart:
  assumes "digest H" "inj_on H K" "entries_ok H K (canonical_entries A)"
    "sm_rows sm = Some rows" "jmap_ok rows" "vdisk (sm_tree sm) \<noteq> None"
  shows "fst (getStateRoot H (reboot H coll n m (snd (rebuildFromCanonical H now A sm))))
      = fst (getStateRoot H (snd (rebuildFromCanonical H now A sm))) \<and>
    length (sm_diffs (reboot H coll n m (snd (rebuildFromCanonical H now A sm))))
      = length (sm_diffs (snd (rebuildFromCanonical H now A sm)))"
proof -
  define es where "es = canonical_entries A"
  define sm2 where "sm2 = snd (rebuildFromCanonical H now A sm)"
  define rows2 where "rows2 = fold (put_anchor now) es (clear_diff_rows rows)"
  note sp = rebuild_spec[OF assms(3), of now sm, folded sm2_def es_def]
  let ?ops = "inserts es @ [VRoot]"
  have tree: "sm_tree sm2 = vrun H ?ops (vclear (sm_tree sm))" using sp(2) by simp
  have ok: "\<forall>op \<in> set ?ops. op_ok H K op" using assms(3) unfolding es_def by (auto simp: inserts_ok op_ok_def)
  have v: "vinv H K (sm_tree sm2)" unfolding tree by (rule vinv_run[OF assms(1,2) vinv_clear ok])
  have d: "disk_ok (sm_tree sm2)" "vdisk (sm_tree sm2) \<noteq> None"
    unfolding tree using disk_ok_run[OF assms(1,2) vinv_clear _ ok] disk_open_run[of "vclear (sm_tree sm)" H ?ops] vclear_disk[OF assms(6)] by blast+
  have r2: "sm_rows sm2 = Some rows2"
    unfolding sm2_def rebuildFromCanonical_def rows2_def es_def canonical_entries_def
    using rebuild_rows[OF assms(3)[unfolded canonical_entries_def], of now] assms(4)
    by (simp add: Let_def case_prod_beta)
  have range: "list_all in_range (map fst es)"
    unfolding es_def canonical_entries_def by (auto simp: list_all_iff anchor_key_in_range)
  note snap = snapshot_after_rebuild[OF assms(5) range, of now, folded rows2_def]
  have held: "jget (vstate (sm_tree sm2)) = map_of (rev es)"
    unfolding tree by (simp add: vrun_spec vspec_inserts step_simps vclear_state)
  have it: "\<forall>k \<in> set (jkeys (vstate (sm_tree sm2))). state_iterated k"
    using arg_cong[OF held, of dom] anchor_key_iterated
    by (auto simp: dom_map_of_conv_image_fst es_def canonical_entries_def)
  have "vstate (reopen H (sm_tree sm2)) = [] \<longrightarrow> diff_snapshot rows2 = []"
  proof
    assume "vstate (reopen H (sm_tree sm2)) = []"
    then have "jget (vstate (sm_tree sm2)) = Map.empty" using reopen_state_empty[OF d it] by simp
    then have "es = []" using held by simp
    then show "diff_snapshot rows2 = []" by (simp add: rows2_def diff_snapshot_clear)
  qed
  note rb = reboot_diffs[OF r2 snap(1,2) this, of coll n m]
  have "fst (getRoot H (reopen H (sm_tree sm2))) = fst (getRoot H (sm_tree sm2))"
    using reopen_root[OF assms(1,2) v d] getRoot_committed[OF assms(1,2) v] reloaded_all[OF it] by simp
  moreover have "length (diff_snapshot rows2) = card (fst ` set es)"
    using snap(2,3) distinct_card[of "map fst (diff_snapshot rows2)"] by simp
  ultimately show ?thesis using rb sp(3) unfolding sm2_def[symmetric] by (simp add: getStateRoot_def case_prod_beta)
qed

text \<open>C9: From a fresh start or over any store, whatever the handlers did (blocks, backfills, canonical rebuilds,
  forgetting, cube commitments, proofs, statistics, root and state reads), no two recorded diffs have the
  same identity and each identity is found at its place, so the applied count counts state changes and
  not the times they arrived; the run's reads of the latest state must have found the diffs in time order,
  since such a read sorts the machine's own array and leaves the index behind.\<close>

theorem diff_index_exact:
  assumes "reads_in_order H ops (reboot H coll n m sm)"
  shows "distinct (map diff_identity (sm_diffs (fold (sm_step H) ops (reboot H coll n m sm)))) \<and>
   jget (sm_index (fold (sm_step H) ops (reboot H coll n m sm)))
     = positions (map diff_identity (sm_diffs (fold (sm_step H) ops (reboot H coll n m sm))))"
  using index_ok_run[OF index_ok_reboot assms] by (simp add: index_ok_def)

text \<open>C8: Backfilling from the ledger twice reports the second time what it reported the first (counts and
  root) and leaves the same number of diffs, whatever the blocks on disk are and in whatever state the
  miner's memo is (for values that hash and keys whose digests do not collide).\<close>

theorem backfill_idempotent:
  assumes "digest H" "inj_on H K" "vinv H K (sm_tree sm)" "index_ok sm" "memo_ok H (sm_miner sm)"
    "list_all (\<lambda>row. entries_ok H K (row_changes H row)) rows"
  shows "fst (backfillFromLedger H now' (Some rows) (snd (backfillFromLedger H now (Some rows) sm)))
      = fst (backfillFromLedger H now (Some rows) sm) \<and>
    length (sm_diffs (snd (backfillFromLedger H now' (Some rows) (snd (backfillFromLedger H now (Some rows) sm)))))
      = length (sm_diffs (snd (backfillFromLedger H now (Some rows) sm)))"
  using backfill_twice[OF assms] by blast

section \<open>Namespaces\<close>

definition type_space :: "(string \<times> string) list" where
  "type_space = [(''anchor'', ''anchor''), (''tx'', ''tx''), (''utxo'', ''utxo''), (''identity'', ''identity''),
     (''token_creation'', ''token''), (''contract'', ''contract'')]"

definition key_space :: "string \<Rightarrow> string option" where
  "key_space k = (if CHR '':'' \<in> set k then Some (takeWhile (\<lambda>c. c \<noteq> CHR '':'') k) else None)"

definition space_of :: "jsval \<Rightarrow> string option" where
  "space_of ty = (case ty of JStr s \<Rightarrow> jget type_space s | _ \<Rightarrow> None)"

lemma datum_key_plain: "datum_key k = Some ty \<Longrightarrow> key_space k = None"
proof -
  assume d: "datum_key k = Some ty"
  let ?n = "drop 65 k"
  have c: "66 \<le> length k" "xid_re (take 64 k)" "k ! 64 = CHR ''_''" "all_digits ?n"
    using d by (auto simp: datum_key_def Let_def split: if_splits)
  have "k = take 64 k @ k ! 64 # ?n"
    using id_take_nth_drop[of 64 k] c(1) by simp
  then have s: "set k = set (take 64 k) \<union> insert (k ! 64) (set ?n)" by (metis list.set(2) set_append)
  have hex: "\<not> is_hex (CHR '':'')" "\<not> is_digit (CHR '':'')" by (simp_all add: is_hex_def is_digit_def)
  have "CHR '':'' \<notin> set (take 64 k)" using c(2) hex(1) unfolding xid_re_def by blast
  moreover have "CHR '':'' \<notin> set ?n" using c(4) hex(2) unfolding all_digits_def by blast
  ultimately have "CHR '':'' \<notin> set k" unfolding s c(3) by simp
  then show ?thesis by (simp add: key_space_def)
qed

lemma diff_writes_plain: "diff_writes H kvs m = (Inr ws, m') \<Longrightarrow> list_all (\<lambda>k. key_space k = None) (jkeys ws)"
proof (induction kvs arbitrary: m ws)
  case (Cons p kvs)
  obtain k v where p: "p = (k, v)" by (cases p)
  obtain w m1 ws' where w: "diff_write H k v m = (Inr w, m1)" "diff_writes H kvs m1 = (Inr ws', m')" "ws = (k, w) # ws'"
    using Cons.prems p by (auto split: prod.splits sum.splits)
  have "\<exists>ty. datum_key k = Some ty" using w(1) by (auto simp: diff_write_def split: option.splits)
  then show ?case using Cons.IH[OF w(2)] w(3) datum_key_plain by auto
qed simp

lemma state_diff_plain: "stateDiffWrites H tx m = (Inr ws, m') \<Longrightarrow> list_all (\<lambda>k. key_space k = None) (jkeys ws)"
proof -
  assume s: "stateDiffWrites H tx m = (Inr ws, m')"
  show ?thesis
  proof (cases "truthy (getp tx ''contractAddress'')")
    case True
    then have "find (\<lambda>k. k \<notin> set (receipt_args (getp tx ''function''))) (jkeys ws) = None"
      using s by (auto simp: stateDiffWrites_def Let_def split: if_splits option.splits)
    moreover have "key_space k = None" if "k \<in> set (receipt_args f)" for k f
      using that by (auto simp: receipt_args_def key_space_def split: if_splits)
    ultimately show ?thesis by (auto simp: find_None_iff list_all_iff)
  next
    case False
    then show ?thesis using s diff_writes_plain by (auto simp: stateDiffWrites_def Let_def split: if_splits)
  qed
qed

lemma changes_space:
  assumes "stateChangesFor H b m = (Some kvs, m')"
  shows "\<exists>s. getp (getp b ''tx'') ''type'' = JStr s \<and> s \<in> set (''state_diff'' # map fst type_space)"
    "list_all (\<lambda>k. key_space k = space_of (getp (getp b ''tx'') ''type'')) (jkeys kvs)"
proof -
  obtain s where s: "getp (getp b ''tx'') ''type'' = JStr s"
    using assms by (cases "getp (getp b ''tx'') ''type''") (auto simp: stateChangesFor_def Let_def split: if_splits)
  note e = assms[unfolded stateChangesFor_def Let_def s]
  show "\<exists>s. getp (getp b ''tx'') ''type'' = JStr s \<and> s \<in> set (''state_diff'' # map fst type_space)"
    using e s by (auto simp: type_space_def split: if_splits)
  show "list_all (\<lambda>k. key_space k = space_of (getp (getp b ''tx'') ''type'')) (jkeys kvs)"
  proof (cases "s = ''state_diff''")
    case True
    then have "\<exists>m'. stateDiffWrites H (getp b ''tx'') m = (Inr kvs, m')" using e by (auto split: if_splits prod.splits sum.splits)
    moreover have "space_of (getp (getp b ''tx'') ''type'') = None" using s True by (simp add: space_of_def type_space_def)
    ultimately show ?thesis using state_diff_plain by auto
  next
    case False
    then show ?thesis using e unfolding s
      by (simp add: space_of_def type_space_def key_space_def split: if_split_asm; auto)
  qed
qed

lemma space_of_inj:
  assumes "s \<in> set (''state_diff'' # map fst type_space)" "s' \<in> set (''state_diff'' # map fst type_space)" "s \<noteq> s'"
  shows "space_of (JStr s) \<noteq> space_of (JStr s')"
proof -
  have d: "distinct (map (\<lambda>s. space_of (JStr s)) (''state_diff'' # map fst type_space))"
    by (simp add: space_of_def type_space_def)
  show ?thesis
    using inj_onD[OF conjunct2[OF d[unfolded distinct_map]]] assms by blast
qed

text \<open>C10: Keys are namespaced by type: blocks whose transactions have different types never write the same
  key, so no transaction can overwrite the state another type asserted.\<close>

theorem types_never_share_a_key:
  assumes "stateChangesFor H b m = (Some kvs, m1)" "stateChangesFor H b' m' = (Some kvs', m1')"
    "getp (getp b ''tx'') ''type'' \<noteq> getp (getp b' ''tx'') ''type''"
  shows "set (jkeys kvs) \<inter> set (jkeys kvs') = {}"
proof -
  obtain s s' where s: "getp (getp b ''tx'') ''type'' = JStr s" "s \<in> set (''state_diff'' # map fst type_space)"
    "getp (getp b' ''tx'') ''type'' = JStr s'" "s' \<in> set (''state_diff'' # map fst type_space)"
    using changes_space(1)[OF assms(1)] changes_space(1)[OF assms(2)] by blast
  have "s \<noteq> s'" using assms(3) s(1,3) by simp
  then have ne: "space_of (JStr s) \<noteq> space_of (JStr s')" by (rule space_of_inj[OF s(2,4)])
  show ?thesis using changes_space(2)[OF assms(1)] changes_space(2)[OF assms(2)] ne unfolding s(1,3) list_all_iff by fastforce
qed

section \<open>Witnesses and defects\<close>

definition anchor_block :: "string \<Rightarrow> string \<Rightarrow> int \<Rightarrow> jsval" where
  "anchor_block i e ts = JObj [(''id'', JStr i), (''tx'', JObj [(''type'', JStr ''anchor''), (''event'', JStr e), (''hash'', JStr ''h''), (''ts'', JInt ts)])]"

definition token_block :: "string \<Rightarrow> string \<Rightarrow> jsval" where
  "token_block i e = JObj [(''id'', JStr i), (''tx'', JObj [(''type'', JStr ''token_creation''), (''tokenId'', JStr e)])]"

definition canonical_anchor :: "string \<Rightarrow> int \<Rightarrow> jsval" where
  "canonical_anchor e ts = JObj [(''event'', JStr e), (''hash'', JStr ''h''), (''ts'', JInt ts)]"

lemma types_never_share_a_key_witness:
  "set (jkeys [(''anchor:e:h'', JObj [(''ts'', JInt 1)])]) \<inter> set (jkeys [(''token:e'', JObj [(''creator'', JNull)])]) = {}"
  by (rule types_never_share_a_key[of pad32 "anchor_block ''i'' ''e'' 1" "miner0 1" _ "miner0 1" "token_block ''j'' ''e''" "miner0 1" _ "miner0 1"])
    (simp_all add: stateChangesFor_def anchor_block_def token_block_def or_null_def)

definition sample_keys :: "string set" where
  "sample_keys = {''anchor:e:h'', ''anchor:f:h'', ''token:t''}"

lemma inj_sample: "inj_on pad32 sample_keys"
  by (simp add: sample_keys_def pad32_def)

abbreviation one_order :: jsval where
  "one_order \<equiv> JArr [canonical_anchor ''e'' 5, canonical_anchor ''f'' 6]"

abbreviation other_order :: jsval where
  "other_order \<equiv> JArr [canonical_anchor ''f'' 6, JNull, canonical_anchor ''e'' 5]"

definition used_machine :: smachine where
  "used_machine = handleLedgerBlock pad32 1 (token_block ''j'' ''t'') (new_machine 4 (miner0 1))"

lemma canonical_rebuild_converges_witness:
  "fst (getStateRoot pad32 (snd (rebuildFromCanonical pad32 1 one_order (new_machine 4 (miner0 1)))))
    = fst (getStateRoot pad32 (snd (rebuildFromCanonical pad32 2 other_order used_machine))) \<and>
   length (sm_diffs (snd (rebuildFromCanonical pad32 1 one_order (new_machine 4 (miner0 1))))) = 2"
proof -
  note es = canonical_entries_def array_items_def anchor_named_def anchor_entry_def canonical_anchor_def or_null_def
  have "card (fst ` set (canonical_entries one_order)) = 2" by (simp add: es)
  moreover have "entries_ok pad32 sample_keys (canonical_entries one_order)" "entries_ok pad32 sample_keys (canonical_entries other_order)"
    by (simp_all add: es valueHashOf_def json_stringify_def sample_keys_def)
  moreover have "map_of (rev (canonical_entries one_order)) = map_of (rev (canonical_entries other_order)) \<or>
     set (canonical_entries one_order) = set (canonical_entries other_order) \<and> single_valued (set (canonical_entries one_order))"
    by (rule disjI2) (auto simp: es single_valued_def)
  ultimately show ?thesis
    using canonical_rebuild_converges[OF digest_pad32 inj_sample, of one_order other_order 1 "new_machine 4 (miner0 1)" 2 used_machine]
    by simp
qed

text \<open>The map a rebuild leaves is not a function of the set of anchors when a name comes with two times.\<close>

lemma two_times_depend_on_order:
  "jget (vstate (sm_tree (snd (rebuildFromCanonical H now (JArr [canonical_anchor ''e'' 5, canonical_anchor ''e'' 6]) sm)))) ''anchor:e:h''
     = Some (JObj [(''ts'', JInt 6)])"
  "jget (vstate (sm_tree (snd (rebuildFromCanonical H now (JArr [canonical_anchor ''e'' 6, canonical_anchor ''e'' 5]) sm)))) ''anchor:e:h''
     = Some (JObj [(''ts'', JInt 5)])"
proof -
  have e: "entries_ok H UNIV (canonical_entries (JArr [canonical_anchor ''e'' a, canonical_anchor ''e'' b]))"
    "canonical_entries (JArr [canonical_anchor ''e'' a, canonical_anchor ''e'' b])
       = [(''anchor:e:h'', JObj [(''ts'', JInt a)]), (''anchor:e:h'', JObj [(''ts'', JInt b)])]" for a b
    by (simp_all add: canonical_entries_def array_items_def anchor_named_def anchor_entry_def canonical_anchor_def or_null_def
        valueHashOf_def json_stringify_def)
  have "jget (vstate (sm_tree (snd (rebuildFromCanonical H now (JArr [canonical_anchor ''e'' a, canonical_anchor ''e'' b]) sm)))) ''anchor:e:h''
     = Some (JObj [(''ts'', JInt b)])" for a b
    unfolding rebuild_spec(2)[OF e(1)] e(2) by (simp add: vrun_spec step_simps del: vrun_simps)
  then show "jget (vstate (sm_tree (snd (rebuildFromCanonical H now (JArr [canonical_anchor ''e'' 5, canonical_anchor ''e'' 6]) sm)))) ''anchor:e:h''
     = Some (JObj [(''ts'', JInt 6)])"
    "jget (vstate (sm_tree (snd (rebuildFromCanonical H now (JArr [canonical_anchor ''e'' 6, canonical_anchor ''e'' 5]) sm)))) ''anchor:e:h''
     = Some (JObj [(''ts'', JInt 5)])" by blast+
qed

definition open_machine :: smachine where
  "open_machine = (new_machine 4 (miner0 1))\<lparr>sm_tree := vempty\<lparr>vdisk := Some []\<rparr>, sm_rows := Some []\<rparr>"

lemma canonical_rebuild_survives_restart_witness:
  "fst (getStateRoot pad32 (reboot pad32 id 4 (miner0 1) (snd (rebuildFromCanonical pad32 1 (JArr [canonical_anchor ''e'' 5]) open_machine))))
      = fst (getStateRoot pad32 (snd (rebuildFromCanonical pad32 1 (JArr [canonical_anchor ''e'' 5]) open_machine))) \<and>
    length (sm_diffs (reboot pad32 id 4 (miner0 1) (snd (rebuildFromCanonical pad32 1 (JArr [canonical_anchor ''e'' 5]) open_machine))))
      = length (sm_diffs (snd (rebuildFromCanonical pad32 1 (JArr [canonical_anchor ''e'' 5]) open_machine)))"
  by (rule canonical_rebuild_survives_restart[OF digest_pad32 inj_sample, of _ _ "[]"])
    (auto simp: canonical_entries_def array_items_def anchor_named_def anchor_entry_def canonical_anchor_def or_null_def
      valueHashOf_def json_stringify_def sample_keys_def open_machine_def)

definition sample_rows :: "jsval option list" where
  "sample_rows = [Some (anchor_block ''i'' ''e'' 1), None, Some (token_block ''j'' ''t''), Some (anchor_block ''k'' ''e'' 1)]"

lemma backfill_idempotent_witness:
  "fst (backfillFromLedger pad32 2 (Some sample_rows) (snd (backfillFromLedger pad32 1 (Some sample_rows) open_machine)))
      = fst (backfillFromLedger pad32 1 (Some sample_rows) open_machine) \<and>
    length (sm_diffs (snd (backfillFromLedger pad32 2 (Some sample_rows) (snd (backfillFromLedger pad32 1 (Some sample_rows) open_machine)))))
      = length (sm_diffs (snd (backfillFromLedger pad32 1 (Some sample_rows) open_machine)))"
  by (rule backfill_idempotent[OF digest_pad32 inj_sample])
    (auto simp: open_machine_def new_machine_def vempty_def vinv_empty index_ok_empty memo_ok_miner0 sample_rows_def row_changes_def
      stateChangesFor_def anchor_block_def token_block_def or_null_def valueHashOf_def json_stringify_def sample_keys_def)

definition three_arrivals :: "(string \<Rightarrow> string) \<Rightarrow> miner \<Rightarrow> smachine" where
  "three_arrivals H m = handleLedgerBlock H 30 (anchor_block ''i'' ''e'' 1) (handleLedgerBlock H 20 (anchor_block ''j'' ''f'' 2)
     (handleLedgerBlock H 10 (anchor_block ''i'' ''e'' 1) (new_machine 4 m)))"

lemma empty_shard: "replicate 4 [] ! (x mod 4) = []" for x :: nat
  by (rule nth_replicate) simp

text \<open>A read of the state damages the applied set: \<open>getState\<close> sorts the recorded diffs in place and leaves
  the index as it was, so the next arrival of a known state change overwrites the diff of another one.
  Here a third arrival of one anchor erases the only diff of a second anchor and counts the first twice.\<close>

lemma getState_breaks_the_index:
  "map diff_identity (sm_diffs (three_arrivals H m)) = [JStr ''anchor:e:h'', JStr ''anchor:f:h''] \<and>
   map diff_identity (sm_diffs (handleLedgerBlock H 40 (anchor_block ''i'' ''e'' 1) (snd (getState H key 0 (three_arrivals H m)))))
     = [JStr ''anchor:e:h'', JStr ''anchor:e:h'']"
  unfolding three_arrivals_def
  by (simp add: handleLedgerBlock_def stateChangesFor_def anchor_block_def or_null_def Let_def case_prod_beta step_simps
      recordDiff_def new_machine_def diff_identity_def new_diff_def getState_def getShardForKey_def empty_shard shard_get_def
      sm_assemble_def millis_def del: replicate_Suc nth_replicate)

lemma diff_index_exact_witness:
  "distinct (map diff_identity (sm_diffs (fold (sm_step pad32)
     [SBlock 10 (anchor_block ''i'' ''e'' 1), SBlock 20 (anchor_block ''j'' ''f'' 2), SRead ''k'' 0, SBlock 30 (anchor_block ''i'' ''e'' 1), SRead ''k'' 15]
     (reboot pad32 id 4 (miner0 1) (new_machine 4 (miner0 1))))))"
proof -
  have "reads_in_order pad32 [SBlock 10 (anchor_block ''i'' ''e'' 1), SBlock 20 (anchor_block ''j'' ''f'' 2), SRead ''k'' 0,
      SBlock 30 (anchor_block ''i'' ''e'' 1), SRead ''k'' 15] (reboot pad32 id 4 (miner0 1) (new_machine 4 (miner0 1)))"
    by (simp add: handleLedgerBlock_def stateChangesFor_def anchor_block_def or_null_def Let_def case_prod_beta step_simps
      recordDiff_def new_machine_def diff_identity_def new_diff_def reboot_def sm_initDb_def loadDiffs_def loadTransactionLog_def
      loadState_def vempty_def time_ordered_def millis_def)
  from diff_index_exact[OF this] show ?thesis by blast
qed

definition receipt_block :: jsval where
  "receipt_block = JObj [(''id'', JStr ''b''), (''tx'', JObj [(''type'', JStr ''state_diff''), (''contractAddress'', JStr ''c''), (''function'', JStr ''f''),
     (''args'', JObj [(''params'', JStr ''p''), (''writes'', JStr ''w'')])])]"

definition receipt_forgotten :: "(string \<Rightarrow> string) \<Rightarrow> smachine" where
  "receipt_forgotten H = snd (forgetKeys H (JArr [JStr ''params'', JStr ''writes'']) (handleLedgerBlock H 1 receipt_block open_machine))"

lemma loadTransactionLog_frame [step_simps]:
  "sm_tree (loadTransactionLog sm) = sm_tree sm" "sm_diffs (loadTransactionLog sm) = sm_diffs sm" "sm_index (loadTransactionLog sm) = sm_index sm"
  by (simp_all add: loadTransactionLog_def split: option.split jsval.split)

lemmas boot_simps = reboot_def sm_initDb_def loadDiffs_def loadState_def rebuildTrie_def new_machine_def vempty_def
  diff_snapshot_def diff_of_row_def sweep_diff_row_def recordDiff_def diffKey_def diff_identity_def replay_order_def

lemma receipt_forgotten_state:
  "vstate (sm_tree (receipt_forgotten H)) = [] \<and> vdisk (sm_tree (receipt_forgotten H)) = Some [] \<and>
   sm_rows (receipt_forgotten H) = Some [(''b'', JObj [(''txId'', JStr ''b''), (''timestamp'', JInt 1),
     (''changes'', JObj [(''params'', JStr ''p''), (''writes'', JStr ''w'')])])]"
  by (simp add: receipt_forgotten_def handleLedgerBlock_def receipt_block_def stateChangesFor_def stateDiffWrites_def receipt_args_def
      Let_def case_prod_beta open_machine_def new_machine_def vempty_def new_diff_def apply_diff_def recordDiff_def diff_identity_def
      vinsert_def saveState_def valueHashOf_def json_stringify_def saveDiff_def diff_serialize_def diffKey_def
      forgetKeys_def array_items_def forget_key_def step_simps vdelete_def deleteState_def)

text \<open>What \<open>forget\<close> removes does not stay removed when the change had several keys: the diff is filed under
  its transaction id, forgetting its keys leaves the row, and the next boot replays it into the empty tree.\<close>

lemma forgotten_keys_come_back:
  "vget (sm_tree (receipt_forgotten H)) ''params'' = JUndef \<and>
   vget (sm_tree (reboot H coll 4 m (receipt_forgotten H))) ''params'' = JStr ''p''"
  using receipt_forgotten_state[of H]
  by (simp add: vget_def boot_simps Let_def case_prod_beta less_char_def step_simps vinsert_def saveState_def valueHashOf_def json_stringify_def)

definition old_row :: "string \<Rightarrow> int \<Rightarrow> int \<Rightarrow> jsval" where
  "old_row i ts now = JObj [(''txId'', JStr i), (''timestamp'', JInt now), (''changes'', JObj [(''anchor:e:h'', JObj [(''ts'', JInt ts)])])]"

definition old_rows :: "(string, jsval) jmap" where
  "old_rows = [(''a1'', old_row ''a1'' 5 1), (''b2'', old_row ''b2'' 7 2)]"

definition old_store :: smachine where
  "old_store = open_machine\<lparr>sm_rows := Some old_rows\<rparr>"

abbreviation old_diff :: "string \<Rightarrow> int \<Rightarrow> int \<Rightarrow> sdiff" where
  "old_diff i ts now \<equiv> \<lparr>d_tx = JStr i, d_stamp = JInt now, d_changes = [(''anchor:e:h'', JObj [(''ts'', JInt ts)])]\<rparr>"

lemma old_snapshot: "diff_snapshot old_rows = old_rows"
  by (simp add: old_rows_def diff_snapshot_def less_char_def)

lemma old_sweep:
  assumes "sm_diffs sm = []" "sm_index sm = []"
  shows "sm_diffs (fst (fold sweep_diff_row old_rows (sm, []))) = [old_diff ''b2'' 7 2]"
    "sm_tree (fst (fold sweep_diff_row old_rows (sm, []))) = sm_tree sm"
    "snd (fold sweep_diff_row old_rows (sm, [])) = [old_diff ''a1'' 5 1]"
  using assms by (simp_all add: old_rows_def sweep_diff_row_def old_row_def diff_of_row_def recordDiff_def diffKey_def diff_identity_def Let_def)

text \<open>The recovery replay applies the first row of an identity, although the sweep keeps the last on disk and
  in memory: after a boot that recovers the tree, the tree and the recorded diff of one key disagree.\<close>

lemma recovery_replays_superseded_row:
  "vget (sm_tree (reboot H coll 4 m old_store)) ''anchor:e:h'' = JObj [(''ts'', JInt 5)] \<and>
   map d_changes (sm_diffs (reboot H coll 4 m old_store)) = [[(''anchor:e:h'', JObj [(''ts'', JInt 7)])]]"
proof -
  define sm0 where "sm0 = (new_machine 4 m)\<lparr>sm_tree := loadState H (vempty\<lparr>vdisk := Some []\<rparr>),
     sm_rows := Some old_rows, sm_logrow := None\<rparr>"
  have s: "sm_diffs sm0 = []" "sm_index sm0 = []" "vstate (sm_tree sm0) = []"
    by (simp_all add: sm0_def new_machine_def loadState_def rebuildTrie_def vempty_def step_simps)
  have r: "reboot H coll 4 m old_store = loadTransactionLog (loadDiffs H coll sm0)"
    by (simp add: reboot_def sm_initDb_def sm0_def old_store_def open_machine_def new_machine_def vempty_def)
  have rows: "sm_rows sm0 = Some old_rows" by (simp add: sm0_def)
  have l: "sm_diffs (loadDiffs H coll sm0) = [old_diff ''b2'' 7 2]"
    "sm_tree (loadDiffs H coll sm0) = replay_diffs H [old_diff ''a1'' 5 1] (sm_tree sm0)"
    unfolding loadDiffs_def rows by (simp_all add: old_snapshot old_sweep[OF s(1,2)] Let_def case_prod_beta s(3) replay_order_def)
  show ?thesis unfolding r
    by (simp add: step_simps l vget_def vinsert_def valueHashOf_def json_stringify_def s(3) Let_def)
qed

end
