(* ===== verification/Geometry.thy ===== *)
theory Geometry
  imports JsValue
begin

text \<open>
  \<open>geometry.js\<close> and \<open>digital-root.js\<close> of the cubic ledger: where a block sits in space, and the
  digital root of a transaction's hash. Shown: at level 1 no two blocks share a point, the blocks
  of the first 27 cubes fill a 9 by 9 by 9 box, and the digital root is the residue modulo nine.

  Coordinates are integers; \<open>None\<close> is the NaN a cube index without a number gives. The vector's
  magnitude and direction (floating point) are not modelled.
\<close>

section \<open>Numbers read from text\<close>

text \<open>The remainder of the \<open>%\<close> operator has the sign of the dividend.\<close>

definition js_rem :: "int \<Rightarrow> int \<Rightarrow> int" where
  "js_rem a b = (if a < 0 then - ((- a) mod \<bar>b\<bar>) else a mod \<bar>b\<bar>)"

definition is_space :: "char \<Rightarrow> bool" where
  "is_space c \<longleftrightarrow> (let n = (of_char c :: nat) in n = 32 \<or> 9 \<le> n \<and> n \<le> 13 \<or> n = 160)"

definition parse_digits :: "string \<Rightarrow> int option" where
  "parse_digits s =
     (if take 2 s \<in> {''0x'', ''0X''} then
        (let h = takeWhile (\<lambda>c. hex_nib c \<noteq> None) (drop 2 s) in
         if h = [] then None else Some (foldl (\<lambda>n c. 16 * n + int (the (hex_nib c))) 0 h))
      else (let d = takeWhile is_digit s in if d = [] then None else Some (int (read_nat d))))"

definition parseInt :: "string \<Rightarrow> int option" where
  "parseInt s =
     (let t = dropWhile is_space s in
      if t \<noteq> [] \<and> hd t = CHR ''-'' then map_option uminus (parse_digits (tl t))
      else if t \<noteq> [] \<and> hd t = CHR ''+'' then parse_digits (tl t)
      else parse_digits t)"

section \<open>Coordinates\<close>

record coords =
  cx :: int
  cy :: int
  cz :: int

datatype index = INum int | IText string

record location =
  faceIndex :: int
  position :: int
  cubeIndex :: index
  cubeSequentialIndex :: "int option"
  level :: nat

definition positionToLocalCoords :: "int \<Rightarrow> int \<times> int" where
  "positionToLocalCoords p =
     (if p < 0 \<or> 8 < p then (0, 0)
      else (let row = p div 3; col = js_rem p 3 in (col - 1, 1 - row)))"

definition faceIndexToZ :: "int \<Rightarrow> int" where
  "faceIndexToZ f = f - 1"

definition calculateBlockCoords :: "int \<Rightarrow> int \<Rightarrow> coords" where
  "calculateBlockCoords f p = (let (x, y) = positionToLocalCoords p in \<lparr>cx = x, cy = y, cz = faceIndexToZ f\<rparr>)"

text \<open>\<open>cubeIndex.slice(-6)\<close> is the last six characters.\<close>

definition cube_number :: "index \<Rightarrow> int option \<Rightarrow> int option" where
  "cube_number ci seq = (case seq of Some n \<Rightarrow> Some n
     | None \<Rightarrow> (case ci of INum n \<Rightarrow> Some n
         | IText s \<Rightarrow> map_option (\<lambda>n. js_rem n 1000) (parseInt (drop (length s - 6) s))))"

definition calculateCubeCoords :: "index \<Rightarrow> nat \<Rightarrow> int option \<Rightarrow> coords option" where
  "calculateCubeCoords ci lv seq =
     (if lv = 1 then
        (case cube_number ci seq of None \<Rightarrow> None
         | Some cubeNum \<Rightarrow>
             (let faceNum = cubeNum div 9; posInFace = js_rem cubeNum 9;
                  row = posInFace div 3; col = js_rem posInFace 3
              in Some \<lparr>cx = col * 3, cy = (if row = 0 then 0 else - row * 3), cz = faceNum * 3\<rparr>))
      else
        (case ci of IText s \<Rightarrow> None
         | INum i \<Rightarrow>
             (let dim = 3 ^ (lv - 1); perFace = dim * dim; face = i div perFace; pos = js_rem i perFace;
                  row = pos div dim; col = js_rem pos dim; scale = 3 ^ (lv - 1)
              in Some \<lparr>cx = (col - (dim - 1) div 2) * scale, cy = ((dim - 1) div 2 - row) * scale, cz = (face - 1) * scale\<rparr>)))"

definition calculateAbsoluteCoords :: "location \<Rightarrow> coords option" where
  "calculateAbsoluteCoords l =
     (let b = calculateBlockCoords (faceIndex l) (position l) in
      map_option (\<lambda>c. \<lparr>cx = cx c + cx b, cy = cy c + cy b, cz = cz c + cz b\<rparr>)
        (calculateCubeCoords (cubeIndex l) (level l) (cubeSequentialIndex l)))"

text \<open>An entry of a fractal address: the level, the cube, and at the block's own level its place.\<close>

fun fractal_from :: "location \<Rightarrow> nat \<Rightarrow> (nat \<times> index \<times> (int \<times> int) option) list" where
  "fractal_from l 0 = []"
| "fractal_from l (Suc k) =
     (if Suc k = level l then (Suc k, cubeIndex l, Some (faceIndex l, position l)) else (Suc k, INum 0, None)) # fractal_from l k"

definition calculateFractalAddress :: "location \<Rightarrow> (nat \<times> index \<times> (int \<times> int) option) list" where
  "calculateFractalAddress l = fractal_from l (level l)"

definition getOrigin :: coords where
  "getOrigin = \<lparr>cx = 0, cy = 0, cz = 0\<rparr>"

section \<open>Digital roots\<close>

fun digit_sum :: "nat \<Rightarrow> nat" where
  "digit_sum n = (if n < 10 then n else n mod 10 + digit_sum (n div 10))"

declare digit_sum.simps [simp del]

lemma digit_sum_le: "digit_sum n \<le> n"
proof (induction n rule: digit_sum.induct)
  case (1 n)
  show ?case
  proof (cases "n < 10")
    case False
    then have "digit_sum n \<le> n mod 10 + n div 10" using 1 by (subst digit_sum.simps) simp
    then show ?thesis by linarith
  qed (subst digit_sum.simps, simp)
qed

lemma digit_sum_less: "9 < n \<Longrightarrow> digit_sum n < n"
proof -
  assume "9 < n"
  then have "digit_sum n \<le> n mod 10 + n div 10" using digit_sum_le[of "n div 10"] by (subst digit_sum.simps) simp
  moreover have "n = 10 * (n div 10) + n mod 10" "1 \<le> n div 10" using \<open>9 < n\<close> by simp_all
  ultimately show ?thesis by linarith
qed

text \<open>\<open>while (sum > 9)\<close> add the decimal digits.\<close>

function reduce_sum :: "nat \<Rightarrow> nat" where
  "reduce_sum n = (if 9 < n then reduce_sum (digit_sum n) else n)"
  by pat_completeness auto
termination
  by (relation "measure id") (auto simp: digit_sum_less)

declare reduce_sum.simps [simp del]

text \<open>\<open>parseInt(c, 16) || 0\<close>.\<close>

definition nibble_or_0 :: "char \<Rightarrow> nat" where
  "nibble_or_0 c = (case hex_nib c of Some n \<Rightarrow> n | None \<Rightarrow> 0)"

definition calculateDigitalRootFromHash :: "string \<Rightarrow> nat" where
  "calculateDigitalRootFromHash hash =
     (let r = reduce_sum (sum_list (map nibble_or_0 hash)) in if r = 0 then 9 else r)"

text \<open>The timestamp is its decimal text, or none; \<open>None\<close> when the data has no JSON text (the source would
  hash the text \<open>undefined\<close> for undefined data, a case its callers do not reach).\<close>

definition calculateDigitalRoot :: "(string \<Rightarrow> string) \<Rightarrow> jsval \<Rightarrow> string option \<Rightarrow> nat option" where
  "calculateDigitalRoot H txData avg =
     (let tsPart = (case avg of None \<Rightarrow> [] | Some s \<Rightarrow> s) in
      map_option (\<lambda>t. calculateDigitalRootFromHash (hex_of (H (t @ tsPart)))) (json_stringify txData))"

section \<open>Properties\<close>

lemma local_coords_inj:
  assumes "0 \<le> p" "p \<le> 8" "0 \<le> q" "q \<le> 8" "positionToLocalCoords p = positionToLocalCoords q"
  shows "p = q"
proof -
  have "p mod 3 = q mod 3" "p div 3 = q div 3" using assms by (auto simp: positionToLocalCoords_def js_rem_def Let_def)
  then show ?thesis by (metis div_mult_mod_eq)
qed

lemma local_coords_range:
  "-1 \<le> fst (positionToLocalCoords p) \<and> fst (positionToLocalCoords p) \<le> 1 \<and>
   -1 \<le> snd (positionToLocalCoords p) \<and> snd (positionToLocalCoords p) \<le> 1"
  by (auto simp: positionToLocalCoords_def js_rem_def Let_def)

lemma cube_coords_level1:
  "0 \<le> n \<Longrightarrow> calculateCubeCoords ci 1 (Some n) =
     Some \<lparr>cx = 3 * (n mod 3), cy = - 3 * (n mod 9 div 3), cz = 3 * (n div 9)\<rparr>"
proof -
  assume "0 \<le> n"
  then have "n mod 9 mod 3 = n mod 3" by (simp add: mod_mod_cancel)
  then show ?thesis
    using \<open>0 \<le> n\<close> by (simp add: calculateCubeCoords_def cube_number_def js_rem_def Let_def)
qed

lemma cube_number_eq:
  assumes "(m :: int) mod 3 = n mod 3" "m mod 9 div 3 = n mod 9 div 3" "m div 9 = n div 9"
  shows "m = n"
proof -
  have r: "k = 9 * (k div 9) + 3 * (k mod 9 div 3) + k mod 3" for k :: int
  proof -
    have "k mod 9 mod 3 = k mod 3" by (simp add: mod_mod_cancel)
    moreover have "k mod 9 = 3 * (k mod 9 div 3) + k mod 9 mod 3" by simp
    moreover have "k = 9 * (k div 9) + k mod 9" by simp
    ultimately show ?thesis by linarith
  qed
  show ?thesis using r[of m] r[of n] assms by simp
qed

lemma near_thirds:
  assumes "3 * a + u = 3 * b + v" "-1 \<le> u" "u \<le> 1" "-1 \<le> v" "v \<le> (1 :: int)"
  shows "a = b \<and> u = v"
proof -
  have "a \<le> b" "b \<le> a" using assms by linarith+
  then show ?thesis using assms(1) by simp
qed

definition placed :: "location \<Rightarrow> bool" where
  "placed l \<longleftrightarrow> 0 \<le> faceIndex l \<and> faceIndex l \<le> 2 \<and> 0 \<le> position l \<and> position l \<le> 8 \<and> level l = 1 \<and>
     (\<exists>n \<ge> 0. cubeSequentialIndex l = Some n)"

lemma absolute_level1:
  assumes "placed l"
  obtains n where "0 \<le> n" "cubeSequentialIndex l = Some n"
    "calculateAbsoluteCoords l = Some \<lparr>cx = 3 * (n mod 3) + fst (positionToLocalCoords (position l)),
       cy = 3 * (- (n mod 9 div 3)) + snd (positionToLocalCoords (position l)), cz = 3 * (n div 9) + (faceIndex l - 1)\<rparr>"
proof -
  obtain n where n: "0 \<le> n" "cubeSequentialIndex l = Some n" using assms by (auto simp: placed_def)
  note c = cube_coords_level1[OF n(1), of "cubeIndex l", unfolded One_nat_def]
  show thesis
    by (rule that[OF n])
      (use assms n in \<open>auto simp: calculateAbsoluteCoords_def calculateBlockCoords_def c placed_def
        faceIndexToZ_def Let_def split: prod.split\<close>)
qed

text \<open>At level 1 the coordinates are an address: two placed blocks at one point are the same cube, face
  and position.\<close>

lemma coords_injective:
  assumes "placed l" "placed l'" "calculateAbsoluteCoords l = calculateAbsoluteCoords l'"
  shows "cubeSequentialIndex l = cubeSequentialIndex l' \<and> faceIndex l = faceIndex l' \<and> position l = position l'"
proof -
  obtain n where n: "0 \<le> n" "cubeSequentialIndex l = Some n"
    "calculateAbsoluteCoords l = Some \<lparr>cx = 3 * (n mod 3) + fst (positionToLocalCoords (position l)),
       cy = 3 * (- (n mod 9 div 3)) + snd (positionToLocalCoords (position l)), cz = 3 * (n div 9) + (faceIndex l - 1)\<rparr>"
    using absolute_level1[OF assms(1)] .
  obtain m where m: "0 \<le> m" "cubeSequentialIndex l' = Some m"
    "calculateAbsoluteCoords l' = Some \<lparr>cx = 3 * (m mod 3) + fst (positionToLocalCoords (position l')),
       cy = 3 * (- (m mod 9 div 3)) + snd (positionToLocalCoords (position l')), cz = 3 * (m div 9) + (faceIndex l' - 1)\<rparr>"
    using absolute_level1[OF assms(2)] .
  have r: "-1 \<le> faceIndex l - 1" "faceIndex l - 1 \<le> 1" "-1 \<le> faceIndex l' - 1" "faceIndex l' - 1 \<le> 1"
    using assms(1,2) by (auto simp: placed_def)
  have x: "n mod 3 = m mod 3 \<and> fst (positionToLocalCoords (position l)) = fst (positionToLocalCoords (position l'))"
    by (rule near_thirds) (use assms(3) n(3) m(3) local_coords_range in auto)
  have y: "- (n mod 9 div 3) = - (m mod 9 div 3) \<and> snd (positionToLocalCoords (position l)) = snd (positionToLocalCoords (position l'))"
    by (rule near_thirds) (use assms(3) n(3) m(3) local_coords_range in auto)
  have z: "n div 9 = m div 9 \<and> faceIndex l - 1 = faceIndex l' - 1"
    by (rule near_thirds) (use assms(3) n(3) m(3) r in auto)
  have "n = m" by (rule cube_number_eq) (use x y z in auto)
  moreover have "position l = position l'"
    by (rule local_coords_inj) (use assms(1,2) x y in \<open>auto simp: placed_def prod_eq_iff\<close>)
  ultimately show ?thesis using n(2) m(2) z by simp
qed

definition sample_loc :: "int \<Rightarrow> int \<Rightarrow> location" where
  "sample_loc n p = \<lparr>faceIndex = 1, position = p, cubeIndex = IText ''f00d'', cubeSequentialIndex = Some n, level = 1\<rparr>"

lemma coords_injective_witness:
  "calculateAbsoluteCoords (sample_loc 0 4) = Some getOrigin \<and>
   calculateAbsoluteCoords (sample_loc 0 4) \<noteq> calculateAbsoluteCoords (sample_loc 1 4)"
proof
  show "calculateAbsoluteCoords (sample_loc 0 4) = Some getOrigin" by code_simp
  have "placed (sample_loc 0 4)" "placed (sample_loc 1 4)" by (simp_all add: placed_def sample_loc_def)
  from coords_injective[OF this] show "calculateAbsoluteCoords (sample_loc 0 4) \<noteq> calculateAbsoluteCoords (sample_loc 1 4)"
    by (auto simp: sample_loc_def)
qed

lemma n_parts:
  assumes "0 \<le> a" "a \<le> 2" "0 \<le> b" "b \<le> 2" "0 \<le> c" "c \<le> (2 :: int)"
  shows "0 \<le> 9 * c + 3 * b + a" "9 * c + 3 * b + a < 27" "(9 * c + 3 * b + a) mod 3 = a"
    "(9 * c + 3 * b + a) div 9 = c" "(9 * c + 3 * b + a) mod 9 div 3 = b"
proof -
  have "a = 0 \<or> a = 1 \<or> a = 2" "b = 0 \<or> b = 1 \<or> b = 2" "c = 0 \<or> c = 1 \<or> c = 2" using assms by auto
  then show "0 \<le> 9 * c + 3 * b + a" "9 * c + 3 * b + a < 27" "(9 * c + 3 * b + a) mod 3 = a"
    "(9 * c + 3 * b + a) div 9 = c" "(9 * c + 3 * b + a) mod 9 div 3 = b" by auto
qed

lemma p_parts:
  assumes "0 \<le> a" "a \<le> 2" "0 \<le> b" "b \<le> (2 :: int)"
  shows "0 \<le> 3 * a + b" "3 * a + b \<le> 8" "(3 * a + b) div 3 = a" "(3 * a + b) mod 3 = b"
  using assms by auto

lemma thirds: "3 * (k div 3) + (k mod 3 - 1) = k - 1" "3 * (- (k div 3)) + (1 - k mod 3) = 1 - (k :: int)"
proof -
  define q m where "q = k div 3" and "m = k mod 3"
  then have "3 * q + m = k" by simp
  then have "3 * q + (m - 1) = k - 1" "3 * (- q) + (1 - m) = 1 - k" by linarith+
  then show "3 * (k div 3) + (k mod 3 - 1) = k - 1" "3 * (- (k div 3)) + (1 - k mod 3) = 1 - k"
    unfolding q_def m_def .
qed

lemma box_bounds:
  assumes "0 \<le> n" "n < 27" "placed l"
  shows "3 * (n mod 3) + fst (positionToLocalCoords (position l)) \<in> {-1..7}"
    "3 * (- (n mod 9 div 3)) + snd (positionToLocalCoords (position l)) \<in> {-7..1}"
    "3 * (n div 9) + (faceIndex l - 1) \<in> {-1..7}"
proof -
  have a: "0 \<le> n mod 3" "n mod 3 \<le> 2" by auto
  then show "3 * (n mod 3) + fst (positionToLocalCoords (position l)) \<in> {-1..7}"
    using local_coords_range[of "position l"] unfolding atLeastAtMost_iff by linarith
  have b: "n mod 9 div 3 \<le> 2" "0 \<le> n mod 9 div 3" by auto
  then show "3 * (- (n mod 9 div 3)) + snd (positionToLocalCoords (position l)) \<in> {-7..1}"
    using local_coords_range[of "position l"] unfolding atLeastAtMost_iff by linarith
  have "n div 9 \<le> 2" "0 \<le> n div 9" using assms(1,2) by auto
  then show "3 * (n div 9) + (faceIndex l - 1) \<in> {-1..7}"
    using assms(3) unfolding placed_def atLeastAtMost_iff by linarith
qed

lemma box_point:
  assumes "0 \<le> a" "a \<le> 2" "0 \<le> b" "b \<le> 2" "0 \<le> c" "c \<le> 2" "0 \<le> u" "u \<le> 2" "0 \<le> v" "v \<le> 2" "0 \<le> w" "w \<le> (2 :: int)"
  shows "\<exists>l. placed l \<and> the (cubeSequentialIndex l) < 27 \<and>
    calculateAbsoluteCoords l = Some \<lparr>cx = 3 * a + (u - 1), cy = 3 * (- b) + (1 - v), cz = 3 * c + (w - 1)\<rparr>"
proof -
  define n where "n = 9 * c + 3 * b + a"
  define p where "p = 3 * v + u"
  have n: "0 \<le> n" "n < 27" "n mod 3 = a" "n div 9 = c" "n mod 9 div 3 = b"
    using n_parts[OF assms(1-6)] unfolding n_def by blast+
  have p: "0 \<le> p" "p \<le> 8" "p div 3 = v" "p mod 3 = u"
    using p_parts[OF assms(9,10,7,8)] unfolding p_def by blast+
  define l where "l = \<lparr>faceIndex = w, position = p, cubeIndex = INum 0, cubeSequentialIndex = Some n, level = 1\<rparr>"
  have lc: "positionToLocalCoords p = (u - 1, 1 - v)"
    using p by (simp add: positionToLocalCoords_def js_rem_def Let_def)
  have pl: "placed l" using p n assms by (simp add: placed_def l_def)
  obtain k where "cubeSequentialIndex l = Some k"
    "calculateAbsoluteCoords l = Some \<lparr>cx = 3 * (k mod 3) + fst (positionToLocalCoords (position l)),
       cy = 3 * (- (k mod 9 div 3)) + snd (positionToLocalCoords (position l)), cz = 3 * (k div 9) + (faceIndex l - 1)\<rparr>"
    using absolute_level1[OF pl] .
  then have "calculateAbsoluteCoords l = Some \<lparr>cx = 3 * a + (u - 1), cy = 3 * (- b) + (1 - v), cz = 3 * c + (w - 1)\<rparr>"
    using n(3-5) lc by (simp add: l_def)
  then show ?thesis using pl n(2) by (intro exI[of _ l]) (simp add: l_def)
qed

text \<open>Every point of the 9 by 9 by 9 box is taken by a block of the first 27 cubes, and each of their
  blocks is in the box.\<close>

lemma first_cubes_fill_the_box:
  "(\<exists>l. placed l \<and> the (cubeSequentialIndex l) < 27 \<and> calculateAbsoluteCoords l = Some \<lparr>cx = x, cy = y, cz = z\<rparr>)
   \<longleftrightarrow> x \<in> {-1..7} \<and> y \<in> {-7..1} \<and> z \<in> {-1..7}"
proof
  assume "\<exists>l. placed l \<and> the (cubeSequentialIndex l) < 27 \<and> calculateAbsoluteCoords l = Some \<lparr>cx = x, cy = y, cz = z\<rparr>"
  then obtain l where l: "placed l" "the (cubeSequentialIndex l) < 27" "calculateAbsoluteCoords l = Some \<lparr>cx = x, cy = y, cz = z\<rparr>"
    by blast
  obtain n where n: "0 \<le> n" "cubeSequentialIndex l = Some n"
    "calculateAbsoluteCoords l = Some \<lparr>cx = 3 * (n mod 3) + fst (positionToLocalCoords (position l)),
       cy = 3 * (- (n mod 9 div 3)) + snd (positionToLocalCoords (position l)), cz = 3 * (n div 9) + (faceIndex l - 1)\<rparr>"
    using absolute_level1[OF l(1)] .
  show "x \<in> {-1..7} \<and> y \<in> {-7..1} \<and> z \<in> {-1..7}"
    using box_bounds[OF n(1) _ l(1)] n(2,3) l(2,3) by simp
next
  assume b: "x \<in> {-1..7} \<and> y \<in> {-7..1} \<and> z \<in> {-1..7}"
  have "0 \<le> (x + 1) div 3" "(x + 1) div 3 \<le> 2" "0 \<le> (1 - y) div 3" "(1 - y) div 3 \<le> 2" "0 \<le> (z + 1) div 3" "(z + 1) div 3 \<le> 2"
    using b by auto
  moreover have "0 \<le> (x + 1) mod 3" "(x + 1) mod 3 \<le> 2" "0 \<le> (1 - y) mod 3" "(1 - y) mod 3 \<le> 2" "0 \<le> (z + 1) mod 3" "(z + 1) mod 3 \<le> 2"
    by auto
  ultimately obtain l where l: "placed l" "the (cubeSequentialIndex l) < 27"
    "calculateAbsoluteCoords l = Some \<lparr>cx = 3 * ((x + 1) div 3) + ((x + 1) mod 3 - 1),
       cy = 3 * (- ((1 - y) div 3)) + (1 - (1 - y) mod 3), cz = 3 * ((z + 1) div 3) + ((z + 1) mod 3 - 1)\<rparr>"
    using box_point by blast
  have e: "3 * ((x + 1) div 3) + ((x + 1) mod 3 - 1) = x" "3 * (- ((1 - y) div 3)) + (1 - (1 - y) mod 3) = y"
    "3 * ((z + 1) div 3) + ((z + 1) mod 3 - 1) = z"
    unfolding thirds by simp_all
  show "\<exists>l. placed l \<and> the (cubeSequentialIndex l) < 27 \<and> calculateAbsoluteCoords l = Some \<lparr>cx = x, cy = y, cz = z\<rparr>"
    by (intro exI[of _ l] conjI l(1,2) l(3)[unfolded e])
qed

lemma digit_sum_mod: "digit_sum n mod 9 = n mod 9"
proof (induction n rule: digit_sum.induct)
  case (1 n)
  show ?case
  proof (cases "n < 10")
    case False
    then have "digit_sum n = n mod 10 + digit_sum (n div 10)" by (subst digit_sum.simps) simp
    then have "digit_sum n mod 9 = (n mod 10 + n div 10) mod 9"
      using mod_add_cong[OF refl 1[OF False], of "n mod 10"] by (simp only:)
    also have "\<dots> = (n mod 10 + n div 10 + 9 * (n div 10)) mod 9" by (rule mod_mult_self2[symmetric])
    also have "n mod 10 + n div 10 + 9 * (n div 10) = n" using mult_div_mod_eq[of 10 n] by linarith
    finally show ?thesis .
  qed (subst digit_sum.simps, simp)
qed

lemma digit_sum_zero: "digit_sum n = 0 \<longleftrightarrow> n = 0"
proof (induction n rule: digit_sum.induct)
  case (1 n)
  show ?case
  proof (cases "n < 10")
    case False
    then have "0 < n div 10" by simp
    then have "digit_sum (n div 10) \<noteq> 0" using 1 False by auto
    then show ?thesis using False by (subst digit_sum.simps) simp
  qed (subst digit_sum.simps, simp)
qed

lemma reduce_sum_spec: "reduce_sum n \<le> 9 \<and> reduce_sum n mod 9 = n mod 9 \<and> (reduce_sum n = 0 \<longleftrightarrow> n = 0)"
proof (induction n rule: reduce_sum.induct)
  case (1 n)
  show ?case
  proof (cases "9 < n")
    case True
    then have "reduce_sum n = reduce_sum (digit_sum n)" by (subst reduce_sum.simps) simp
    then show ?thesis using 1[OF True] by (simp add: digit_sum_mod digit_sum_zero)
  next
    case False
    then have "reduce_sum n = n" by (subst reduce_sum.simps) simp
    then show ?thesis using False by simp
  qed
qed

text \<open>The digital root of a hash is between 1 and 9 and is its digits' sum modulo nine; the loop that
  adds decimal digits ends.\<close>

lemma digital_root_mod_nine:
  "calculateDigitalRootFromHash hash \<in> {1..9} \<and>
   calculateDigitalRootFromHash hash mod 9 = sum_list (map nibble_or_0 hash) mod 9"
  using reduce_sum_spec[of "sum_list (map nibble_or_0 hash)"]
  by (auto simp: calculateDigitalRootFromHash_def Let_def)

end
