(* ===== verification/LedgerBlock.thy ===== *)
theory LedgerBlock
  imports TransactionValidator Geometry
begin

text \<open>
  \<open>timestamps.js\<close> and \<open>block.js\<close>: the time of an anchor and of a stored block in nanoseconds, the
  consensus body and content id of a transaction, the block built from it, and the JSON form a
  block is stored in. Shown: a block's id and hash are a function of what the xid commits to, and a
  stored value comes back unchanged, BigInts included.

  \<open>D\<close> is \<open>Date.parse\<close>, whose formats beyond ISO-8601 are the engine's (\<open>None\<close> is NaN); \<open>now\<close> is the
  clock. A block's vector is not modelled.
\<close>

section \<open>Timestamps\<close>

text \<open>The floor of a positive number that is no integer, from its canonical text.\<close>

definition frac_floor :: "string \<Rightarrow> int" where
  "frac_floor s = (if CHR ''e'' \<in> set s then 0 else int (read_nat (takeWhile is_digit s)))"

definition is_integer_text :: "string \<Rightarrow> bool" where
  "is_integer_text s \<longleftrightarrow> all_digits s \<or> s \<noteq> [] \<and> hd s = CHR ''-'' \<and> all_digits (tl s)"

definition read_int :: "string \<Rightarrow> int" where
  "read_int s = (if s \<noteq> [] \<and> hd s = CHR ''-'' then - int (read_nat (tl s)) else int (read_nat s))"

definition anchorTimestampNanos :: "(string \<Rightarrow> int option) \<Rightarrow> jsval \<Rightarrow> int" where
  "anchorTimestampNanos D ts =
     (case ts of
        JBig n \<Rightarrow> if n < 0 then 0 else n
      | JInt ms \<Rightarrow> if ms \<le> 0 then 0 else ms * 1000000
      | JFrac f \<Rightarrow> if f \<noteq> [] \<and> hd f = CHR ''-'' then 0 else frac_floor f * 1000000
      | JStr s \<Rightarrow>
          (if s = [] then 0
           else (case (if is_integer_text s then Some (read_int s) else D s) of
               None \<Rightarrow> 0
             | Some ms \<Rightarrow> if ms \<le> 0 then 0 else ms * 1000000))
      | _ \<Rightarrow> 0)"

text \<open>\<open>None\<close> is the answer null: the row does not know its time.\<close>

definition blockTimestampNanos :: "(string \<Rightarrow> int option) \<Rightarrow> jsval \<Rightarrow> int option" where
  "blockTimestampNanos D raw =
     (let vt = nullish (getp raw ''validationTimestamp'') (getp (getp raw ''tx'') ''validationTimestamp'');
          t = getp raw ''timestamp'';
          rest = (case t of
              JBig n \<Rightarrow> Some n
            | _ \<Rightarrow>
                if is_object t \<and> all_digits (js_string (nullish (getp t ''__bigint__'') (JStr [])))
                then Some (int (read_nat (js_string (getp t ''__bigint__''))))
                else if getp (getp raw ''tx'') ''ts'' \<noteq> JUndef \<and> 0 < anchorTimestampNanos D (getp (getp raw ''tx'') ''ts'')
                then Some (anchorTimestampNanos D (getp (getp raw ''tx'') ''ts''))
                else (case t of JInt n \<Rightarrow> if 0 < n then None else Some 0
                  | JFrac f \<Rightarrow> if f \<noteq> [] \<and> hd f = CHR ''-'' then Some 0 else None
                  | _ \<Rightarrow> Some 0))
      in case vt of
           JBig n \<Rightarrow> Some n
         | JInt n \<Rightarrow> if 0 < n then Some n else rest
         | JFrac f \<Rightarrow> if f \<noteq> [] \<and> hd f = CHR ''-'' then rest else Some (frac_floor f)
         | JStr s \<Rightarrow> if all_digits s then Some (int (read_nat s)) else rest
         | _ \<Rightarrow> rest)"

section \<open>Content addresses\<close>

text \<open>\<open>None\<close>: the JSON text throws; \<open>Some None\<close>: the code returns null.\<close>

definition consensusBody :: "(string \<Rightarrow> int option) \<Rightarrow> jsval \<Rightarrow> string option option" where
  "consensusBody D tx =
     (if \<not> is_object tx then Some None
      else (case getp tx ''xid'' of
          JStr xid \<Rightarrow>
            if \<not> xid_re xid then Some None
            else if getp tx ''type'' = JStr ''anchor'' then
              map_option Some (json_stringify (JObj
                [(''type'', JStr ''anchor''), (''event'', nullish (getp tx ''event'') JNull), (''hash'', nullish (getp tx ''hash'') JNull),
                 (''ts'', JStr (show_int (anchorTimestampNanos D (getp tx ''ts'')))), (''xid'', JStr xid)]))
            else Some (Some (''xid:'' @ xid))
        | _ \<Rightarrow> Some None))"

definition contentIdOf :: "(string \<Rightarrow> string) \<Rightarrow> string \<Rightarrow> string" where
  "contentIdOf H body = take 16 (sha256hex H body)"

definition contentKey :: "jsval \<Rightarrow> string option" where
  "contentKey tx =
     (if truthy tx \<and> getp tx ''type'' = JStr ''anchor'' \<and> truthy (getp tx ''event'') \<and> truthy (getp tx ''hash'')
      then Some (js_string (getp tx ''event'') @ '':'' @ js_string (getp tx ''hash''))
      else (case getp tx ''xid'' of
          JStr xid \<Rightarrow> if truthy tx \<and> xid_re xid then Some (''xid:'' @ xid) else None
        | _ \<Rightarrow> None))"

section \<open>Blocks\<close>

record block =
  b_id :: string
  b_tx :: jsval
  b_txId :: jsval
  b_hash :: string
  b_digitalRoot :: jsval
  b_timestamp :: jsval
  b_validationTimestamp :: jsval
  b_location :: "location option"
  b_coordinates :: "coords option"
  b_fractalAddress :: "(nat \<times> index \<times> (int \<times> int) option) list option"

definition updateCoordinates :: "block \<Rightarrow> block" where
  "updateCoordinates b = (case b_location b of None \<Rightarrow> b
     | Some l \<Rightarrow> b\<lparr>b_coordinates := calculateAbsoluteCoords l, b_fractalAddress := Some (calculateFractalAddress l)\<rparr>)"

definition new_block :: "string \<Rightarrow> jsval \<Rightarrow> string \<Rightarrow> jsval \<Rightarrow> jsval \<Rightarrow> location option \<Rightarrow> jsval \<Rightarrow> jsval \<Rightarrow> block" where
  "new_block i tx h root ts loc vt now =
     updateCoordinates \<lparr>b_id = i, b_tx = tx, b_txId = js_or (getp tx ''id'') JNull, b_hash = h, b_digitalRoot = root,
       b_timestamp = js_or ts now,
       b_validationTimestamp = nullish vt (if truthy tx \<and> getp tx ''validationTimestamp'' \<noteq> JUndef
          then getp tx ''validationTimestamp'' else JNull),
       b_location = loc, b_coordinates = None, b_fractalAddress = None\<rparr>"

definition setLocation :: "location \<Rightarrow> block \<Rightarrow> block" where
  "setLocation l b = updateCoordinates (b\<lparr>b_location := Some l\<rparr>)"

definition getCoordinates :: "block \<Rightarrow> coords" where
  "getCoordinates b = (case b_coordinates b of Some c \<Rightarrow> c | None \<Rightarrow> getOrigin)"

definition getFractalAddress :: "block \<Rightarrow> (nat \<times> index \<times> (int \<times> int) option) list" where
  "getFractalAddress b = (case b_fractalAddress b of Some a \<Rightarrow> a | None \<Rightarrow> [])"

definition fromTransaction ::
  "(string \<Rightarrow> string) \<Rightarrow> (string \<Rightarrow> int option) \<Rightarrow> jsval \<Rightarrow> jsval \<Rightarrow> jsval \<Rightarrow> miner \<Rightarrow> (tx_error + block) \<times> miner" where
  "fromTransaction H D now optvt tx m =
     (case validateTransaction H tx m of
        (Inl e, m') \<Rightarrow> (Inl e, m')
      | (Inr b, m') \<Rightarrow>
          (case consensusBody D tx of
             None \<Rightarrow> (Inl (MineFailed UnserializableData), m')
           | Some None \<Rightarrow> (Inl NoXid, m')
           | Some (Some body) \<Rightarrow>
               (let hash = sha256hex H body;
                    vt = (if optvt \<noteq> JNull \<and> optvt \<noteq> JUndef then optvt else nullish (getp tx ''validationTimestamp'') JNull);
                    ts = js_or vt (js_or (getp tx ''timestamp'') now)
                in (Inr (new_block (take 16 hash) tx hash (js_or (getp tx ''digitalRoot'') (JInt 0)) ts None vt now), m'))))"

section \<open>The stored form of a value\<close>

text \<open>The replacer of \<open>serialize\<close> and the reviver of \<open>deserialize\<close>, applied bottom up; \<open>BigInt(s)\<close> of a
  text is its integer, and a text that is none throws (\<open>None\<close>).\<close>

fun tag :: "jsval \<Rightarrow> jsval" and tag_list :: "jsval list \<Rightarrow> jsval list" and tag_props :: "(string \<times> jsval) list \<Rightarrow> (string \<times> jsval) list" where
  "tag (JBig n) = JObj [(''__bigint__'', JStr (show_int n))]"
| "tag (JArr xs) = JArr (tag_list xs)"
| "tag (JObj kvs) = JObj (tag_props kvs)"
| "tag v = v"
| "tag_list [] = []"
| "tag_list (v # vs) = tag v # tag_list vs"
| "tag_props [] = []"
| "tag_props ((k, v) # kvs) = (k, tag v) # tag_props kvs"

definition revive_object :: "(string \<times> jsval) list \<Rightarrow> jsval option" where
  "revive_object kvs = (case getp (JObj kvs) ''__bigint__'' of
     JStr s \<Rightarrow> if is_integer_text s then Some (JBig (read_int s)) else None
   | _ \<Rightarrow> Some (JObj kvs))"

fun revive :: "jsval \<Rightarrow> jsval option" and revive_list :: "jsval list \<Rightarrow> jsval list option"
  and revive_props :: "(string \<times> jsval) list \<Rightarrow> (string \<times> jsval) list option" where
  "revive (JArr xs) = map_option JArr (revive_list xs)"
| "revive (JObj kvs) = Option.bind (revive_props kvs) revive_object"
| "revive v = Some v"
| "revive_list [] = Some []"
| "revive_list (v # vs) = (case revive v of None \<Rightarrow> None | Some w \<Rightarrow> map_option ((#) w) (revive_list vs))"
| "revive_props [] = Some []"
| "revive_props ((k, v) # kvs) = (case revive v of None \<Rightarrow> None | Some w \<Rightarrow> map_option ((#) (k, w)) (revive_props kvs))"

text \<open>A value with nothing JSON drops and no property the reviver would take for a tag.\<close>

fun plain :: "jsval \<Rightarrow> bool" and plain_list :: "jsval list \<Rightarrow> bool" and plain_props :: "(string \<times> jsval) list \<Rightarrow> bool" where
  "plain JUndef = False"
| "plain JNaN = False"
| "plain (JInf b) = False"
| "plain (JArr xs) = plain_list xs"
| "plain (JObj kvs) = (plain_props kvs \<and> \<not> is_string (getp (JObj kvs) ''__bigint__''))"
| "plain v = True"
| "plain_list [] = True"
| "plain_list (v # vs) = (plain v \<and> plain_list vs)"
| "plain_props [] = True"
| "plain_props ((k, v) # kvs) = (plain v \<and> plain_props kvs)"

lemma read_show_int: "is_integer_text (show_int n) \<and> read_int (show_int n) = n"
proof (cases "n < 0")
  case True
  then show ?thesis by (simp add: is_integer_text_def read_int_def show_int_def)
next
  case False
  have "hd (show_nat (nat n)) \<noteq> CHR ''-''"
    using show_nat_digits[of "nat n"] not_digit_minus by (cases "show_nat (nat n)") auto
  then show ?thesis using False by (simp add: is_integer_text_def read_int_def show_int_def)
qed

lemma revive_plain_object: "\<not> is_string (getp (JObj kvs) ''__bigint__'') \<Longrightarrow> revive_object kvs = Some (JObj kvs)"
  unfolding revive_object_def by (cases "getp (JObj kvs) ''__bigint__''") auto

lemma tag_not_undef: "plain v \<Longrightarrow> tag v \<noteq> JUndef"
  by (cases v) auto

lemma revive_tag:
  "plain v \<Longrightarrow> revive (json_norm (tag v)) = Some v"
  "plain_list vs \<Longrightarrow> revive_list (json_norm_elems (tag_list vs)) = Some vs"
  "plain_props kvs \<Longrightarrow> revive_props (json_norm_props (tag_props kvs)) = Some kvs"
proof (induction v and vs and kvs rule: tag_tag_list_tag_props.induct)
  case (1 n)
  then show ?case by (simp add: revive_object_def read_show_int)
next
  case (3 kvs)
  then show ?case using revive_plain_object[of kvs] by simp
next
  case (8 k v kvs)
  then show ?case by (simp add: tag_not_undef)
qed simp_all

section \<open>Properties\<close>

text \<open>What a block stores comes back unchanged: reviving the parsed JSON text of a tagged value gives the
  value, nanosecond BigInts included, at every depth.\<close>

lemma stored_value_round_trip:
  assumes "plain v"
  shows "revive (json_norm (tag v)) = Some v \<and> (\<exists>s. json_stringify (tag v) = Some s)"
proof -
  have nb: "no_big (tag v)" "no_big_list (tag_list vs)" "no_big_props (tag_props kvs)" for v vs kvs
    by (induction v and vs and kvs rule: tag_tag_list_tag_props.induct) auto
  show ?thesis using revive_tag(1)[OF assms] json_stringify_total[OF nb(1) tag_not_undef[OF assms]] by simp
qed

lemma stored_value_round_trip_witness:
  "revive (json_norm (tag (JObj [(''timestamp'', JBig (-17)), (''tx'', JArr [JBig 3, JNull])])))
     = Some (JObj [(''timestamp'', JBig (-17)), (''tx'', JArr [JBig 3, JNull])])"
  using stored_value_round_trip[of "JObj [(''timestamp'', JBig (-17)), (''tx'', JArr [JBig 3, JNull])]"] by simp

lemma fromTransaction_body:
  assumes "fromTransaction H D now vt tx m = (Inr b, m')"
  shows "\<exists>body. consensusBody D tx = Some (Some body) \<and> b_hash b = sha256hex H body \<and> b_id b = contentIdOf H body \<and> b_tx b = tx"
  using assms
  by (auto simp: fromTransaction_def new_block_def updateCoordinates_def contentIdOf_def Let_def split: prod.splits sum.splits option.splits)

definition body_fields :: "string set" where
  "body_fields = {''type'', ''xid'', ''event'', ''hash'', ''ts''}"

lemma env_keeps_body:
  "set (jkeys env) \<inter> body_fields = {} \<Longrightarrow> \<exists>kvs'. fold (\<lambda>(k, v) t. set_prop t k v) env (JObj kvs) = JObj kvs' \<and>
     (\<forall>j \<in> body_fields. getp (JObj kvs') j = getp (JObj kvs) j)"
proof (induction env arbitrary: kvs)
  case Nil
  then show ?case by simp
next
  case (Cons p env)
  obtain k v where p: "p = (k, v)" by (cases p)
  have env: "set (jkeys env) \<inter> body_fields = {}" "k \<notin> body_fields" using Cons.prems p by auto
  obtain kvs' where k: "fold (\<lambda>(k, v) t. set_prop t k v) env (JObj (jset kvs k v)) = JObj kvs'"
    "\<forall>j \<in> body_fields. getp (JObj kvs') j = getp (JObj (jset kvs k v)) j"
    using Cons.IH[OF env(1), of "jset kvs k v"] by (elim exE conjE)
  have "\<forall>j \<in> body_fields. getp (JObj (jset kvs k v)) j = getp (JObj kvs) j"
    using env(2) by (auto simp: jget_jset)
  then have "\<forall>j \<in> body_fields. getp (JObj kvs') j = getp (JObj kvs) j" using k(2) by simp
  then show ?case using k(1) p by (intro exI[of _ kvs']) simp
qed

text \<open>C15: The identity of a block is its content: two nodes that build a block from the same datum, whatever
  clocks, signatures, relayers and submission ids they put around it, give it the same hash and id.\<close>

theorem block_identity_is_content:
  assumes "fromTransaction H D now vt (JObj kvs) m = (Inr b, m')"
    "fromTransaction H D now' vt' (fold (\<lambda>(k, v) t. set_prop t k v) env (JObj kvs)) n = (Inr b', n')"
    "set (jkeys env) \<inter> {''type'', ''xid'', ''event'', ''hash'', ''ts''} = {}"
  shows "b_hash b' = b_hash b \<and> b_id b' = b_id b"
proof -
  obtain kvs' where k: "fold (\<lambda>(k, v) t. set_prop t k v) env (JObj kvs) = JObj kvs'"
    "\<forall>j \<in> body_fields. getp (JObj kvs') j = getp (JObj kvs) j"
    using env_keeps_body[OF assms(3)[folded body_fields_def], of kvs] by auto
  have f: "getp (JObj kvs') ''type'' = getp (JObj kvs) ''type''" "getp (JObj kvs') ''xid'' = getp (JObj kvs) ''xid''"
    "getp (JObj kvs') ''event'' = getp (JObj kvs) ''event''" "getp (JObj kvs') ''hash'' = getp (JObj kvs) ''hash''"
    "getp (JObj kvs') ''ts'' = getp (JObj kvs) ''ts''"
    using k(2) by (simp_all add: body_fields_def del: getp.simps)
  have "is_object (JObj kvs') = is_object (JObj kvs)" by simp
  then have "consensusBody D (JObj kvs') = consensusBody D (JObj kvs)"
    unfolding consensusBody_def f by (simp only:)
  then show ?thesis
    using fromTransaction_body[OF assms(1)] fromTransaction_body[OF assms(2)[unfolded k(1)]] by auto
qed

lemma accepted_fields: "validateXid H tx = Inr True \<Longrightarrow> is_object tx \<and> (\<exists>x. getp tx ''xid'' = JStr x \<and> xid_re x)"
  by (auto simp: validateXid_def split: if_splits jsval.splits)

lemma fromTransaction_accepts:
  assumes "validateXid H tx = Inr True" "validateShape H tx m = (Inr True, m')" "getp tx ''type'' \<noteq> JStr ''anchor''"
  shows "\<exists>b. fromTransaction H D now vt tx m = (Inr b, m')"
  using accepted_fields[OF assms(1)] assms by (auto simp: fromTransaction_def validateTransaction_def consensusBody_def Let_def)

lemma block_identity_is_content_witness:
  "\<exists>tx b b' m m'. fromTransaction (lead 6) (\<lambda>_. None) (JInt 1) JNull tx (miner0 8) = (Inr b, m) \<and>
     fromTransaction (lead 6) (\<lambda>_. None) (JInt 2) (JInt 7) (set_prop tx ''sig'' (JStr ''ab'')) (miner0 8) = (Inr b', m') \<and>
     b_hash b' = b_hash b \<and> b_id b' = b_id b"
proof -
  obtain x n m' where t: "micromineTx (lead 6) sample_tx (miner0 8)
      = (Inr (set_prop (set_prop sample_tx ''xid'' (JStr x)) ''nonce'' (JInt n)), m')"
    using micromineTx_sample by auto
  define kvs where "kvs = obj_entries (set_prop (set_prop sample_tx ''xid'' (JStr x)) ''nonce'' (JInt n))"
  have k: "set_prop (set_prop sample_tx ''xid'' (JStr x)) ''nonce'' (JInt n) = JObj kvs"
    by (simp add: kvs_def sample_tx_def)
  have v: "validateXid (lead 6) (JObj kvs) = Inr True"
    using micromineTx_validates[OF digest_lead memo_ok_miner0 t] unfolding k by (simp add: sample_tx_def)
  then have v': "validateXid (lead 6) (set_prop (JObj kvs) ''sig'' (JStr ''ab'')) = Inr True"
    by (subst validateXid_envelope) simp_all
  have s: "validateShape (lead 6) (JObj kvs) (miner0 8) = (Inr True, miner0 8)"
    "validateShape (lead 6) (set_prop (JObj kvs) ''sig'' (JStr ''ab'')) (miner0 8) = (Inr True, miner0 8)"
    "getp (JObj kvs) ''type'' \<noteq> JStr ''anchor''" "getp (set_prop (JObj kvs) ''sig'' (JStr ''ab'')) ''type'' \<noteq> JStr ''anchor''"
    by (simp_all add: kvs_def sample_tx_def validateShape_def token_type_of_def token_types_def jhas_def)
  obtain b where b: "fromTransaction (lead 6) (\<lambda>_. None) (JInt 1) JNull (JObj kvs) (miner0 8) = (Inr b, miner0 8)"
    using fromTransaction_accepts[OF v s(1,3)] by blast
  obtain b' where b': "fromTransaction (lead 6) (\<lambda>_. None) (JInt 2) (JInt 7) (set_prop (JObj kvs) ''sig'' (JStr ''ab'')) (miner0 8) = (Inr b', miner0 8)"
    using fromTransaction_accepts[OF v' s(2,4)] by blast
  have "b_hash b' = b_hash b \<and> b_id b' = b_id b"
    by (rule block_identity_is_content[OF b, where env = "[(''sig'', JStr ''ab'')]"]) (use b' in simp_all)
  then show ?thesis using b b' by blast
qed

end
