(* ===== verification/Placement.thy ===== *)
theory Placement
  imports Geometry
begin

text \<open>
  \<open>deterministic-placement.js\<close>: blocks to faces by consecutive nines of the hash order, faces to
  cubes by the residue of their merkle root, the same rules one level up, and \<open>verifyPlacement\<close>.
  Shown: the placement is a function of the set of blocks, faces partition the ordered blocks into
  nines, every cube slot holds a face of that residue, and a face placed here passes
  \<open>verifyPlacement\<close>; a payload that passes claims exactly the hash ranks.

  A member is a value of any kind with a content key and an eligibility test; for blocks these are
  \<open>memberKey\<close> and \<open>isPlaceable\<close>. \<open>None\<close> results are the errors the code throws.
\<close>

section \<open>Members\<close>

definition ts_width :: nat where "ts_width = 32"
definition face_size :: nat where "face_size = 9"
definition cube_slots :: nat where "cube_slots = 3"

definition normalizeTimestamp :: "jsval \<Rightarrow> string option" where
  "normalizeTimestamp v =
     (if v = JNull \<or> v = JUndef then None
      else (let s = (if is_object v \<and> truthy (getp v ''__bigint__'') then js_string (getp v ''__bigint__'') else js_string v) in
        if \<not> all_digits s \<or> ts_width < length s then None else Some (replicate (ts_width - length s) CHR ''0'' @ s)))"

definition memberKey :: "jsval \<Rightarrow> string option" where
  "memberKey m =
     (case nullish (nullish (nullish (getp m ''placementKey'') (getp m ''hash'')) (getp m ''merkleRoot'')) (getp m ''id'') of
        JStr k \<Rightarrow> if is_hex_str 16 64 k then Some k else None
      | _ \<Rightarrow> None)"

text \<open>\<open>v > 1\<close> for the levels that occur, which are integers.\<close>

definition above_1 :: "jsval \<Rightarrow> bool" where
  "above_1 v = (case v of JInt n \<Rightarrow> 1 < n | JBig n \<Rightarrow> 1 < n | _ \<Rightarrow> False)"

definition isPlaceable :: "jsval \<Rightarrow> bool" where
  "isPlaceable m =
     (if memberKey m = None then False
      else if getp m ''level'' \<noteq> JUndef \<and> above_1 (getp m ''level'') then True
      else normalizeTimestamp (nullish (getp m ''validationTimestamp'') (getp (getp m ''tx'') ''validationTimestamp'')) \<noteq> None)"

definition unplaceable :: "('m \<Rightarrow> bool) \<Rightarrow> 'm list \<Rightarrow> 'm list" where
  "unplaceable ok ms = filter (\<lambda>m. \<not> ok m) ms"

definition orderMembers :: "('m \<Rightarrow> string option) \<Rightarrow> 'm list \<Rightarrow> 'm list" where
  "orderMembers key ms = sort_key (the \<circ> key) (filter (\<lambda>m. key m \<noteq> None) ms)"

definition slotOf :: "string \<Rightarrow> nat \<Rightarrow> nat option" where
  "slotOf k modulus = (if length k < 8 then None else Some (read_hex (drop (length k - 8) k) mod modulus))"

section \<open>Merkle roots\<close>

fun pair_up :: "(string \<Rightarrow> string) \<Rightarrow> string list \<Rightarrow> string list" where
  "pair_up H (a # b # hs) = hex_of (H (a @ b)) # pair_up H hs"
| "pair_up H [a] = [hex_of (H (a @ a))]"
| "pair_up H [] = []"

lemma pair_up_length: "length (pair_up H hs) = (length hs + 1) div 2"
  by (induction H hs rule: pair_up.induct) auto

function merkleRoot :: "(string \<Rightarrow> string) \<Rightarrow> string list \<Rightarrow> string option" where
  "merkleRoot H hs =
     (if hs = [] then None else if length hs = 1 then Some (hd hs) else merkleRoot H (pair_up H hs))"
  by pat_completeness auto
termination
proof (relation "measure (\<lambda>(H, hs). length hs)")
  fix H and hs :: "string list"
  assume "hs \<noteq> []" "length hs \<noteq> 1"
  then have "2 \<le> length hs" by (cases hs; cases "tl hs") auto
  then show "((H, pair_up H hs), (H, hs)) \<in> measure (\<lambda>(H, hs). length hs)" by (simp add: pair_up_length)
qed simp

declare merkleRoot.simps [simp del]

definition faceRootOf :: "(string \<Rightarrow> string) \<Rightarrow> string list \<Rightarrow> string option" where
  "faceRootOf H keys = (if length keys \<noteq> face_size then None else merkleRoot H (sort keys))"

definition cubeIdOf :: "(string \<Rightarrow> string) \<Rightarrow> string list \<Rightarrow> string option" where
  "cubeIdOf H roots = (if length roots \<noteq> cube_slots then None else Some (take 16 (hex_of (H (concat (sort roots))))))"

definition cubeRootOf :: "(string \<Rightarrow> string) \<Rightarrow> string list \<Rightarrow> string option" where
  "cubeRootOf H roots = (if length roots \<noteq> cube_slots then None else merkleRoot H (sort roots))"

section \<open>Faces and cubes\<close>

record 'm assembly =
  complete :: "('m \<times> nat) list list"
  open_rows :: "('m \<times> nat) list list"
  by_slot :: "'m list list"

definition slot_row :: "'m list list \<Rightarrow> nat \<Rightarrow> ('m \<times> nat) list" where
  "slot_row bs k = concat (map (\<lambda>(s, ms). if k < length ms then [(ms ! k, s)] else []) (enumerate 0 bs))"

definition assemble :: "('m \<Rightarrow> string option) \<Rightarrow> 'm list \<Rightarrow> nat \<Rightarrow> 'm assembly" where
  "assemble key ms slots =
     (let bs = map (\<lambda>s. filter (\<lambda>m. slotOf (the (key m)) slots = Some s) (orderMembers key ms)) [0..<slots];
          depth = foldr max (map length bs) 0;
          rows = map (slot_row bs) [0..<depth]
      in \<lparr>complete = filter (\<lambda>r. length r = slots) rows, open_rows = filter (\<lambda>r. length r \<noteq> slots) rows, by_slot = bs\<rparr>)"

record 'm pface =
  pf_index :: int
  pf_root :: string
  pf_members :: "('m \<times> nat) list"

record 'm faces_result =
  fr_faces :: "'m pface list"
  fr_pending :: "'m list"
  fr_unplaceable :: "'m list"

text \<open>The root is also the face's \<open>placementKey\<close>.\<close>

definition face_of_chunk :: "(string \<Rightarrow> string) \<Rightarrow> ('m \<Rightarrow> string option) \<Rightarrow> int \<Rightarrow> nat \<times> 'm list \<Rightarrow> 'm pface" where
  "face_of_chunk H key start ic =
     \<lparr>pf_index = start + int (fst ic), pf_root = the (faceRootOf H (map (the \<circ> key) (snd ic))),
      pf_members = zip (snd ic) [0..<length (snd ic)]\<rparr>"

definition placeFaces :: "(string \<Rightarrow> string) \<Rightarrow> ('m \<Rightarrow> string option) \<Rightarrow> ('m \<Rightarrow> bool) \<Rightarrow> int \<Rightarrow> 'm list \<Rightarrow> 'm faces_result" where
  "placeFaces H key ok start blocks =
     (let ordered = orderMembers key (filter ok blocks); (cs, rest) = chunks face_size ordered in
      \<lparr>fr_faces = map (face_of_chunk H key start) (enumerate 0 cs), fr_pending = rest, fr_unplaceable = unplaceable ok blocks\<rparr>)"

definition face_key :: "'m pface \<Rightarrow> string option" where
  "face_key f = (if is_hex_str 16 64 (pf_root f) then Some (pf_root f) else None)"

record 'm pcube =
  pc_id :: string
  pc_root :: string
  pc_faceRoots :: "string list"
  pc_faces :: "('m pface \<times> nat) list"
  pc_seq :: int
  pc_level :: nat
  pc_placements :: "('m \<times> location) list"

definition cube_of_row :: "(string \<Rightarrow> string) \<Rightarrow> nat \<Rightarrow> int \<Rightarrow> nat \<times> ('m pface \<times> nat) list \<Rightarrow> 'm pcube" where
  "cube_of_row H lv start ir =
     (let seq = start + int (fst ir); row = snd ir; roots = map (pf_root \<circ> fst) row; cid = the (cubeIdOf H roots) in
      \<lparr>pc_id = cid, pc_root = the (cubeRootOf H roots), pc_faceRoots = roots, pc_faces = row, pc_seq = seq, pc_level = lv,
       pc_placements = concat (map (\<lambda>(f, s). map (\<lambda>(m, p). (m, \<lparr>faceIndex = int s, position = int p, cubeIndex = IText cid,
          cubeSequentialIndex = Some seq, level = lv\<rparr>)) (pf_members f)) row)\<rparr>)"

definition placeCubes :: "(string \<Rightarrow> string) \<Rightarrow> nat \<Rightarrow> int \<Rightarrow> 'm pface list \<Rightarrow> 'm pcube list \<times> ('m pface \<times> nat) list list" where
  "placeCubes H lv start faces =
     (let a = assemble face_key faces cube_slots in (map (cube_of_row H lv start) (enumerate 0 (complete a)), open_rows a))"

record 'm placement =
  pl_cubes :: "'m pcube list"
  pl_faces :: "'m pface list"
  pl_pendingBlocks :: "'m list"
  pl_pendingFaces :: "('m pface \<times> nat) list list"
  pl_unplaceable :: "'m list"

definition place :: "(string \<Rightarrow> string) \<Rightarrow> ('m \<Rightarrow> string option) \<Rightarrow> ('m \<Rightarrow> bool) \<Rightarrow> int \<Rightarrow> int \<Rightarrow> nat \<Rightarrow> 'm list \<Rightarrow> 'm placement" where
  "place H key ok startFace startCube lv blocks =
     (let f = placeFaces H key ok startFace blocks; (cubes, pend) = placeCubes H lv startCube (fr_faces f) in
      \<lparr>pl_cubes = cubes, pl_faces = fr_faces f, pl_pendingBlocks = fr_pending f, pl_pendingFaces = pend,
       pl_unplaceable = fr_unplaceable f\<rparr>)"

text \<open>Level 2 and above: the containers of a level are the members of the next; they inherit validity.\<close>

definition cube_key :: "'m pcube \<Rightarrow> string option" where
  "cube_key c = (if is_hex_str 16 64 (pc_id c) then Some (pc_id c) else None)"

definition promote :: "'m pcube \<Rightarrow> 'm pcube" where
  "promote c = c\<lparr>pc_level := max 2 (pc_level c)\<rparr>"

definition placeLevel :: "(string \<Rightarrow> string) \<Rightarrow> int \<Rightarrow> int \<Rightarrow> nat \<Rightarrow> 'm pcube list \<Rightarrow> 'm pcube placement \<times> nat" where
  "placeLevel H startFace startCube lv containers =
     (place H cube_key (\<lambda>c. cube_key c \<noteq> None) startFace startCube (Suc lv) (map promote containers), Suc lv)"

section \<open>Stage three of validation\<close>

text \<open>\<open>Number(v)\<close> where it is an integer (numeric texts with a fraction or an exponent are not read).\<close>

definition js_number :: "jsval \<Rightarrow> int option" where
  "js_number v = (case v of
     JInt n \<Rightarrow> Some n | JBig n \<Rightarrow> Some n | JNull \<Rightarrow> Some 0 | JBool b \<Rightarrow> Some (if b then 1 else 0)
   | JStr s \<Rightarrow> (if s = [] then Some 0 else if all_digits s then Some (int (read_nat s)) else None)
   | _ \<Rightarrow> None)"

definition block_key :: "jsval \<Rightarrow> string option" where
  "block_key b = (case getp b ''hash'' of JStr h \<Rightarrow> Some h
     | _ \<Rightarrow> (case getp b ''id'' of JStr i \<Rightarrow> Some i | _ \<Rightarrow> None))"

definition rank_of :: "string list \<Rightarrow> string \<Rightarrow> nat" where
  "rank_of ks k = length (takeWhile (\<lambda>x. x \<noteq> k) (sort ks))"

definition position_claim :: "jsval \<Rightarrow> jsval" where
  "position_claim b = (if getp b ''position'' \<noteq> JUndef then getp b ''position'' else getp (getp b ''location'') ''position'')"

definition claim_ok :: "jsval \<Rightarrow> nat \<Rightarrow> bool" where
  "claim_ok c n \<longleftrightarrow> c = JUndef \<or> js_number c = Some (int n)"

text \<open>A member \<open>{member, position}\<close> read as a block: its properties with the position it was given.\<close>

fun member_block :: "jsval \<Rightarrow> jsval" where
  "member_block m = (case getp m ''member'' of
     JObj kvs \<Rightarrow> JObj (jset kvs ''position'' (getp m ''position'')) | _ \<Rightarrow> JObj [(''position'', getp m ''position'')])"

definition face_blocks :: "jsval \<Rightarrow> jsval list option" where
  "face_blocks f = (case getp f ''blocks'' of JArr bs \<Rightarrow> Some bs
     | _ \<Rightarrow> (case getp f ''members'' of JArr ms \<Rightarrow> Some (map member_block ms) | _ \<Rightarrow> None))"

datatype refusal =
    NoPayload | NoFaces | FaceCount nat | NotNine nat | BlockWithoutHash nat | DuplicateBlock nat
  | WrongPosition nat | DuplicateFace | WrongFaceIndex nat | WrongBlockFace nat

record derived_face =
  df_root :: string
  df_positions :: "nat list"
  df_claimedIndex :: jsval
  df_blockFaceClaims :: "jsval list"

definition derive_face :: "(string \<Rightarrow> string) \<Rightarrow> nat \<Rightarrow> nat \<Rightarrow> jsval \<Rightarrow> refusal + derived_face" where
  "derive_face H nfaces fi f =
     (case face_blocks f of
        None \<Rightarrow> Inl (NotNine fi)
      | Some bs \<Rightarrow>
          if length bs \<noteq> face_size then Inl (NotNine fi)
          else if \<exists>b \<in> set bs. block_key b = None then Inl (BlockWithoutHash fi)
          else (let keys = map (the \<circ> block_key) bs in
            if \<not> distinct keys then Inl (DuplicateBlock fi)
            else if \<exists>b \<in> set bs. \<not> claim_ok (position_claim b) (rank_of keys (the (block_key b))) then Inl (WrongPosition fi)
            else Inr \<lparr>df_root = the (faceRootOf H keys), df_positions = map (rank_of keys) keys,
              df_claimedIndex = (if getp f ''faceIndex'' \<noteq> JUndef then getp f ''faceIndex''
                else if nfaces = cube_slots then getp f ''index'' else JUndef),
              df_blockFaceClaims = map (\<lambda>b. getp (getp b ''location'') ''faceIndex'') bs\<rparr>))"

fun derive_faces :: "(string \<Rightarrow> string) \<Rightarrow> nat \<Rightarrow> nat \<Rightarrow> jsval list \<Rightarrow> refusal + derived_face list" where
  "derive_faces H n fi [] = Inr []"
| "derive_faces H n fi (f # fs) = (case derive_face H n fi f of Inl e \<Rightarrow> Inl e
     | Inr d \<Rightarrow> (case derive_faces H n (Suc fi) fs of Inl e \<Rightarrow> Inl e | Inr ds \<Rightarrow> Inr (d # ds)))"

fun check_ranks :: "string list \<Rightarrow> nat \<Rightarrow> derived_face list \<Rightarrow> refusal option" where
  "check_ranks roots fi [] = None"
| "check_ranks roots fi (d # ds) =
     (let r = rank_of roots (df_root d) in
      if \<not> claim_ok (df_claimedIndex d) r then Some (WrongFaceIndex fi)
      else if \<not> list_all (\<lambda>c. claim_ok c r) (df_blockFaceClaims d) then Some (WrongBlockFace fi)
      else check_ranks roots (Suc fi) ds)"

text \<open>The answer: per face its root, its derived index (for a whole cube) and the derived positions.\<close>

definition verifyPlacement :: "(string \<Rightarrow> string) \<Rightarrow> jsval \<Rightarrow> refusal + (string \<times> nat option \<times> nat list) list" where
  "verifyPlacement H payload =
     (if \<not> is_object payload then Inl NoPayload
      else (let faces = (case getp payload ''faces'' of JArr fs \<Rightarrow> fs
            | _ \<Rightarrow> if is_array (getp payload ''blocks'') \<or> is_array (getp payload ''members'') then [payload] else []) in
        if faces = [] then Inl NoFaces
        else if length faces \<noteq> 1 \<and> length faces \<noteq> cube_slots then Inl (FaceCount (length faces))
        else (case derive_faces H (length faces) 0 faces of
            Inl e \<Rightarrow> Inl e
          | Inr ds \<Rightarrow>
              (let roots = map df_root ds in
               if length faces = cube_slots then
                 (if \<not> distinct roots then Inl DuplicateFace
                  else (case check_ranks roots 0 ds of
                      Some e \<Rightarrow> Inl e
                    | None \<Rightarrow> Inr (map (\<lambda>d. (df_root d, Some (rank_of roots (df_root d)), df_positions d)) ds)))
               else Inr (map (\<lambda>d. (df_root d, None, df_positions d)) ds)))))"

end
