(* ===== verification/PlacementProps.thy ===== *)
theory PlacementProps
  imports Placement
begin

text \<open>
  The laws of \<open>deterministic-placement.js\<close>: independence of arrival order, the shape of faces and
  cubes, and the agreement between placement and \<open>verifyPlacement\<close>.
\<close>

section \<open>Order independence\<close>

lemma orderMembers_perm:
  assumes "mset xs = mset ys" "distinct (map key xs)"
  shows "orderMembers key xs = orderMembers key ys"
proof -
  have "inj_on (the \<circ> key) (set (filter (\<lambda>m. key m \<noteq> None) xs))"
    using assms(2) by (fastforce simp: distinct_map inj_on_def)
  then show ?thesis
    unfolding orderMembers_def by (intro sort_key_mset_cong) (use assms(1) in simp_all)
qed

interpretation om: set_determined key "orderMembers key" for key :: "'m \<Rightarrow> string option"
  by unfold_locales (rule orderMembers_perm)

lemma placeFaces_perm:
  assumes "mset xs = mset ys" "distinct (map key xs)"
  shows "fr_faces (placeFaces H key ok n xs) = fr_faces (placeFaces H key ok n ys) \<and>
    fr_pending (placeFaces H key ok n xs) = fr_pending (placeFaces H key ok n ys)"
proof -
  have "orderMembers key (filter ok xs) = orderMembers key (filter ok ys)"
    by (rule om.order_free) (use assms in \<open>simp_all add: distinct_map_filter\<close>)
  then show ?thesis by (simp add: placeFaces_def Let_def split: prod.split)
qed

definition placed_set :: "'m placement \<Rightarrow> 'm pcube list \<times> 'm pface list \<times> 'm list \<times> ('m pface \<times> nat) list list" where
  "placed_set p = (pl_cubes p, pl_faces p, pl_pendingBlocks p, pl_pendingFaces p)"

interpretation placing: set_determined key "\<lambda>ms. placed_set (place H key ok n c lv ms)"
  for H and key :: "'m \<Rightarrow> string option" and ok n c lv
proof
  fix xs ys :: "'m list"
  assume "mset xs = mset ys" "distinct (map key xs)"
  then show "placed_set (place H key ok n c lv xs) = placed_set (place H key ok n c lv ys)"
    using placeFaces_perm[of xs ys key H ok n] by (simp add: placed_set_def place_def Let_def split: prod.split)
qed

section \<open>The shape of faces\<close>

lemma enumerate_map_snd: "map snd (enumerate n xs) = xs"
  by simp

lemma placed_chunks:
  "\<exists>cs. fr_faces (placeFaces H key ok n bs) = map (face_of_chunk H key n) (enumerate 0 cs) \<and>
     concat cs @ fr_pending (placeFaces H key ok n bs) = orderMembers key (filter ok bs) \<and>
     (\<forall>c \<in> set cs. length c = 9) \<and> length (fr_pending (placeFaces H key ok n bs)) < 9"
proof -
  let ?c = "chunks face_size (orderMembers key (filter ok bs))"
  have "0 < face_size" by (simp add: face_size_def)
  note c = chunks_spec[OF this, of "orderMembers key (filter ok bs)"]
  have "fr_faces (placeFaces H key ok n bs) = map (face_of_chunk H key n) (enumerate 0 (fst ?c))"
    "fr_pending (placeFaces H key ok n bs) = snd ?c"
    by (simp_all add: placeFaces_def Let_def split: prod.split)
  then show ?thesis using c by (intro exI[of _ "fst ?c"]) (simp add: face_size_def)
qed

lemma chunk_members: "map fst (pf_members (face_of_chunk H key n (i, c))) = c"
  "map snd (pf_members (face_of_chunk H key n (i, c))) = [0..<length c]"
  by (simp_all add: face_of_chunk_def)

lemma chunk_members_all: "map (map fst \<circ> pf_members) (map (face_of_chunk H key n) (enumerate i cs)) = cs"
  by (induction cs arbitrary: i) (simp_all add: chunk_members)

section \<open>The shape of cubes\<close>

lemma slot_row_slots: "map snd (concat (map (\<lambda>(s, ms). if k < length ms then [(ms ! k, s)] else []) (enumerate n bs)))
    = map fst (filter (\<lambda>(s, ms). k < length ms) (enumerate n bs))"
  by (induction bs arbitrary: n) auto

lemma full_row_slots:
  assumes "length (slot_row bs k) = length bs"
  shows "map snd (slot_row bs k) = [0..<length bs]"
proof -
  let ?P = "\<lambda>(s, ms). k < length (ms :: 'a list)"
  have "length (filter ?P (enumerate 0 bs)) = length (enumerate 0 bs)"
    using arg_cong[OF slot_row_slots[of k 0 bs], of length] assms by (simp add: slot_row_def)
  then have "filter ?P (enumerate 0 bs) = enumerate 0 bs" by (metis filter_True length_filter_less less_irrefl)
  then show ?thesis unfolding slot_row_def slot_row_slots by simp
qed

lemma slot_row_in: "(m, s) \<in> set (slot_row bs k) \<Longrightarrow> s < length bs \<and> m \<in> set (bs ! s)"
  unfolding slot_row_def by (auto simp: in_set_enumerate_eq split: if_splits)

lemma cube_rows:
  assumes "row \<in> set (complete (assemble key ms slots))"
  shows "map snd row = [0..<slots] \<and> (\<forall>(m, s) \<in> set row. slotOf (the (key m)) slots = Some s \<and> m \<in> set ms \<and> key m \<noteq> None)"
proof -
  let ?bs = "map (\<lambda>s. filter (\<lambda>m. slotOf (the (key m)) slots = Some s) (orderMembers key ms)) [0..<slots]"
  obtain k where k: "row = slot_row ?bs k" "length row = slots"
    using assms by (auto simp: assemble_def Let_def)
  have "map snd row = [0..<slots]" using full_row_slots[of ?bs k] k by simp
  moreover have "slotOf (the (key m)) slots = Some s \<and> m \<in> set ms \<and> key m \<noteq> None" if "(m, s) \<in> set row" for m s
    using slot_row_in[of m s ?bs k] that k(1) by (auto simp: orderMembers_def)
  ultimately show ?thesis by blast
qed

lemma cube_placements:
  "map (\<lambda>(m, l). (faceIndex l, position l)) (pc_placements (cube_of_row H lv st (i, row)))
   = concat (map (\<lambda>(f, s). map (\<lambda>p. (int s, int p)) (map snd (pf_members f))) row)"
  by (simp add: cube_of_row_def Let_def map_concat comp_def split_def)

lemma place_cube:
  assumes "c \<in> set (fst (placeCubes H lv st faces))" "\<forall>f \<in> set faces. map snd (pf_members f) = [0..<9]"
  shows "map snd (pc_faces c) = [0, 1, 2] \<and>
    (\<forall>(f, s) \<in> set (pc_faces c). slotOf (pf_root f) 3 = Some s \<and> f \<in> set faces) \<and>
    map (\<lambda>(m, l). (faceIndex l, position l)) (pc_placements c) = concat (map (\<lambda>s. map (\<lambda>p. (int s, int p)) [0..<9]) [0, 1, 2])"
proof -
  obtain i row where c: "c = cube_of_row H lv st (i, row)" "row \<in> set (complete (assemble face_key faces cube_slots))"
    using assms(1) by (auto simp: placeCubes_def Let_def in_set_enumerate_eq)
  note r = cube_rows[OF c(2)]
  have pf: "pc_faces c = row" unfolding c(1) by (simp add: cube_of_row_def Let_def)
  have s: "map snd row = [0, 1, 2]" using r by (simp add: cube_slots_def upt_rec)
  have f: "slotOf (pf_root f) 3 = Some j \<and> f \<in> set faces" if "(f, j) \<in> set row" for f j
    using r that by (auto simp: face_key_def cube_slots_def split: if_splits)
  have "map (\<lambda>(f, s). map (\<lambda>p. (int s, int p)) (map snd (pf_members f))) row
      = map (\<lambda>(f, s). map (\<lambda>p. (int s, int p)) [0..<9]) row"
    by (rule map_cong[OF refl]) (use f assms(2) in \<open>auto simp del: map_map\<close>)
  also have "\<dots> = map (\<lambda>s. map (\<lambda>p. (int s, int p)) [0..<9]) (map snd row)" by (simp add: comp_def split_def)
  finally have "map (\<lambda>(m, l). (faceIndex l, position l)) (pc_placements c)
      = concat (map (\<lambda>s. map (\<lambda>p. (int s, int p)) [0..<9]) [0, 1, 2])"
    unfolding c(1) cube_placements s by simp
  then show ?thesis using s f unfolding pf by auto
qed

section \<open>Ranks\<close>

lemma rank_at: "distinct ks \<Longrightarrow> sorted ks \<Longrightarrow> i < length ks \<Longrightarrow> rank_of ks (ks ! i) = i"
proof -
  assume a: "distinct ks" "sorted ks" "i < length ks"
  have "takeWhile (\<lambda>x. x \<noteq> ks ! i) ks = take i ks"
    by (rule takeWhile_eq_take_P_nth) (use a in \<open>auto simp: nth_eq_iff_index_eq\<close>)
  then show ?thesis using a by (simp add: rank_of_def sorted_sort_id)
qed

lemma ranks: "distinct ks \<Longrightarrow> sorted ks \<Longrightarrow> map (rank_of ks) ks = [0..<length ks]"
  by (rule nth_equalityI) (simp_all add: rank_at)

section \<open>A placed face verifies\<close>

text \<open>The object \<open>placeFaces\<close> pushes for a face.\<close>

definition face_payload :: "jsval pface \<Rightarrow> jsval" where
  "face_payload f = JObj [(''index'', JInt (pf_index f)), (''merkleRoot'', JStr (pf_root f)), (''placementKey'', JStr (pf_root f)),
     (''members'', JArr (map (\<lambda>(b, p). JObj [(''member'', b), (''position'', JInt (int p))]) (pf_members f)))]"

text \<open>A block as the ledger makes them: an object keyed by its own hash.\<close>

definition own_hash :: "jsval \<Rightarrow> bool" where
  "own_hash b \<longleftrightarrow> (\<exists>kvs h. b = JObj kvs \<and> getp b ''hash'' = JStr h \<and> memberKey b = Some h)"

lemma member_block_key:
  assumes "own_hash b"
  shows "block_key (member_block (JObj [(''member'', b), (''position'', JInt p)])) = memberKey b"
    "position_claim (member_block (JObj [(''member'', b), (''position'', JInt p)])) = JInt p"
  using assms by (auto simp: own_hash_def block_key_def position_claim_def jget_jset)

lemma payload_blocks:
  "face_blocks (face_payload f) = Some (map (\<lambda>(b, p). member_block (JObj [(''member'', b), (''position'', JInt (int p))])) (pf_members f))"
  by (simp add: face_blocks_def face_payload_def split_def comp_def)

lemma derive_placed:
  assumes "length c = 9" "list_all own_hash c" "sorted (map (the \<circ> memberKey) c)" "distinct (map (the \<circ> memberKey) c)"
    "f = face_of_chunk H memberKey n (i, c)"
  shows "\<exists>d. derive_face H 1 0 (face_payload f) = Inr d \<and> df_root d = pf_root f \<and> df_positions d = [0..<9]"
proof -
  let ?bs = "map (\<lambda>(b, p). member_block (JObj [(''member'', b), (''position'', JInt (int p))])) (pf_members f)"
  have pm: "pf_members f = zip c [0..<9]" using assms(1,5) by (simp add: face_of_chunk_def)
  have own: "own_hash b \<and> memberKey b \<noteq> None" if "b \<in> set c" for b using assms(2) that by (auto simp: list_all_iff own_hash_def)
  have key: "block_key x = memberKey b" if "x = member_block (JObj [(''member'', b), (''position'', JInt (int p))])" "b \<in> set c" for x b p
    using member_block_key(1) own that by auto
  have keys: "map (the \<circ> block_key) ?bs = map (the \<circ> memberKey) c"
    by (rule nth_equalityI) (use pm assms(1) own in \<open>auto simp: member_block_key(1) simp del: member_block.simps\<close>)
  have none: "\<not> (\<exists>x \<in> set ?bs. block_key x = None)"
    using own pm by (auto simp: member_block_key(1) simp del: member_block.simps dest!: set_zip_leftD)
  have claims: "\<not> (\<exists>x \<in> set ?bs. \<not> claim_ok (position_claim x) (rank_of (map (the \<circ> memberKey) c) (the (block_key x))))"
  proof -
    have "claim_ok (position_claim x) (rank_of (map (the \<circ> memberKey) c) (the (block_key x)))"
      if x: "x = member_block (JObj [(''member'', c ! j), (''position'', JInt (int j))])" "j < 9" for x j
    proof -
      have "c ! j \<in> set c" using x(2) assms(1) by simp
      then have "position_claim x = JInt (int j)" "block_key x = memberKey (c ! j)"
        using member_block_key own unfolding x(1) by blast+
      then show ?thesis using rank_at[OF assms(4,3), of j] x(2) assms(1) by (simp add: claim_ok_def js_number_def)
    qed
    then show ?thesis unfolding pm by (auto simp: in_set_zip assms(1) simp del: member_block.simps)
  qed
  have "length ?bs = face_size" using pm assms(1) by (simp add: face_size_def)
  moreover have "map (rank_of (map (the \<circ> memberKey) c)) (map (the \<circ> memberKey) c) = [0..<9]"
    using ranks[OF assms(4,3)] assms(1) by simp
  moreover have "pf_root f = the (faceRootOf H (map (the \<circ> memberKey) c))" using assms(5) by (simp add: face_of_chunk_def)
  ultimately show ?thesis
    unfolding derive_face_def payload_blocks option.case keys Let_def using none claims assms(4) by simp
qed

section \<open>Properties\<close>

text \<open>C4: Cubes, faces and what stays pending are a function of the set of blocks: two nodes that hold the same
  blocks, in any arrival order, place them identically.\<close>

theorem place_order_independent:
  assumes "set bs = set bs'" "distinct (map memberKey bs)" "distinct (map memberKey bs')"
  shows "pl_cubes (place H memberKey isPlaceable n c lv bs) = pl_cubes (place H memberKey isPlaceable n c lv bs') \<and>
    pl_faces (place H memberKey isPlaceable n c lv bs) = pl_faces (place H memberKey isPlaceable n c lv bs') \<and>
    pl_pendingBlocks (place H memberKey isPlaceable n c lv bs) = pl_pendingBlocks (place H memberKey isPlaceable n c lv bs') \<and>
    pl_pendingFaces (place H memberKey isPlaceable n c lv bs) = pl_pendingFaces (place H memberKey isPlaceable n c lv bs')"
  using placing.same_set[OF assms, of H isPlaceable n c lv] by (simp add: placed_set_def)

text \<open>A block with a digit's hash, for concrete inputs.\<close>

definition sample_block :: "nat \<Rightarrow> jsval" where
  "sample_block n = JObj [(''hash'', JStr (replicate 15 CHR ''0'' @ [hex_char n])), (''validationTimestamp'', JStr ''17'')]"

definition toy_hash :: "string \<Rightarrow> string" where
  "toy_hash s = replicate 31 (char_of (0 :: nat)) @ [char_of (hex_val (last s))]"

lemma sample_blocks_ok:
  "distinct (map memberKey (map sample_block [0..<9]))" "distinct (map memberKey (rev (map sample_block [0..<9])))"
  by code_simp+

lemma place_order_independent_witness:
  "pl_faces (place toy_hash memberKey isPlaceable 0 0 1 (map sample_block [0..<9]))
   = pl_faces (place toy_hash memberKey isPlaceable 0 0 1 (rev (map sample_block [0..<9])))"
  using place_order_independent[of "map sample_block [0..<9]" "rev (map sample_block [0..<9])" toy_hash 0 0 1] sample_blocks_ok
  by simp

text \<open>Placing loses no block: the faces' blocks, nine each at positions 0 to 8, followed by the pending
  ones, fewer than nine, are exactly the eligible blocks in hash order.\<close>

lemma faces_partition_blocks:
  "concat (map (map fst \<circ> pf_members) (fr_faces (placeFaces H key ok n bs))) @ fr_pending (placeFaces H key ok n bs)
     = orderMembers key (filter ok bs) \<and>
   map (map snd \<circ> pf_members) (fr_faces (placeFaces H key ok n bs))
     = replicate (length (fr_faces (placeFaces H key ok n bs))) [0..<9] \<and>
   length (fr_pending (placeFaces H key ok n bs)) < 9"
proof -
  obtain cs where cs: "fr_faces (placeFaces H key ok n bs) = map (face_of_chunk H key n) (enumerate 0 cs)"
    "concat cs @ fr_pending (placeFaces H key ok n bs) = orderMembers key (filter ok bs)"
    "\<forall>c \<in> set cs. length c = 9" "length (fr_pending (placeFaces H key ok n bs)) < 9"
    using placed_chunks[of H key ok n bs] by blast
  have "map snd (pf_members f) = [0..<9]" if "f \<in> set (fr_faces (placeFaces H key ok n bs))" for f
    using that cs(1,3) by (auto simp: chunk_members in_set_enumerate_eq)
  then have "map (map snd \<circ> pf_members) (fr_faces (placeFaces H key ok n bs))
      = replicate (length (fr_faces (placeFaces H key ok n bs))) [0..<9]"
    by (intro replicate_eqI) auto
  then show ?thesis using cs chunk_members_all[of H key n 0 cs] by simp
qed

text \<open>A cube made of faces of nine blocks holds one face for each of the three residues of a face's root,
  in that order, and puts each of its 27 blocks at a place of its own.\<close>

lemma cubes_fill_their_slots:
  assumes "c \<in> set (fst (placeCubes H lv st faces))" "\<forall>f \<in> set faces. map snd (pf_members f) = [0..<9]"
  shows "map snd (pc_faces c) = [0, 1, 2] \<and> (\<forall>(f, s) \<in> set (pc_faces c). f \<in> set faces \<and> slotOf (pf_root f) 3 = Some s) \<and>
    length (pc_placements c) = 27 \<and> distinct (map (\<lambda>(m, l). (faceIndex l, position l)) (pc_placements c))"
proof -
  let ?l = "concat (map (\<lambda>s. map (\<lambda>p. (int s, int p)) [0..<9]) [0, 1, 2])"
  note p = place_cube[OF assms]
  have "length ?l = 27 \<and> distinct ?l" by (simp add: upt_rec)
  moreover have "length (pc_placements c) = length ?l" using p by (metis length_map)
  ultimately show ?thesis using p by auto
qed

definition residue_faces :: "nat pface list" where
  "residue_faces = map (\<lambda>d. \<lparr>pf_index = 0, pf_root = replicate 15 CHR ''0'' @ [d], pf_members = zip [0..<9] [0..<9]\<rparr>) ''135''"

lemma residue_cube: "map pc_faces (fst (placeCubes toy_hash 1 0 residue_faces))
   = [[(residue_faces ! 1, 0), (residue_faces ! 0, 1), (residue_faces ! 2, 2)]]"
  by code_simp

lemma cubes_fill_their_slots_witness:
  "\<exists>c \<in> set (fst (placeCubes toy_hash 1 0 residue_faces)).
     map snd (pc_faces c) = [0, 1, 2] \<and> length (pc_placements c) = 27"
proof -
  obtain c where c: "c \<in> set (fst (placeCubes toy_hash 1 0 residue_faces))"
    using residue_cube by (cases "fst (placeCubes toy_hash 1 0 residue_faces)") auto
  have "\<forall>f \<in> set residue_faces. map snd (pf_members f) = [0..<9]" by (simp add: residue_faces_def)
  note cubes_fill_their_slots[OF c this]
  then show ?thesis using c by (intro bexI[of _ c]) simp_all
qed

text \<open>A face that \<open>placeFaces\<close> makes of blocks keyed by their hash passes \<open>verifyPlacement\<close>, which derives
  its root and its positions.\<close>

lemma placed_face_verifies:
  assumes "f \<in> set (fr_faces (placeFaces H memberKey isPlaceable n bs))" "list_all own_hash bs" "distinct (map memberKey bs)"
  shows "verifyPlacement H (face_payload f) = Inr [(pf_root f, None, [0..<9])]"
proof -
  let ?o = "orderMembers memberKey (filter isPlaceable bs)"
  obtain cs where cs: "fr_faces (placeFaces H memberKey isPlaceable n bs) = map (face_of_chunk H memberKey n) (enumerate 0 cs)"
    "concat cs @ fr_pending (placeFaces H memberKey isPlaceable n bs) = ?o" "\<forall>c \<in> set cs. length c = 9"
    using placed_chunks[of H memberKey isPlaceable n bs] by blast
  obtain i c where c: "f = face_of_chunk H memberKey n (i, c)" "c \<in> set cs"
    using assms(1) cs(1) by (auto simp: in_set_enumerate_eq)
  obtain as zs where o: "?o = as @ c @ zs" using cs(2) c(2) by (metis append.assoc concat.simps(2) concat_append in_set_conv_decomp)
  have "sorted (map (the \<circ> memberKey) ?o)" unfolding orderMembers_def by simp
  moreover have "distinct (map (the \<circ> memberKey) ?o)"
  proof -
    have "distinct (map memberKey ?o)" unfolding orderMembers_def
      using assms(3) by (auto simp: distinct_map intro: inj_on_subset)
    moreover have "inj_on the (memberKey ` set ?o)" by (auto simp: inj_on_def orderMembers_def)
    ultimately show ?thesis by (simp add: distinct_map comp_inj_on)
  qed
  moreover have "list_all own_hash c" using assms(2) arg_cong[OF o, of set] by (auto simp: list_all_iff orderMembers_def)
  ultimately obtain d where d: "derive_face H 1 0 (face_payload f) = Inr d" "df_root d = pf_root f" "df_positions d = [0..<9]"
    using derive_placed[of c f H n i] c cs(3) unfolding o by (auto simp: sorted_append)
  have "getp (face_payload f) ''faces'' = JUndef" "is_array (getp (face_payload f) ''members'')" "is_object (face_payload f)"
    by (simp_all add: face_payload_def)
  then show ?thesis using d by (simp add: verifyPlacement_def cube_slots_def)
qed

lemma own_hash_sample: "n < 16 \<Longrightarrow> own_hash (sample_block n) \<and> isPlaceable (sample_block n)"
proof -
  assume "n < 16"
  then have "is_hex (hex_char n)" by (rule is_hex_hex_char)
  moreover have "is_hex (CHR ''0'')" by code_simp
  ultimately have "is_hex_str 16 64 (replicate 15 CHR ''0'' @ [hex_char n])" by (simp add: is_hex_str_def)
  moreover have "normalizeTimestamp (JStr ''17'') \<noteq> None" by code_simp
  ultimately show ?thesis by (simp add: own_hash_def sample_block_def memberKey_def isPlaceable_def)
qed

lemma faces_count: "length (fr_faces (placeFaces H key ok n bs)) = length (filter (\<lambda>m. key m \<noteq> None) (filter ok bs)) div 9"
proof -
  have "0 < face_size" by (simp add: face_size_def)
  note c = chunks_spec[OF this, of "orderMembers key (filter ok bs)"]
  have "length (fr_faces (placeFaces H key ok n bs)) = length (fst (chunks face_size (orderMembers key (filter ok bs))))"
    by (simp add: placeFaces_def Let_def split: prod.split)
  then show ?thesis using c by (simp add: face_size_def orderMembers_def)
qed

lemma sample_face: "length (fr_faces (placeFaces toy_hash memberKey isPlaceable 0 (map sample_block [0..<9]))) = 1"
proof -
  have "isPlaceable x \<and> memberKey x \<noteq> None" if x: "x \<in> set (map sample_block [0..<9])" for x
  proof -
    obtain n where "x = sample_block n" "n < 9" using x by auto
    then have "own_hash x" "isPlaceable x" using own_hash_sample[of n] by simp_all
    then show ?thesis unfolding own_hash_def by blast
  qed
  then have "filter isPlaceable (map sample_block [0..<9]) = map sample_block [0..<9]"
    "filter (\<lambda>m. memberKey m \<noteq> None) (map sample_block [0..<9]) = map sample_block [0..<9]"
    by (auto intro!: filter_True)
  then show ?thesis unfolding faces_count by (simp only: length_map) simp
qed

lemma placed_face_verifies_witness:
  "\<exists>f \<in> set (fr_faces (placeFaces toy_hash memberKey isPlaceable 0 (map sample_block [0..<9]))).
     verifyPlacement toy_hash (face_payload f) = Inr [(pf_root f, None, [0..<9])]"
proof -
  obtain f where f: "f \<in> set (fr_faces (placeFaces toy_hash memberKey isPlaceable 0 (map sample_block [0..<9])))"
    using sample_face by (cases "fr_faces (placeFaces toy_hash memberKey isPlaceable 0 (map sample_block [0..<9]))") auto
  have "list_all own_hash (map sample_block [0..<9])" using own_hash_sample by (auto simp: list_all_iff)
  then show ?thesis using placed_face_verifies[OF f _ sample_blocks_ok(1)] f by blast
qed

text \<open>The two rules of the module differ: there are faces for which the index \<open>placeCubes\<close> gives (the
  root's residue) is not the one \<open>verifyPlacement\<close> derives (the root's rank).\<close>

lemma residue_is_not_rank:
  "\<exists>c \<in> set (fst (placeCubes toy_hash 1 0 residue_faces)). \<exists>(f, s) \<in> set (pc_faces c).
     rank_of (map (pf_root \<circ> fst) (pc_faces c)) (pf_root f) \<noteq> s"
proof -
  obtain c where c: "c \<in> set (fst (placeCubes toy_hash 1 0 residue_faces))"
    "pc_faces c = [(residue_faces ! 1, 0), (residue_faces ! 0, 1), (residue_faces ! 2, 2)]"
    using residue_cube by (cases "fst (placeCubes toy_hash 1 0 residue_faces)") auto
  have "rank_of (map (pf_root \<circ> fst) [(residue_faces ! 1, 0 :: nat), (residue_faces ! 0, 1), (residue_faces ! 2, 2)])
      (pf_root (residue_faces ! 0)) = 0" by code_simp
  then have "\<exists>(f, s) \<in> set (pc_faces c). rank_of (map (pf_root \<circ> fst) (pc_faces c)) (pf_root f) \<noteq> s"
    unfolding c(2) by (intro bexI[of _ "(residue_faces ! 0, 1)"]) simp_all
  then show ?thesis using c(1) by blast
qed

end
