(* ===== verification/LedgerFaces.thy ===== *)
theory LedgerFaces
  imports LedgerBlock PlacementProps
begin

text \<open>
  The mutable face and cube of the ledger: \<open>face.js\<close>, \<open>cube.js\<close>, \<open>super-cube.js\<close>,
  \<open>placement.js\<close> and \<open>face-sealing.js\<close>. Shown: a face never holds more than nine blocks nor one
  hash twice, its nine are in hash order and its root is the one \<open>deterministic-placement.js\<close>
  derives; sealing a pool is a function of the pool's set; a cube's id does not depend on the order
  its three faces arrive in.

  \<open>localeCompare\<close> on the hexadecimal texts it is applied to is the order of characters. Times
  are nanosecond BigInts, or numbers that are whole milliseconds.
\<close>

section \<open>Faces\<close>

record face =
  fc_index :: nat
  fc_timestamp :: int
  fc_blocks :: "(nat, block) jmap"
  fc_pending :: "block list"
  fc_sorted :: bool

definition new_face :: "nat \<Rightarrow> int \<Rightarrow> face" where
  "new_face i ts = \<lparr>fc_index = i, fc_timestamp = ts, fc_blocks = [], fc_pending = [], fc_sorted = False\<rparr>"

definition block_hash :: "(string \<Rightarrow> string) \<Rightarrow> block \<Rightarrow> string" where
  "block_hash H b = (if b_hash b \<noteq> [] then b_hash b else sha256hex H (b_id b))"

definition sortBlocksByHash :: "(string \<Rightarrow> string) \<Rightarrow> block list \<Rightarrow> (nat, block) jmap" where
  "sortBlocksByHash H bs = enumerate 0 (sort_key (block_hash H) bs)"

definition sortAndAssign :: "(string \<Rightarrow> string) \<Rightarrow> face \<Rightarrow> face" where
  "sortAndAssign H f =
     (if fc_sorted f \<and> length (fc_blocks f) = 9 then f
      else f\<lparr>fc_blocks := sortBlocksByHash H (fc_pending f), fc_sorted := True, fc_pending := []\<rparr>)"

text \<open>The flag is the return value: false when the face is full, undefined otherwise.\<close>

definition addBlock :: "(string \<Rightarrow> string) \<Rightarrow> block \<Rightarrow> face \<Rightarrow> bool \<times> face" where
  "addBlock H b f =
     (if \<exists>p \<in> set (fc_pending f). block_hash H p = block_hash H b then (True, f)
      else if 9 \<le> length (fc_blocks f) \<or> 9 \<le> length (fc_pending f) then (False, f)
      else (let f1 = f\<lparr>fc_pending := fc_pending f @ [b]\<rparr> in
        (True, if length (fc_pending f1) = 9 then sortAndAssign H f1 else f1)))"

text \<open>\<open>getBlock\<close> and \<open>getMerkleRoot\<close> sort first when nine blocks are pending.\<close>

definition settle :: "(string \<Rightarrow> string) \<Rightarrow> face \<Rightarrow> face" where
  "settle H f = (if length (fc_pending f) = 9 \<and> \<not> fc_sorted f then sortAndAssign H f else f)"

definition getBlock :: "(string \<Rightarrow> string) \<Rightarrow> nat \<Rightarrow> face \<Rightarrow> block option \<times> face" where
  "getBlock H p f = (let f' = settle H f in (jget (fc_blocks f') p, f'))"

definition isComplete :: "face \<Rightarrow> bool" where
  "isComplete f \<longleftrightarrow> length (fc_blocks f) = 9 \<and> fc_sorted f"

definition zeros64 :: string where
  "zeros64 = replicate 64 CHR ''0''"

text \<open>One level of \<open>_calculateMerkleRoot\<close>: \<open>hashes[i + 1] || left\<close> also skips an empty text.\<close>

fun merkle_level :: "(string \<Rightarrow> string) \<Rightarrow> string list \<Rightarrow> string list" where
  "merkle_level H (a # b # hs) = sha256hex H (a @ (if b \<noteq> [] then b else a)) # merkle_level H hs"
| "merkle_level H [a] = [sha256hex H (a @ a)]"
| "merkle_level H [] = []"

lemma merkle_level_length: "length (merkle_level H hs) = (length hs + 1) div 2"
  by (induction H hs rule: merkle_level.induct) auto

text \<open>The code recurses for ever on an empty list, which no caller passes; it is the empty text here.\<close>

function calculateMerkleRoot :: "(string \<Rightarrow> string) \<Rightarrow> string list \<Rightarrow> string" where
  "calculateMerkleRoot H hs =
     (if hs = [] then [] else if length hs = 1 then hd hs else calculateMerkleRoot H (merkle_level H hs))"
  by pat_completeness auto
termination
proof (relation "measure (\<lambda>(H, hs). length hs)")
  fix H and hs :: "string list"
  assume "hs \<noteq> []" "length hs \<noteq> 1"
  then have "2 \<le> length hs" by (cases hs; cases "tl hs") auto
  then show "((H, merkle_level H hs), (H, hs)) \<in> measure (\<lambda>(H, hs). length hs)" by (simp add: merkle_level_length)
qed simp

declare calculateMerkleRoot.simps [simp del]

definition faceMerkleRoot :: "(string \<Rightarrow> string) \<Rightarrow> face \<Rightarrow> string \<times> face" where
  "faceMerkleRoot H f = (let f' = settle H f in
     (calculateMerkleRoot H (map (\<lambda>i. case jget (fc_blocks f') i of Some b \<Rightarrow> b_hash b | None \<Rightarrow> zeros64) [0..<9]), f'))"

definition face_root :: "(string \<Rightarrow> string) \<Rightarrow> face \<Rightarrow> string" where
  "face_root H f = fst (faceMerkleRoot H f)"

text \<open>A time in nanoseconds; \<open>None\<close> where \<open>BigInt(ts * 1000000)\<close> throws.\<close>

definition nanos :: "jsval \<Rightarrow> int option" where
  "nanos v = (case v of JBig n \<Rightarrow> Some n | JInt ms \<Rightarrow> Some (ms * 1000000) | _ \<Rightarrow> None)"

definition block_time :: "block \<Rightarrow> jsval" where
  "block_time b = nullish (nullish (b_validationTimestamp b) (getp (b_tx b) ''validationTimestamp'')) (b_timestamp b)"

text \<open>BigInt division truncates toward zero.\<close>

definition average :: "int list \<Rightarrow> int" where
  "average ts = (let s = sum_list ts; n = int (length ts) in if s < 0 then - ((- s) div n) else s div n)"

definition faceAverageTimestamp :: "face \<Rightarrow> int option" where
  "faceAverageTimestamp f =
     (let bs = (if fc_pending f \<noteq> [] then fc_pending f else jvalues (fc_blocks f)) in
      if bs = [] then Some (fc_timestamp f)
      else if \<exists>b \<in> set bs. nanos (block_time b) = None then None
      else Some (average (map (the \<circ> nanos \<circ> block_time) bs)))"

section \<open>Cubes\<close>

record cube =
  cb_faces :: "(string, face) jmap"
  cb_id :: "string option"
  cb_timestamp :: int
  cb_level :: "nat option"
  cb_average :: "int option"

definition new_cube :: "int \<Rightarrow> cube" where
  "new_cube ts = \<lparr>cb_faces = [], cb_id = None, cb_timestamp = ts, cb_level = None, cb_average = None\<rparr>"

definition calculateCubeId :: "(string \<Rightarrow> string) \<Rightarrow> face list \<Rightarrow> string" where
  "calculateCubeId H fs = take 16 (sha256hex H (concat (map (face_root H) (sort_key (face_root H) fs))))"

definition addFace :: "(string \<Rightarrow> string) \<Rightarrow> face \<Rightarrow> cube \<Rightarrow> cube" where
  "addFace H f c =
     (let c1 = c\<lparr>cb_faces := jset (cb_faces c) (show_int (fc_timestamp f)) f\<rparr> in
      if length (cb_faces c1) = 3 then c1\<lparr>cb_id := Some (calculateCubeId H (jvalues (cb_faces c1)))\<rparr> else c1)"

definition getFace :: "int \<Rightarrow> cube \<Rightarrow> face option" where
  "getFace ts c = jget (cb_faces c) (show_int ts)"

definition getFaceByIndex :: "nat \<Rightarrow> cube \<Rightarrow> face option" where
  "getFaceByIndex i c = find (\<lambda>f. fc_index f = i) (jvalues (cb_faces c))"

definition cubeComplete :: "cube \<Rightarrow> bool" where
  "cubeComplete c \<longleftrightarrow> length (cb_faces c) = 3"

definition cubeMerkleRoot :: "(string \<Rightarrow> string) \<Rightarrow> cube \<Rightarrow> string option" where
  "cubeMerkleRoot H c =
     (if \<not> cubeComplete c then None
      else Some (calculateMerkleRoot H (map (face_root H) (sort_key fc_index (jvalues (cb_faces c))))))"

definition cubeAverageTimestamp :: "cube \<Rightarrow> (int \<times> cube) option" where
  "cubeAverageTimestamp c = (case cb_average c of Some t \<Rightarrow> Some (t, c)
     | None \<Rightarrow>
         (let bs = concat (map (jvalues \<circ> fc_blocks) (jvalues (cb_faces c))) in
          if \<exists>b \<in> set bs. nanos (block_time b) = None then None
          else if bs = [] then Some (cb_timestamp c, c)
          else (let a = average (map (the \<circ> nanos \<circ> block_time) bs) in Some (a, c\<lparr>cb_average := Some a\<rparr>))))"

text \<open>\<open>sortFacesByHash\<close>: the faces in the order of their roots, each given its rank as index.\<close>

definition sortFacesByHash :: "(string \<Rightarrow> string) \<Rightarrow> face list \<Rightarrow> (nat, face) jmap" where
  "sortFacesByHash H fs = map (\<lambda>(i, f). (i, f\<lparr>fc_index := i\<rparr>)) (enumerate 0 (sort_key (face_root H) fs))"

section \<open>Super-cubes\<close>

record supercube = cube +
  sc_children :: "(nat, cube) jmap"
  sc_max :: nat

definition new_supercube :: "nat \<Rightarrow> int \<Rightarrow> supercube" where
  "new_supercube lv ts = \<lparr>cb_faces = [], cb_id = None, cb_timestamp = ts, cb_level = Some lv, cb_average = None,
     sc_children = [], sc_max = 3 ^ (3 * (lv - 1))\<rparr>"

definition superAverageTimestamp :: "supercube \<Rightarrow> int option option" where
  "superAverageTimestamp s =
     (if cb_level s = Some 1 then map_option (Some \<circ> fst) (cubeAverageTimestamp (cube.truncate s)) else Some None)"

definition addChildCube :: "nat \<Rightarrow> cube \<Rightarrow> supercube \<Rightarrow> supercube option" where
  "addChildCube i c s = (if sc_max s \<le> i then None else Some (s\<lparr>sc_children := jset (sc_children s) i c\<rparr>))"

definition superComplete :: "supercube \<Rightarrow> bool" where
  "superComplete s \<longleftrightarrow> length (cb_faces s) = 3 \<or> sc_max s \<le> length (sc_children s)"

definition getChildCubeIds :: "supercube \<Rightarrow> string list" where
  "getChildCubeIds s = sort (map the (filter (\<lambda>i. i \<noteq> None) (map cb_id (jvalues (sc_children s)))))"

section \<open>Sealing a pool\<close>

definition by_hash :: "block \<Rightarrow> string" where
  "by_hash b = (if b_hash b \<noteq> [] then b_hash b else b_id b)"

definition seal_group :: "(string \<Rightarrow> string) \<Rightarrow> int \<Rightarrow> block list \<Rightarrow> face" where
  "seal_group H ts g = fold (\<lambda>b f. snd (addBlock H b f)) g (new_face 0 ts)"

definition sealBlocksIntoFaces :: "(string \<Rightarrow> string) \<Rightarrow> int \<Rightarrow> block list \<Rightarrow> face list \<times> block list" where
  "sealBlocksIntoFaces H ts bs =
     (let (groups, leftover) = chunks 9 (sort_key by_hash bs) in (map (seal_group H ts) groups, leftover))"

section \<open>The invariant of a face\<close>

definition face_ok :: "(string \<Rightarrow> string) \<Rightarrow> face \<Rightarrow> bool" where
  "face_ok H f \<longleftrightarrow> distinct (map (block_hash H) (fc_pending f)) \<and> length (fc_pending f) < 9 \<and>
     (if fc_sorted f then fc_pending f = [] \<and> (\<exists>bs. length bs = 9 \<and> fc_blocks f = enumerate 0 bs \<and>
          sorted (map (block_hash H) bs) \<and> distinct (map (block_hash H) bs))
      else fc_blocks f = [])"

lemma face_ok_new: "face_ok H (new_face i ts)"
  by (simp add: face_ok_def new_face_def)

lemma face_ok_add:
  assumes "face_ok H f"
  shows "face_ok H (snd (addBlock H b f))"
proof (cases "fc_sorted f")
  case True
  then show ?thesis using assms by (auto simp: face_ok_def addBlock_def)
next
  case False
  then have f: "fc_blocks f = []" "distinct (map (block_hash H) (fc_pending f))" "length (fc_pending f) < 9"
    using assms by (auto simp: face_ok_def)
  show ?thesis
  proof (cases "\<exists>p \<in> set (fc_pending f). block_hash H p = block_hash H b")
    case True
    then show ?thesis using assms by (simp add: addBlock_def)
  next
    case fresh: False
    let ?bs = "fc_pending f @ [b]"
    have d: "distinct (map (block_hash H) ?bs)" using f(2) fresh by auto
    show ?thesis
    proof (cases "length ?bs = 9")
      case True
      let ?s = "sort_key (block_hash H) ?bs"
      have "distinct (map (block_hash H) ?s)" using d by (simp only: distinct_map_sort_key)
      moreover have "length ?s = 9" using True by simp
      ultimately show ?thesis
        using True False f fresh
        by (auto simp: addBlock_def sortAndAssign_def sortBlocksByHash_def face_ok_def Let_def intro!: exI[of _ ?s])
    next
      case small: False
      then show ?thesis using False f fresh d by (auto simp: addBlock_def face_ok_def Let_def)
    qed
  qed
qed

lemma settle_ok: "face_ok H f \<Longrightarrow> settle H f = f"
  by (simp add: settle_def face_ok_def)

lemma add_accumulates:
  assumes "length bs + length g \<le> 9" "distinct (map (block_hash H) (bs @ g))" "length bs < 9"
    "f = (new_face i ts)\<lparr>fc_pending := bs\<rparr>"
  shows "fold (\<lambda>b f. snd (addBlock H b f)) g f =
    (if length (bs @ g) = 9 then (new_face i ts)\<lparr>fc_blocks := sortBlocksByHash H (bs @ g), fc_sorted := True\<rparr>
     else (new_face i ts)\<lparr>fc_pending := bs @ g\<rparr>)"
  using assms
proof (induction g arbitrary: bs f)
  case Nil
  then show ?case by simp
next
  case (Cons b g)
  have fresh: "\<not> (\<exists>p \<in> set bs. block_hash H p = block_hash H b)"
    using Cons.prems(2) by (force simp: image_iff)
  show ?case
  proof (cases "g = []")
    case True
    then show ?thesis using Cons.prems fresh
      by (auto simp: addBlock_def new_face_def sortAndAssign_def Let_def)
  next
    case False
    then have "length (bs @ [b]) < 9" using Cons.prems(1) by (cases g) auto
    moreover then have "snd (addBlock H b f) = (new_face i ts)\<lparr>fc_pending := bs @ [b]\<rparr>"
      using Cons.prems fresh by (simp add: addBlock_def new_face_def Let_def)
    ultimately show ?thesis using Cons.IH[of "bs @ [b]"] Cons.prems(1,2) by simp
  qed
qed

lemma seal_group_full:
  assumes "length g = 9" "distinct (map (block_hash H) g)"
  shows "seal_group H ts g = (new_face 0 ts)\<lparr>fc_blocks := sortBlocksByHash H g, fc_sorted := True\<rparr>"
proof -
  have "(new_face 0 ts)\<lparr>fc_pending := []\<rparr> = new_face 0 ts" by (simp add: new_face_def)
  then show ?thesis using add_accumulates[of "[]" g H "new_face 0 ts" 0 ts] assms by (simp add: seal_group_def)
qed

section \<open>The two Merkle routines agree\<close>

lemma merkle_level_pair_up: "[] \<notin> set hs \<Longrightarrow> merkle_level H hs = pair_up H hs"
  by (induction H hs rule: merkle_level.induct) (auto simp: sha256hex_def)

lemma pair_up_nonempty: "digest H \<Longrightarrow> [] \<notin> set (pair_up H hs)"
proof (induction H hs rule: pair_up.induct)
  case (1 H a b hs)
  then show ?case by (auto dest: arg_cong[of "[]" _ length] simp: digest_def)
next
  case (2 H a)
  then show ?case by (auto dest: arg_cong[of "[]" _ length] simp: digest_def)
qed simp

lemma merkle_routines_agree:
  assumes "digest H"
  shows "hs \<noteq> [] \<Longrightarrow> [] \<notin> set hs \<Longrightarrow> merkleRoot H hs = Some (calculateMerkleRoot H hs)"
proof (induction "length hs" arbitrary: hs rule: less_induct)
  case less
  show ?case
  proof (cases "length hs = 1")
    case True
    then show ?thesis using less.prems by (simp add: merkleRoot.simps[of H hs] calculateMerkleRoot.simps[of H hs])
  next
    case False
    then have "2 \<le> length hs" using less.prems(1) by (cases hs; cases "tl hs") auto
    then have "length (pair_up H hs) < length hs" "pair_up H hs \<noteq> []"
      using pair_up_length[of H hs] by (auto simp del: length_0_conv simp: length_0_conv[symmetric])
    then have "merkleRoot H (pair_up H hs) = Some (calculateMerkleRoot H (pair_up H hs))"
      using less.hyps pair_up_nonempty[OF assms] by blast
    then show ?thesis
      using less.prems False merkle_level_pair_up[OF less.prems(2), of H]
      by (simp add: merkleRoot.simps[of H hs] calculateMerkleRoot.simps[of H hs])
  qed
qed

section \<open>Properties\<close>

text \<open>Whatever sequence of blocks is offered to a new face, it holds at most nine, no hash twice, and once
  full its nine stand at positions 0 to 8 in hash order.\<close>

lemma face_invariant:
  "face_ok H (fold (\<lambda>b f. snd (addBlock H b f)) bs (new_face i ts))"
proof -
  have "face_ok H f \<Longrightarrow> face_ok H (fold (\<lambda>b f. snd (addBlock H b f)) bs f)" for f
    by (induction bs arbitrary: f) (simp_all add: face_ok_add)
  then show ?thesis using face_ok_new by blast
qed

lemma face_root_sealed:
  assumes "digest H" "length g = 9" "distinct (map b_hash g)" "\<forall>b \<in> set g. b_hash b \<noteq> []"
  shows "Some (face_root H (seal_group H ts g)) = faceRootOf H (map b_hash g)"
proof -
  have h: "map (block_hash H) g = map b_hash g" using assms(4) by (simp add: block_hash_def)
  let ?s = "sort_key (block_hash H) g"
  have f: "seal_group H ts g = (new_face 0 ts)\<lparr>fc_blocks := enumerate 0 ?s, fc_sorted := True\<rparr>"
    using seal_group_full[of g H ts] assms(2,3) h by (simp add: sortBlocksByHash_def)
  have s: "map (\<lambda>i. b_hash (?s ! i)) [0..<9] = map b_hash ?s"
    using assms(2) by (intro nth_equalityI) simp_all
  have "map (\<lambda>i. case jget (enumerate 0 ?s) i of Some b \<Rightarrow> b_hash b | None \<Rightarrow> zeros64) [0..<9]
      = map (\<lambda>i. b_hash (?s ! i)) [0..<9]"
    by (rule map_cong[OF refl]) (use assms(2) in \<open>simp add: jget_enumerate\<close>)
  then have r: "face_root H (seal_group H ts g) = calculateMerkleRoot H (map b_hash ?s)"
    unfolding f s by (simp add: face_root_def faceMerkleRoot_def settle_def new_face_def s)
  have "map b_hash ?s = map (block_hash H) ?s" using assms(4) by (simp add: block_hash_def)
  then have "map b_hash ?s = sort (map b_hash g)" unfolding h[symmetric] by (simp only: map_sort_key)
  moreover have "merkleRoot H (map b_hash ?s) = Some (calculateMerkleRoot H (map b_hash ?s))"
  proof (rule merkle_routines_agree[OF assms(1)])
    have "length (map b_hash ?s) = 9" using assms(2) by simp
    then show "map b_hash ?s \<noteq> []" by (auto simp del: length_map)
    show "[] \<notin> set (map b_hash ?s)" using assms(4) by auto
  qed
  ultimately show ?thesis using r assms(2) by (simp add: faceRootOf_def face_size_def)
qed

text \<open>C30: The mutable face of the ledger and the pure placement module agree: the Merkle root of a face sealed
  from nine blocks is the root \<open>deterministic-placement.js\<close> derives from their hashes.\<close>

theorem sealed_face_root_is_placed_root:
  assumes "digest H" "length g = 9" "distinct (map b_hash g)" "\<forall>b \<in> set g. b_hash b \<noteq> []"
  shows "Some (face_root H (seal_group H ts g)) = faceRootOf H (map b_hash g)"
  by (rule face_root_sealed[OF assms])

definition sample_bk :: "nat \<Rightarrow> block" where
  "sample_bk n = new_block [hex_char n] JNull [hex_char n] (JInt 0) (JBig 5) None JNull (JInt 1)"

lemma sample_bk_ok: "b_hash (sample_bk n) = [hex_char n]"
  by (simp add: sample_bk_def new_block_def updateCoordinates_def)

lemma sample_bks_ok: "distinct (map b_hash (map sample_bk [0..<10]))"
  unfolding map_map comp_def sample_bk_ok by code_simp

lemma sealed_face_root_is_placed_root_witness:
  "Some (face_root (lead 6) (seal_group (lead 6) 3 (map sample_bk [0..<9]))) = faceRootOf (lead 6) (map b_hash (map sample_bk [0..<9]))"
proof -
  have "distinct (map b_hash (map sample_bk [0..<9]))" unfolding map_map comp_def sample_bk_ok by code_simp
  then show ?thesis
    by (intro sealed_face_root_is_placed_root[OF digest_lead]) (auto simp: sample_bk_ok)
qed

lemma seal_perm:
  assumes "mset bs = mset bs'" "distinct (map by_hash bs)"
  shows "sealBlocksIntoFaces H ts bs = sealBlocksIntoFaces H ts bs'"
  using sort_key_perm[OF assms(2,1)] by (simp add: sealBlocksIntoFaces_def)

interpretation sealing: set_determined by_hash "sealBlocksIntoFaces H ts" for H ts
  by unfold_locales (rule seal_perm)

lemma seal_group_complete:
  assumes "length g = 9" "distinct (map b_hash g)" "\<forall>b \<in> set g. b_hash b \<noteq> []"
  shows "isComplete (seal_group H ts g)"
proof -
  have "map (block_hash H) g = map b_hash g" using assms(3) by (simp add: block_hash_def)
  then have "distinct (map (block_hash H) g)" using assms(2) by (simp only:)
  then show ?thesis using seal_group_full[OF assms(1)] assms(1) by (simp add: isComplete_def sortBlocksByHash_def)
qed

lemma chunk_sorted:
  assumes "0 < n" "g \<in> set (fst (chunks n xs))" "sorted (map f xs)"
  shows "sorted (map f g)"
proof -
  obtain as bs where "fst (chunks n xs) = as @ g # bs" using split_list[OF assms(2)] by blast
  then have e: "xs = concat as @ g @ concat bs @ snd (chunks n xs)" using chunks_spec[OF assms(1), of xs] by simp
  show ?thesis using assms(3) by (subst (asm) e) (simp add: sorted_append)
qed

text \<open>A nine of a pool already in hash order fills a face in that order.\<close>

lemma seal_chunk:
  assumes "distinct (map b_hash bs)" "\<forall>b \<in> set bs. b_hash b \<noteq> []" "g \<in> set (fst (chunks 9 (sort_key by_hash bs)))"
  shows "seal_group H ts g = (new_face 0 ts)\<lparr>fc_blocks := enumerate 0 g, fc_sorted := True\<rparr>" "length g = 9"
proof -
  note part = chunk_part[OF _ assms(3)]
  have g: "length g = 9" "set g \<subseteq> set bs" "distinct (map b_hash g)"
    using part assms(1) by (simp_all add: distinct_map_sort_key)
  have h: "map (block_hash H) g = map b_hash g" "map by_hash g = map b_hash g"
    using g(2) assms(2) by (auto simp: block_hash_def by_hash_def)
  have "sorted (map by_hash g)" by (rule chunk_sorted[OF _ assms(3)]) simp_all
  then have "sort_key (block_hash H) g = g" unfolding h(2) h(1)[symmetric] by (rule sort_key_id_if_sorted)
  then show "seal_group H ts g = (new_face 0 ts)\<lparr>fc_blocks := enumerate 0 g, fc_sorted := True\<rparr>"
    using seal_group_full[of g H ts] g(1,3) h(1) by (simp add: sortBlocksByHash_def)
  show "length g = 9" by (rule g(1))
qed

lemma sealed_faces:
  assumes "distinct (map b_hash bs)" "\<forall>b \<in> set bs. b_hash b \<noteq> []"
  shows "sealBlocksIntoFaces H ts bs =
    (map (\<lambda>g. (new_face 0 ts)\<lparr>fc_blocks := enumerate 0 g, fc_sorted := True\<rparr>) (fst (chunks 9 (sort_key by_hash bs))),
     snd (chunks 9 (sort_key by_hash bs)))"
  using seal_chunk(1)[OF assms] by (simp add: sealBlocksIntoFaces_def split: prod.split)

text \<open>C29: Sealing converges and loses nothing: two nodes whose pools hold the same blocks, with different hashes,
  seal the same faces but for the time each stamps on them, and keep the same leftover, whatever order the
  blocks arrived in. The blocks of the faces, face by face and place by place, followed by the leftover are
  exactly the pool in hash order, each block once; every face is complete with its nine at places 0 to 8,
  and there are as many faces as whole nines in the pool.\<close>

theorem sealing_converges:
  assumes "set bs = set bs'" "distinct (map b_hash bs)" "distinct (map b_hash bs')" "\<forall>b \<in> set bs. b_hash b \<noteq> []"
  shows "map (\<lambda>f. f\<lparr>fc_timestamp := 0\<rparr>) (fst (sealBlocksIntoFaces H ts bs))
      = map (\<lambda>f. f\<lparr>fc_timestamp := 0\<rparr>) (fst (sealBlocksIntoFaces H ts' bs')) \<and>
    snd (sealBlocksIntoFaces H ts bs) = snd (sealBlocksIntoFaces H ts' bs') \<and>
    concat (map (\<lambda>f. jvalues (fc_blocks f)) (fst (sealBlocksIntoFaces H ts bs))) @ snd (sealBlocksIntoFaces H ts bs)
      = sort_key b_hash bs \<and>
    (\<forall>f \<in> set (fst (sealBlocksIntoFaces H ts bs)). isComplete f \<and> fc_timestamp f = ts \<and> map fst (fc_blocks f) = [0..<9]) \<and>
    length (fst (sealBlocksIntoFaces H ts bs)) = length bs div 9 \<and>
    length (snd (sealBlocksIntoFaces H ts bs)) = length bs mod 9"
proof -
  have k: "map by_hash bs = map b_hash bs" "map by_hash bs' = map b_hash bs'" "\<forall>b \<in> set bs'. b_hash b \<noteq> []"
    using assms(1,4) by (simp_all add: by_hash_def)
  have eq: "sealBlocksIntoFaces H ts' bs = sealBlocksIntoFaces H ts' bs'"
    by (rule sealing.same_set[OF assms(1)], unfold k, rule assms(2), rule assms(3))
  have order: "sort_key by_hash bs = sort_key b_hash bs"
  proof -
    have m: "map b_hash (sort_key by_hash bs) = map by_hash (sort_key by_hash bs)" using assms(4) by (simp add: by_hash_def)
    have "sorted (map b_hash (sort_key by_hash bs))" unfolding m by simp
    moreover have "inj_on b_hash (set bs)" using assms(2) by (simp add: distinct_map)
    ultimately show ?thesis by (intro sort_key_inj_key_eq[symmetric]) simp_all
  qed
  let ?c = "chunks 9 (sort_key b_hash bs)"
  note f = sealed_faces[OF assms(2,4), of H, unfolded order]
  note c = chunks_spec[of 9 "sort_key b_hash bs"]
  have vals: "map (\<lambda>f. jvalues (fc_blocks f)) (fst (sealBlocksIntoFaces H ts bs)) = fst ?c"
    unfolding f by (simp add: comp_def)
  have "map fst (fc_blocks g) = [0..<9] \<and> isComplete g \<and> fc_timestamp g = ts" if g: "g \<in> set (fst (sealBlocksIntoFaces H ts bs))" for g
    using g c unfolding f by (auto simp: isComplete_def new_face_def)
  moreover have "concat (fst ?c) @ snd (sealBlocksIntoFaces H ts bs) = sort_key b_hash bs" unfolding f using c by simp
  ultimately show ?thesis
    unfolding eq[symmetric] vals using c chunks_rest[of 9 "sort_key b_hash bs"]
    by (simp add: f comp_def new_face_def)
qed

lemma sealing_converges_witness:
  "snd (sealBlocksIntoFaces (lead 6) 3 (map sample_bk [0..<10])) = snd (sealBlocksIntoFaces (lead 6) 8 (rev (map sample_bk [0..<10]))) \<and>
   length (fst (sealBlocksIntoFaces (lead 6) 3 (map sample_bk [0..<10]))) = 1"
proof -
  have "distinct (map b_hash (rev (map sample_bk [0..<10])))" using sample_bks_ok by (simp only: rev_map[symmetric] distinct_rev)
  moreover have "set (map sample_bk [0..<10]) = set (rev (map sample_bk [0..<10]))"
    "\<forall>b \<in> set (map sample_bk [0..<10]). b_hash b \<noteq> []" by (simp_all add: sample_bk_ok)
  moreover have "length (map sample_bk [0..<10]) div 9 = 1" by simp
  ultimately show ?thesis
    using sealing_converges[OF _ sample_bks_ok, of "rev (map sample_bk [0..<10])" "lead 6" 3 8] by presburger
qed

text \<open>Three faces joining a new cube.\<close>

definition join_faces :: "(string \<Rightarrow> string) \<Rightarrow> int \<Rightarrow> face list \<Rightarrow> cube" where
  "join_faces H ts fs = fold (addFace H) fs (new_cube ts)"

text \<open>The id of a cube is the one the placement module derives from its faces' roots, so it does not depend
  on the order the three faces, of different times, join it; and the cube is then complete.\<close>

lemma cube_id_is_placed_id:
  assumes "length fs = 3" "distinct (map fc_timestamp fs)"
  shows "cb_id (join_faces H ts fs) = cubeIdOf H (map (face_root H) fs) \<and> cubeComplete (join_faces H ts fs)"
proof -
  obtain f g h where fs: "fs = [f, g, h]"
    using assms(1) by (metis (no_types) length_0_conv length_Suc_conv numeral_3_eq_3)
  have "cb_id (join_faces H ts fs) = Some (calculateCubeId H fs)" "cubeComplete (join_faces H ts fs)"
    using assms(2) unfolding fs by (simp_all add: join_faces_def addFace_def new_cube_def show_int_inj cubeComplete_def Let_def)
  then show ?thesis
    using assms(1) by (simp add: calculateCubeId_def map_sort_key cubeIdOf_def cube_slots_def sha256hex_def)
qed

lemma cube_id_is_placed_id_witness:
  "cb_id (join_faces (lead 6) 0 [new_face 0 3, new_face 0 1, new_face 0 2])
   = cubeIdOf (lead 6) (map (face_root (lead 6)) [new_face 0 3, new_face 0 1, new_face 0 2])"
  by (rule cube_id_is_placed_id[THEN conjunct1]) (simp_all add: new_face_def)

end
