(* ===== verification/LedgerState.thy ===== *)
theory LedgerState
  imports LedgerFaces
begin

text \<open>
  The state of \<open>ledger.js\<close>: the pools, the cubes, the anchor keys and the eviction list in memory,
  their rows on disk, and the small operations on them: the stored form of a block, the persisted
  pools, eviction, and the lookups the seal rounds use.

  A \<open>block:\<close> row is the value its JSON text parses to, \<open>None\<close> when it does not parse; rows are kept
  under the key without its prefix and read in key order. Locations are node-local metadata: they
  are tracked in the faces and in the rows, not in the second reference a block may have in the
  \<open>blocks\<close> map. A block's vector (floating point) is left out of its row. \<open>lg_clock\<close> is what the next
  reading of \<open>process.hrtime.bigint()\<close> gives; readings are taken to grow by at least one.
\<close>

section \<open>The stored block\<close>

definition index_json :: "index \<Rightarrow> jsval" where
  "index_json c = (case c of INum n \<Rightarrow> JInt n | IText s \<Rightarrow> JStr s)"

definition loc_json :: "location \<Rightarrow> jsval" where
  "loc_json l = JObj [(''faceIndex'', JInt (faceIndex l)), (''position'', JInt (position l)),
     (''cubeIndex'', index_json (cubeIndex l)),
     (''cubeSequentialIndex'', case cubeSequentialIndex l of Some n \<Rightarrow> JInt n | None \<Rightarrow> JNull),
     (''level'', JInt (int (level l)))]"

text \<open>A location that has not the shape the ledger writes is read as none.\<close>

definition loc_of :: "jsval \<Rightarrow> location option" where
  "loc_of v = (case (getp v ''faceIndex'', getp v ''position'', getp v ''level'') of
     (JInt f, JInt p, JInt lv) \<Rightarrow>
       (case (case getp v ''cubeIndex'' of JInt n \<Rightarrow> Some (INum n) | JStr s \<Rightarrow> Some (IText s) | _ \<Rightarrow> None) of
          None \<Rightarrow> None
        | Some c \<Rightarrow> Some \<lparr>faceIndex = f, position = p, cubeIndex = c,
            cubeSequentialIndex = (case getp v ''cubeSequentialIndex'' of JInt n \<Rightarrow> Some n | _ \<Rightarrow> None), level = nat lv\<rparr>)
   | _ \<Rightarrow> None)"

definition coords_json :: "coords \<Rightarrow> jsval" where
  "coords_json c = JObj [(''x'', JInt (cx c)), (''y'', JInt (cy c)), (''z'', JInt (cz c))]"

definition address_json :: "(nat \<times> index \<times> (int \<times> int) option) list \<Rightarrow> jsval" where
  "address_json as = JArr (map (\<lambda>(l, c, p). JObj ([(''level'', JInt (int l)), (''cubeIndex'', index_json c)] @
     (case p of Some (f, q) \<Rightarrow> [(''faceIndex'', JInt f), (''position'', JInt q)] | None \<Rightarrow> []))) as)"

definition serialize_block :: "block \<Rightarrow> jsval" where
  "serialize_block b = json_norm (tag (JObj
     [(''id'', JStr (b_id b)), (''tx'', b_tx b), (''hash'', JStr (b_hash b)), (''digitalRoot'', b_digitalRoot b),
      (''timestamp'', b_timestamp b), (''validationTimestamp'', b_validationTimestamp b),
      (''location'', case b_location b of Some l \<Rightarrow> loc_json l | None \<Rightarrow> JNull),
      (''coordinates'', case b_coordinates b of Some c \<Rightarrow> coords_json c | None \<Rightarrow> JNull),
      (''fractalAddress'', case b_fractalAddress b of Some a \<Rightarrow> address_json a | None \<Rightarrow> JNull)]))"

text \<open>\<open>None\<close>: reviving a BigInt throws, or the row is null. The coordinates and the address of a row are those
  the location gives, which the constructor computes again.\<close>

definition deserialize_block :: "jsval \<Rightarrow> jsval \<Rightarrow> block option" where
  "deserialize_block now row = (case revive row of None \<Rightarrow> None
     | Some v \<Rightarrow> if v = JNull then None
         else Some (new_block (js_string (getp v ''id'')) (getp v ''tx'') (js_string (getp v ''hash'')) (getp v ''digitalRoot'')
           (getp v ''timestamp'') (loc_of (getp v ''location'')) (nullish (getp v ''validationTimestamp'') JNull) now))"

section \<open>The state\<close>

record lcube = cube +
  lc_index :: "nat option"
  lc_stateRoot :: "string option"

text \<open>A finished cube and what grows out of it: nine cubes of a level make a face of the next, three
  such faces its cube.\<close>

datatype tower = Atom lcube | Super nat string "tower list list"

datatype ledger_event =
    BlockAdded block
  | FaceComplete string nat int
  | CubeComplete string lcube int
  | SuperComplete nat tower

record ledger =
  lg_open :: bool
  lg_v2 :: bool
  lg_clock :: int
  lg_blockrows :: "(string, jsval option) jmap"
  lg_cuberows :: "(string, jsval) jmap"
  lg_evictrows :: "(string, string) jmap"
  lg_poolrow :: "string list option"
  lg_facesrow :: "(string \<times> string list) list option"
  lg_cubes :: "(string, lcube) jmap"
  lg_blocks :: "(string, block) jmap"
  lg_pendingFaces :: "(string, face) jmap"
  lg_pool :: "block list"
  lg_pendingCubeFaces :: "face list"
  lg_anchorKeys :: "string set"
  lg_evicted :: "string set"
  lg_slotFaces :: "string list list"
  lg_completed :: "(nat, tower list) jmap"
  lg_levelFaces :: "(nat, tower list list) jmap"
  lg_supers :: "(nat, tower list) jmap"
  lg_events :: "ledger_event list"
  lg_miner :: miner

definition new_ledger :: "bool \<Rightarrow> miner \<Rightarrow> ledger" where
  "new_ledger v2 m = \<lparr>lg_open = False, lg_v2 = v2, lg_clock = 1, lg_blockrows = [], lg_cuberows = [], lg_evictrows = [],
     lg_poolrow = None, lg_facesrow = None, lg_cubes = [], lg_blocks = [], lg_pendingFaces = [], lg_pool = [],
     lg_pendingCubeFaces = [], lg_anchorKeys = {}, lg_evicted = {}, lg_slotFaces = [[], [], []], lg_completed = [],
     lg_levelFaces = [], lg_supers = [], lg_events = [], lg_miner = m\<rparr>"

definition read_clock :: "ledger \<Rightarrow> int \<times> ledger" where
  "read_clock lg = (lg_clock lg, lg\<lparr>lg_clock := lg_clock lg + 1\<rparr>)"

definition emit :: "ledger_event \<Rightarrow> ledger \<Rightarrow> ledger" where
  "emit e lg = lg\<lparr>lg_events := lg_events lg @ [e]\<rparr>"

text \<open>A loop that ends at the first error.\<close>

fun each_until :: "('x \<Rightarrow> 's \<Rightarrow> 'e option \<times> 's) \<Rightarrow> 'x list \<Rightarrow> 's \<Rightarrow> 'e option \<times> 's" where
  "each_until f [] s = (None, s)"
| "each_until f (x # xs) s = (case f x s of (None, s') \<Rightarrow> each_until f xs s' | (Some e, s') \<Rightarrow> (Some e, s'))"

section \<open>Rows\<close>

definition put_block :: "block \<Rightarrow> ledger \<Rightarrow> ledger" where
  "put_block b lg = (if lg_open lg then lg\<lparr>lg_blockrows := jset (lg_blockrows lg) (b_id b) (Some (serialize_block b))\<rparr> else lg)"

definition del_block_row :: "string \<Rightarrow> ledger \<Rightarrow> ledger" where
  "del_block_row i lg = lg\<lparr>lg_blockrows := jdel (lg_blockrows lg) i\<rparr>"

definition persistMembershipPool :: "ledger \<Rightarrow> ledger" where
  "persistMembershipPool lg = (if lg_open lg then lg\<lparr>lg_poolrow := Some (map b_id (lg_pool lg))\<rparr> else lg)"

definition face_ids :: "face \<Rightarrow> string list" where
  "face_ids f = map b_id (jvalues (fc_blocks f))"

definition persistPendingFaces :: "(string \<Rightarrow> string) \<Rightarrow> ledger \<Rightarrow> ledger" where
  "persistPendingFaces H lg =
     (if lg_open lg then lg\<lparr>lg_facesrow := Some (map (\<lambda>f. (face_root H f, face_ids f)) (lg_pendingCubeFaces lg))\<rparr> else lg)"

definition ledger_close :: "ledger \<Rightarrow> ledger" where
  "ledger_close lg = lg\<lparr>lg_open := False\<rparr>"

text \<open>\<open>db.get\<close> rejects on an absent key, and \<open>deserialize\<close> throws on a row that does not parse.\<close>

definition stored_block :: "jsval \<Rightarrow> string \<Rightarrow> ledger \<Rightarrow> block option" where
  "stored_block now i lg = (if \<not> lg_open lg then None
     else (case jget (lg_blockrows lg) i of Some (Some row) \<Rightarrow> deserialize_block now row | _ \<Rightarrow> None))"

definition loadBlock :: "jsval \<Rightarrow> string \<Rightarrow> ledger \<Rightarrow> block option \<times> ledger" where
  "loadBlock now i lg = (case jget (lg_blocks lg) i of
     Some b \<Rightarrow> (Some b, lg)
   | None \<Rightarrow> (case stored_block now i lg of None \<Rightarrow> (None, lg)
       | Some b \<Rightarrow> (Some b, lg\<lparr>lg_blocks := jset (lg_blocks lg) (b_id b) b\<rparr>)))"

definition ledger_getBlock :: "jsval \<Rightarrow> string \<Rightarrow> ledger \<Rightarrow> block option" where
  "ledger_getBlock now i lg = (case stored_block now i lg of Some b \<Rightarrow> Some b | None \<Rightarrow> jget (lg_blocks lg) i)"

definition getBlockCoordinates :: "jsval \<Rightarrow> string \<Rightarrow> ledger \<Rightarrow> (coords \<times> (nat \<times> index \<times> (int \<times> int) option) list) option" where
  "getBlockCoordinates now i lg = map_option (\<lambda>b. (getCoordinates b, getFractalAddress b)) (ledger_getBlock now i lg)"

section \<open>Eviction\<close>

text \<open>\<open>None\<close>: the digest's JSON text throws.\<close>

definition forgedKey :: "(string \<Rightarrow> string) \<Rightarrow> jsval \<Rightarrow> string option" where
  "forgedKey H tx = map_option (\<lambda>material. ''forged:'' @ sha256hex H material)
     (json_stringify (JObj [(''xid'', nullish (getp tx ''xid'') JNull), (''nonce'', nullish (getp tx ''nonce'') JNull),
        (''type'', nullish (getp tx ''type'') JNull), (''body'', case micromineBody tx of Some b \<Rightarrow> b | None \<Rightarrow> JNull)]))"

definition xid_key :: "jsval \<Rightarrow> string option" where
  "xid_key tx = (case getp tx ''xid'' of JStr x \<Rightarrow> Some (''xid:'' @ x) | _ \<Rightarrow> None)"

definition barred :: "jsval \<Rightarrow> ledger \<Rightarrow> bool" where
  "barred tx lg \<longleftrightarrow> (case contentKey tx of Some k \<Rightarrow> k \<in> lg_evicted lg | None \<Rightarrow> False)
     \<or> (case xid_key tx of Some k \<Rightarrow> k \<in> lg_evicted lg | None \<Rightarrow> False)"

definition drop_prefix :: "string \<Rightarrow> string \<Rightarrow> string option" where
  "drop_prefix p s = (if starts_with s p then Some (drop (length p) s) else None)"

definition isEvicted :: "jsval \<Rightarrow> ledger \<Rightarrow> bool" where
  "isEvicted key lg = (case key of
     JStr k \<Rightarrow> k \<noteq> [] \<and> (k \<in> lg_evicted lg \<or> (case drop_prefix ''anchor:'' k of Some r \<Rightarrow> r \<in> lg_evicted lg | None \<Rightarrow> False))
   | _ \<Rightarrow> False)"

definition named :: "jsval \<Rightarrow> bool" where
  "named a \<longleftrightarrow> truthy a \<and> truthy (getp a ''event'') \<and> truthy (getp a ''hash'')"

definition anchor_key :: "jsval \<Rightarrow> string" where
  "anchor_key a = js_string (getp a ''event'') @ '':'' @ js_string (getp a ''hash'')"

definition isEvictedRow :: "jsval \<Rightarrow> ledger \<Rightarrow> bool" where
  "isEvictedRow a lg =
     (if \<not> truthy a then False
      else if named a \<and> isEvicted (JStr (anchor_key a)) lg then True
      else (case getp a ''xid'' of JStr x \<Rightarrow> x \<noteq> [] \<and> ''xid:'' @ x \<in> lg_evicted lg | _ \<Rightarrow> False))"

definition stored_key :: "jsval option \<Rightarrow> string option" where
  "stored_key r = (case r of None \<Rightarrow> None | Some v \<Rightarrow> contentKey (getp v ''tx''))"

text \<open>The answer: the rows deleted and the length of the pool.\<close>

definition evict :: "string \<Rightarrow> string \<Rightarrow> ledger \<Rightarrow> nat \<times> ledger" where
  "evict key reason lg =
     (if key = [] then (0, lg)
      else (let lg1 = lg\<lparr>lg_evicted := insert key (lg_evicted lg), lg_anchorKeys := lg_anchorKeys lg - {key},
                  lg_evictrows := (if lg_open lg then jset (lg_evictrows lg) key reason else lg_evictrows lg)\<rparr>;
                doomed = (if lg_open lg then map fst (filter (\<lambda>(i, r). stored_key r = Some key) (lg_blockrows lg1)) else []);
                lg2 = fold (\<lambda>i g. (del_block_row i g)\<lparr>lg_blocks := jdel (lg_blocks g) i\<rparr>) doomed lg1;
                lg3 = lg2\<lparr>lg_blocks := filter (\<lambda>(i, b). contentKey (b_tx b) \<noteq> Some key) (lg_blocks lg2),
                          lg_pool := filter (\<lambda>b. contentKey (b_tx b) \<noteq> Some key) (lg_pool lg2)\<rparr>
            in (length doomed, if length (lg_pool lg3) \<noteq> length (lg_pool lg2) then persistMembershipPool lg3 else lg3)))"

section \<open>What the seal rounds read\<close>

definition getPoolBlocksByIds :: "string list \<Rightarrow> ledger \<Rightarrow> block list" where
  "getPoolBlocksByIds ids lg = filter (\<lambda>b. b_id b \<in> set ids) (lg_pool lg)"

definition getPendingFacesByRoots :: "(string \<Rightarrow> string) \<Rightarrow> string list \<Rightarrow> ledger \<Rightarrow> face list" where
  "getPendingFacesByRoots H roots lg = filter (\<lambda>f. face_root H f \<in> set roots) (lg_pendingCubeFaces lg)"

definition lcubeMerkleRoot :: "(string \<Rightarrow> string) \<Rightarrow> lcube \<Rightarrow> string option" where
  "lcubeMerkleRoot H c = cubeMerkleRoot H (cube.truncate c)"

definition ledger_getStateRoot :: "(string \<Rightarrow> string) \<Rightarrow> ledger \<Rightarrow> string" where
  "ledger_getStateRoot H lg =
     (let roots = sort (map the (filter (\<lambda>r. r \<noteq> None) (map (lcubeMerkleRoot H) (jvalues (lg_cubes lg))))) in
      if roots = [] then zeros64 else calculateMerkleRoot H roots)"

text \<open>\<open>_getCubeAverageTimestamp\<close> adds the times to the number 0: a sum that stays an integer, becomes
  another number, becomes text, or throws, as it does when a BigInt meets a number.\<close>

datatype jsum = SNum int | SReal | SText | SThrow

fun sum_step :: "jsval \<Rightarrow> jsum \<Rightarrow> jsum" where
  "sum_step v SThrow = SThrow"
| "sum_step v SText = SText"
| "sum_step (JInt n) (SNum s) = SNum (s + n)"
| "sum_step (JBig n) (SNum s) = SThrow"
| "sum_step (JBig n) SReal = SThrow"
| "sum_step (JStr x) (SNum s) = SText"
| "sum_step (JStr x) SReal = SText"
| "sum_step (JArr x) (SNum s) = SText"
| "sum_step (JArr x) SReal = SText"
| "sum_step (JObj x) (SNum s) = SText"
| "sum_step (JObj x) SReal = SText"
| "sum_step v (SNum s) = SReal"
| "sum_step v SReal = SReal"

definition cube_times :: "lcube \<Rightarrow> jsval list" where
  "cube_times c = map b_timestamp (concat (map (jvalues \<circ> fc_blocks) (jvalues (cb_faces c))))"

text \<open>The sum and the number of times it is divided by.\<close>

definition getCubeAverageTimestamp :: "lcube \<Rightarrow> jsum \<times> nat" where
  "getCubeAverageTimestamp c = (let ts = cube_times c in (fold sum_step ts (SNum 0), max 1 (length ts)))"

text \<open>\<open>getCubes\<close> sorts by these averages; a sort of two or more compares every element.\<close>

definition getCubes_throws :: "ledger \<Rightarrow> bool" where
  "getCubes_throws lg \<longleftrightarrow> 2 \<le> length (lg_cubes lg) \<and> (\<exists>c \<in> set (jvalues (lg_cubes lg)). fst (getCubeAverageTimestamp c) = SThrow)"

end
