(* ===== verification/LedgerSeal.thy ===== *)
theory LedgerSeal
  imports LedgerState
begin

text \<open>
  The sealing half of \<open>ledger.js\<close>: blocks into faces, faces into cubes, cubes into the towers above
  them, on the local path (\<open>_sealReadyFaces\<close>) and on the agreed one (\<open>sealAgreedBlocks\<close>,
  \<open>sealAgreedCube\<close>).

  \<open>root\<close> is the state root that the listener of \<open>cube:complete\<close> writes on the cube, \<open>None\<close> without
  one. Every step gives the error it throws, if any, and the state it leaves.
\<close>

datatype ledger_error =
    BadSignature
  | SignatureCheckFailed
  | Refused tx_error
  | PlacementRefused refusal
  | BadTime
  | Unserializable
  | NotABatch

section \<open>Faces\<close>

text \<open>\<open>sealBlocksIntoFaces\<close> with each face at its own clock reading.\<close>

definition seal_pool :: "(string \<Rightarrow> string) \<Rightarrow> block list \<Rightarrow> ledger \<Rightarrow> (face list \<times> block list) \<times> ledger" where
  "seal_pool H bs lg =
     (let (groups, leftover) = chunks 9 (sort_key by_hash bs)
      in ((map (\<lambda>(i, g). seal_group H (lg_clock lg + int i) g) (enumerate 0 groups), leftover),
          lg\<lparr>lg_clock := lg_clock lg + int (length groups)\<rparr>))"

definition placement_payload :: "face \<Rightarrow> jsval" where
  "placement_payload f = JObj [(''blocks'', JArr (map (\<lambda>(p, b).
     JObj [(''hash'', JStr (b_hash b)), (''id'', JStr (b_id b)), (''position'', JInt (int p))]) (fc_blocks f)))]"

definition assertPlacement :: "(string \<Rightarrow> string) \<Rightarrow> face \<Rightarrow> ledger_error option" where
  "assertPlacement H f = (case verifyPlacement H (placement_payload f) of Inl e \<Rightarrow> Some (PlacementRefused e) | Inr r \<Rightarrow> None)"

definition first_location :: "nat \<Rightarrow> location" where
  "first_location p = \<lparr>faceIndex = 0, position = int p, cubeIndex = INum 0, cubeSequentialIndex = None, level = 1\<rparr>"

definition locate_blocks :: "face \<Rightarrow> face" where
  "locate_blocks f = f\<lparr>fc_blocks := map (\<lambda>(p, b). (p, setLocation (first_location p) b)) (fc_blocks f)\<rparr>"

definition put_face_blocks :: "face \<Rightarrow> ledger \<Rightarrow> ledger" where
  "put_face_blocks f lg = fold put_block (jvalues (fc_blocks f)) lg"

definition emitBlocksAdded :: "face \<Rightarrow> ledger \<Rightarrow> ledger" where
  "emitBlocksAdded f lg = fold (\<lambda>b. emit (BlockAdded b)) (jvalues (fc_blocks f)) lg"

section \<open>Towers\<close>

fun tower_id :: "tower \<Rightarrow> string" where
  "tower_id (Atom c) = (case cb_id c of Some i \<Rightarrow> i | None \<Rightarrow> [])"
| "tower_id (Super lv i fs) = i"

fun tower_level :: "tower \<Rightarrow> nat" where
  "tower_level (Atom c) = (case cb_level c of Some l \<Rightarrow> if l = 0 then 1 else l | None \<Rightarrow> 1)"
| "tower_level (Super lv i fs) = lv"

text \<open>A face of cubes pads to nine with zero roots.\<close>

definition pad9 :: "string list \<Rightarrow> string list" where
  "pad9 rs = map (\<lambda>i. if i < length rs then rs ! i else zeros64) [0..<9]"

fun tower_root :: "(string \<Rightarrow> string) \<Rightarrow> tower \<Rightarrow> string" where
  "tower_root H (Atom c) = (case lcubeMerkleRoot H c of Some r \<Rightarrow> r | None \<Rightarrow> [])"
| "tower_root H (Super lv i fs) = calculateMerkleRoot H (map (\<lambda>cs. calculateMerkleRoot H (pad9 (map (tower_root H) cs))) fs)"

definition tower_face_root :: "(string \<Rightarrow> string) \<Rightarrow> tower list \<Rightarrow> string" where
  "tower_face_root H cs = calculateMerkleRoot H (pad9 (map (tower_root H) cs))"

definition level_list :: "(nat, 'a list) jmap \<Rightarrow> nat \<Rightarrow> 'a list" where
  "level_list m l = (case jget m l of Some xs \<Rightarrow> xs | None \<Rightarrow> [])"

text \<open>The calls still to be made, innermost first: the awaited calls of the recursion in their order.\<close>

datatype tower_call = Completed tower | CheckFaces nat

record tower_state =
  ts_done :: "(nat, tower list) jmap"
  ts_faces :: "(nat, tower list list) jmap"
  ts_supers :: "(nat, tower list) jmap"
  ts_events :: "ledger_event list"

text \<open>\<open>_checkRecursiveCubeFormation\<close> with \<open>_formNextLevelFace\<close>: the cube joins its level; nine make a
  face of the next.\<close>

definition complete_cube :: "tower \<Rightarrow> tower_state \<Rightarrow> tower_state \<times> tower_call list" where
  "complete_cube t st =
     (let l = tower_level t; cs = level_list (ts_done st) l @ [t] in
      if length cs < 9 then (st\<lparr>ts_done := jset (ts_done st) l cs\<rparr>, [])
      else (st\<lparr>ts_done := jset (ts_done st) l (drop 9 cs),
               ts_faces := jset (ts_faces st) (Suc l) (level_list (ts_faces st) (Suc l) @ [sort_key tower_id (take 9 cs)])\<rparr>,
            [CheckFaces (Suc l)]))"

text \<open>\<open>_checkFaceFormation\<close> with \<open>_formCubeFromFaces\<close>: three faces make a cube of their level.\<close>

definition form_cube :: "(string \<Rightarrow> string) \<Rightarrow> nat \<Rightarrow> tower list list \<Rightarrow> tower" where
  "form_cube H l fs = (let sorted = sort_key (tower_face_root H) fs in
     Super l (take 16 (sha256hex H (concat (map (tower_face_root H) sorted)))) sorted)"

definition check_faces :: "(string \<Rightarrow> string) \<Rightarrow> nat \<Rightarrow> tower_state \<Rightarrow> tower_state \<times> tower_call list" where
  "check_faces H l st =
     (let fs = level_list (ts_faces st) l in
      if length fs < 3 then (st, [])
      else (let cube = form_cube H l (take 3 fs) in
        (st\<lparr>ts_faces := jset (ts_faces st) l (drop 3 fs), ts_supers := jset (ts_supers st) l (level_list (ts_supers st) l @ [cube]),
            ts_events := ts_events st @ [SuperComplete l cube]\<rparr>,
         [Completed cube, CheckFaces l])))"

fun tower_step :: "(string \<Rightarrow> string) \<Rightarrow> tower_call \<Rightarrow> tower_state \<Rightarrow> tower_state \<times> tower_call list" where
  "tower_step H (Completed t) st = complete_cube t st"
| "tower_step H (CheckFaces l) st = check_faces H l st"

definition level_total :: "(nat, 'a list) jmap \<Rightarrow> nat" where
  "level_total m = sum_list (map (length \<circ> snd) m)"

definition call_weight :: "tower_call \<Rightarrow> nat" where
  "call_weight c = (case c of Completed t \<Rightarrow> 2 | CheckFaces l \<Rightarrow> 1)"

lemma level_total_jset: "level_total (jset m l xs) + length (level_list m l) = level_total m + length xs"
  by (induction m) (auto simp: level_total_def level_list_def)

lemma tower_step_weight:
  assumes "tower_step H c st = (st', cs)"
  shows "level_total (ts_done st') + level_total (ts_faces st') + sum_list (map call_weight cs)
    < level_total (ts_done st) + level_total (ts_faces st) + call_weight c"
proof (cases c)
  case (Completed t)
  let ?l = "tower_level t"
  have d: "level_total (jset (ts_done st) ?l xs) + length (level_list (ts_done st) ?l) = level_total (ts_done st) + length xs" for xs
    by (rule level_total_jset)
  have f: "level_total (jset (ts_faces st) (Suc ?l) xs) + length (level_list (ts_faces st) (Suc ?l)) = level_total (ts_faces st) + length xs" for xs
    by (rule level_total_jset)
  show ?thesis
    using assms Completed d[of "level_list (ts_done st) ?l @ [t]"] d[of "drop 9 (level_list (ts_done st) ?l @ [t])"]
      f[of "level_list (ts_faces st) (Suc ?l) @ [sort_key tower_id (take 9 (level_list (ts_done st) ?l @ [t]))]"]
    by (auto simp: complete_cube_def call_weight_def Let_def split: if_splits)
next
  case (CheckFaces l)
  have f: "level_total (jset (ts_faces st) l xs) + length (level_list (ts_faces st) l) = level_total (ts_faces st) + length xs" for xs
    by (rule level_total_jset)
  show ?thesis
    using assms CheckFaces f[of "drop 3 (level_list (ts_faces st) l)"]
    by (auto simp: check_faces_def call_weight_def Let_def split: if_splits)
qed

text \<open>The recursion comes to its end: every call that forms a face or a cube uses up more than it adds.\<close>

function run_tower :: "(string \<Rightarrow> string) \<Rightarrow> tower_call list \<Rightarrow> tower_state \<Rightarrow> tower_state" where
  "run_tower H [] st = st"
| "run_tower H (c # cs) st = (case tower_step H c st of (st', new) \<Rightarrow> run_tower H (new @ cs) st')"
  by pat_completeness auto
termination
proof (relation "measure (\<lambda>(H, cs, st). level_total (ts_done st) + level_total (ts_faces st) + sum_list (map call_weight cs))")
  fix H :: "string \<Rightarrow> string" and c cs st and st' :: tower_state and new
  assume "(st', new) = tower_step H c st"
  then show "((H, new @ cs, st'), (H, c # cs, st)) \<in> measure (\<lambda>(H, cs, st). level_total (ts_done st) + level_total (ts_faces st) + sum_list (map call_weight cs))"
    using tower_step_weight[of H c st st' new] by simp
qed simp

definition tower_of :: "ledger \<Rightarrow> tower_state" where
  "tower_of lg = \<lparr>ts_done = lg_completed lg, ts_faces = lg_levelFaces lg, ts_supers = lg_supers lg, ts_events = lg_events lg\<rparr>"

definition checkRecursiveCubeFormation :: "(string \<Rightarrow> string) \<Rightarrow> lcube \<Rightarrow> ledger \<Rightarrow> ledger" where
  "checkRecursiveCubeFormation H c lg =
     (let st = run_tower H [Completed (Atom c)] (tower_of lg) in
      lg\<lparr>lg_completed := ts_done st, lg_levelFaces := ts_faces st, lg_supers := ts_supers st, lg_events := ts_events st\<rparr>)"

section \<open>Cubes\<close>

definition new_lcube :: "int \<Rightarrow> lcube" where
  "new_lcube ts = cube.extend (new_cube ts) \<lparr>lc_index = None, lc_stateRoot = None\<rparr>"

definition lcube_addFace :: "(string \<Rightarrow> string) \<Rightarrow> face \<Rightarrow> lcube \<Rightarrow> lcube" where
  "lcube_addFace H f c = cube.extend (addFace H f (cube.truncate c)) (lcube.fields (lc_index c) (lc_stateRoot c))"

text \<open>\<open>None\<close>: converting a time to a BigInt throws. The answer is kept on the cube once blocks gave it.\<close>

definition lcube_average :: "lcube \<Rightarrow> (int \<times> lcube) option" where
  "lcube_average c = map_option (\<lambda>(a, d). (a, cube.extend d (lcube.fields (lc_index c) (lc_stateRoot c))))
     (cubeAverageTimestamp (cube.truncate c))"

definition relocate :: "(location \<Rightarrow> location) \<Rightarrow> block \<Rightarrow> block" where
  "relocate g b = (case b_location b of None \<Rightarrow> b | Some l \<Rightarrow> updateCoordinates (b\<lparr>b_location := Some (g l)\<rparr>))"

definition seq_of :: "nat option \<Rightarrow> int option" where
  "seq_of i = map_option int i"

text \<open>The faces in root order with their indices, and their blocks at their final places.\<close>

definition settle_faces :: "(string \<Rightarrow> string) \<Rightarrow> string \<Rightarrow> lcube \<Rightarrow> lcube" where
  "settle_faces H key c =
     (let fs = map (\<lambda>(i, f). f\<lparr>fc_blocks := map (\<lambda>(p, b). (p, relocate (\<lambda>l. l\<lparr>faceIndex := int i, position := int p,
               cubeIndex := IText key, cubeSequentialIndex := seq_of (lc_index c)\<rparr>) b)) (fc_blocks f)\<rparr>)
             (sortFacesByHash H (jvalues (cb_faces c)))
      in c\<lparr>cb_faces := fold (\<lambda>f m. jset m (show_int (fc_timestamp f)) f) fs [], cb_level := Some 1\<rparr>)"

definition cube_row :: "(string \<Rightarrow> string) \<Rightarrow> lcube \<Rightarrow> int \<Rightarrow> (string \<times> jsval) list" where
  "cube_row H c avg =
     [(''id'', case cb_id c of Some i \<Rightarrow> JStr i | None \<Rightarrow> JNull),
      (''merkleRoot'', case lcubeMerkleRoot H c of Some r \<Rightarrow> JStr r | None \<Rightarrow> JNull),
      (''faces'', JArr (map (\<lambda>f. JInt (int (fc_index f))) (jvalues (cb_faces c)))),
      (''validatorAverageTimestamp'', JStr (show_int avg)), (''level'', JInt 1)]"

definition lcube_key :: "lcube \<Rightarrow> string" where
  "lcube_key c = (case cb_id c of Some i \<Rightarrow> i | None \<Rightarrow> ''null'')"

definition put_cube :: "lcube \<Rightarrow> jsval \<Rightarrow> ledger \<Rightarrow> ledger" where
  "put_cube c row lg = (if lg_open lg then lg\<lparr>lg_cuberows := jset (lg_cuberows lg) (lcube_key c) row\<rparr> else lg)"

definition finalizeCube ::
  "(string \<Rightarrow> string) \<Rightarrow> string option \<Rightarrow> lcube \<Rightarrow> string \<Rightarrow> ledger \<Rightarrow> ledger_error option \<times> ledger" where
  "finalizeCube H root cube0 key lg =
     (let c1 = settle_faces H key cube0; lg1 = lg\<lparr>lg_cubes := jset (lg_cubes lg) key c1\<rparr> in
      case lcube_average c1 of None \<Rightarrow> (Some BadTime, lg1)
      | Some (avg, c2) \<Rightarrow>
          (let row = cube_row H c2 avg;
               lg2 = put_cube c2 (JObj row) lg1;
               lg3 = fold put_face_blocks (jvalues (cb_faces c2)) lg2;
               c3 = c2\<lparr>lc_stateRoot := (case root of Some r \<Rightarrow> Some r | None \<Rightarrow> lc_stateRoot c2)\<rparr>;
               lg4 = (emit (CubeComplete key c2 avg) lg3)\<lparr>lg_cubes := jset (lg_cubes lg3) key c3\<rparr>;
               lg5 = (case lc_stateRoot c3 of None \<Rightarrow> lg4
                 | Some r \<Rightarrow> if r = [] then lg4 else put_cube c3 (JObj (row @ [(''stateRoot'', JStr r)])) lg4)
           in (None, checkRecursiveCubeFormation H c3 lg5)))"

section \<open>A face joins its cube\<close>

definition slot_of_root :: "string \<Rightarrow> nat" where
  "slot_of_root r = read_hex (drop (length r - 8) r) mod 3"

definition ordinal_key :: "nat \<Rightarrow> string" where
  "ordinal_key k = ''cube#'' @ show_nat k"

text \<open>The sorted blocks of a face that was not sorted by \<open>addBlock\<close>.\<close>

definition rank_face :: "face \<Rightarrow> face" where
  "rank_face f =
     (if length (fc_blocks f) = 9 \<and> fc_sorted f then f
      else f\<lparr>fc_blocks := enumerate 0 (sort_key b_hash (fc_pending f)), fc_sorted := True, fc_pending := []\<rparr>)"

definition place_blocks :: "face \<Rightarrow> face" where
  "place_blocks f = f\<lparr>fc_blocks := map (\<lambda>(p, b). (p, relocate (\<lambda>l. l\<lparr>position := int p\<rparr>) b)) (fc_blocks f)\<rparr>"

text \<open>\<open>new Cube(0n)\<close> reads the clock: a zero timestamp counts as none.\<close>

definition open_cube :: "nat \<Rightarrow> ledger \<Rightarrow> lcube \<times> ledger" where
  "open_cube k lg = (case jget (lg_cubes lg) (ordinal_key k) of
     Some c \<Rightarrow> (c, lg)
   | None \<Rightarrow> (let (ts, lg1) = (if k = 0 then read_clock lg else (int k, lg)) in ((new_lcube ts)\<lparr>lc_index := Some k\<rparr>, lg1)))"

definition finalizeFace :: "(string \<Rightarrow> string) \<Rightarrow> string option \<Rightarrow> face \<Rightarrow> ledger \<Rightarrow> ledger_error option \<times> ledger" where
  "finalizeFace H root face0 lg =
     (let f1 = place_blocks (rank_face face0) in
      case faceAverageTimestamp f1 of None \<Rightarrow> (Some BadTime, lg)
      | Some favg \<Rightarrow>
          (let r = face_root H f1; slot = slot_of_root r; k = length (lg_slotFaces lg ! slot);
               lg1 = lg\<lparr>lg_slotFaces := (lg_slotFaces lg)[slot := lg_slotFaces lg ! slot @ [r]]\<rparr>;
               (c0, lg2) = open_cube k lg1; key = ordinal_key k;
               f2 = f1\<lparr>fc_index := slot\<rparr>;
               c1 = lcube_addFace H f2 c0;
               lg3 = lg2\<lparr>lg_cubes := jset (lg_cubes lg2) key c1\<rparr>
           in case lcube_average c1 of None \<Rightarrow> (Some BadTime, lg3)
              | Some (avg, c2) \<Rightarrow>
                  (let f3 = f2\<lparr>fc_blocks := map (\<lambda>(p, b). (p, relocate (\<lambda>l. l\<lparr>cubeIndex := IText key,
                                 cubeSequentialIndex := seq_of (lc_index c2)\<rparr>) b)) (fc_blocks f2)\<rparr>;
                       c3 = c2\<lparr>cb_faces := jset (cb_faces c2) (show_int (fc_timestamp f3)) f3, cb_average := Some avg\<rparr>;
                       lg4 = emit (FaceComplete key slot favg) (lg3\<lparr>lg_cubes := jset (lg_cubes lg3) key c3,
                               lg_pendingFaces := jdel (lg_pendingFaces lg3) (show_int (fc_timestamp face0))\<rparr>)
                   in if length (cb_faces c3) = 3 then finalizeCube H root c3 key lg4 else (None, lg4))))"

section \<open>Sealing\<close>

definition seal_face :: "(string \<Rightarrow> string) \<Rightarrow> string option \<Rightarrow> face \<Rightarrow> ledger \<Rightarrow> ledger_error option \<times> ledger" where
  "seal_face H root f lg = (case assertPlacement H f of Some e \<Rightarrow> (Some e, lg)
     | None \<Rightarrow>
         (let f1 = locate_blocks f in
          case finalizeFace H root f1 (put_face_blocks f1 lg) of
            (Some e, lg1) \<Rightarrow> (Some e, lg1)
          | (None, lg1) \<Rightarrow> (None, emitBlocksAdded f1 lg1)))"

text \<open>The number of faces sealed, or the error that stopped it.\<close>

definition sealReadyFaces :: "(string \<Rightarrow> string) \<Rightarrow> string option \<Rightarrow> ledger \<Rightarrow> (ledger_error + nat) \<times> ledger" where
  "sealReadyFaces H root lg =
     (let ((faces, leftover), lg1) = seal_pool H (lg_pool lg) lg in
      case each_until (seal_face H root) faces (lg1\<lparr>lg_pool := leftover\<rparr>) of
        (Some e, lg2) \<Rightarrow> (Inl e, lg2) | (None, lg2) \<Rightarrow> (Inr (length faces), lg2))"

text \<open>\<open>Inr None\<close>: fewer than nine of the agreed blocks are in the pool, and nothing happens.\<close>

definition sealAgreedBlocks :: "(string \<Rightarrow> string) \<Rightarrow> block list \<Rightarrow> ledger \<Rightarrow> (ledger_error + face option) \<times> ledger" where
  "sealAgreedBlocks H agreed lg =
     (let present = filter (\<lambda>b. b_id b \<in> set (map b_id (lg_pool lg))) agreed; ((faces, rest), lg1) = seal_pool H present lg in
      case faces of [] \<Rightarrow> (Inr None, lg1)
      | f # fs \<Rightarrow>
          (case assertPlacement H f of Some e \<Rightarrow> (Inl e, lg1)
           | None \<Rightarrow>
               (let f1 = locate_blocks f; lg2 = put_face_blocks f1 lg1; sealed = set (face_ids f1);
                    lg3 = lg2\<lparr>lg_pool := filter (\<lambda>b. b_id b \<notin> sealed) (lg_pool lg2),
                              lg_pendingCubeFaces := lg_pendingCubeFaces lg2 @ [f1]\<rparr>
                in (Inr (Some f1), emitBlocksAdded f1 (persistPendingFaces H (persistMembershipPool lg3))))))"

definition sealAgreedCube ::
  "(string \<Rightarrow> string) \<Rightarrow> string option \<Rightarrow> face list \<Rightarrow> ledger \<Rightarrow> (ledger_error + lcube option) \<times> ledger" where
  "sealAgreedCube H root agreed lg =
     (let present = take 3 (filter (\<lambda>f. face_root H f \<in> set (map (face_root H) (lg_pendingCubeFaces lg))) agreed) in
      if length present < 3 then (Inr None, lg)
      else (let (ts, lg1) = read_clock lg;
                c1 = fold (lcube_addFace H) present (new_lcube ts);
                sealed = set (map (face_root H) present);
                lg2 = persistPendingFaces H (lg1\<lparr>lg_pendingCubeFaces := filter (\<lambda>f. face_root H f \<notin> sealed) (lg_pendingCubeFaces lg1)\<rparr>);
                c2 = c1\<lparr>lc_index := Some (length (lg_cubes lg2))\<rparr>; key = lcube_key c2
            in case finalizeCube H root c2 key (lg2\<lparr>lg_cubes := jset (lg_cubes lg2) key c2\<rparr>) of
                 (Some e, lg3) \<Rightarrow> (Inl e, lg3)
               | (None, lg3) \<Rightarrow> (Inr (jget (lg_cubes lg3) key), lg3)))"

end
