(* ===== verification/LedgerAdmit.thy ===== *)
theory LedgerAdmit
  imports LedgerSeal
begin

text \<open>
  The doors of \<open>ledger.js\<close>: \<open>addTransaction\<close>, \<open>addSealedBatch\<close> and what arrives by gossip.

  The signature check of \<open>@xmbl/identity\<close> is a parameter: the public key an address resolves to, and
  the verdict on a transaction under a key. Messages of errors are not modelled.
\<close>

datatype sig_verdict = SigValid | SigInvalid | SigSkipped | SigThrows

record sig_env =
  se_xid :: bool
  se_key :: "jsval \<Rightarrow> jsval"
  se_verify :: "jsval \<Rightarrow> jsval \<Rightarrow> sig_verdict"

text \<open>Checked only when the node has an identity, the transaction a signature and a sender, and the sender
  a known key; a missing module or a Base64 error skips the check.\<close>

definition checkSignature :: "sig_env \<Rightarrow> jsval \<Rightarrow> ledger_error option" where
  "checkSignature env tx =
     (if se_xid env \<and> truthy (getp tx ''sig'') \<and> truthy (getp tx ''from'') \<and> truthy (se_key env (getp tx ''from''))
      then (case se_verify env tx (se_key env (getp tx ''from'')) of
          SigValid \<Rightarrow> None | SigSkipped \<Rightarrow> None | SigInvalid \<Rightarrow> Some BadSignature | SigThrows \<Rightarrow> Some SignatureCheckFailed)
      else None)"

definition is_anchor :: "jsval \<Rightarrow> bool" where
  "is_anchor tx \<longleftrightarrow> named tx \<and> getp tx ''type'' = JStr ''anchor''"

text \<open>The content key an anchor claims before it is validated; \<open>None\<close>: it is held already.\<close>

definition claim_anchor :: "jsval \<Rightarrow> ledger \<Rightarrow> ledger option" where
  "claim_anchor tx lg =
     (if \<not> is_anchor tx then Some lg
      else if anchor_key tx \<in> lg_anchorKeys lg then None
      else Some (lg\<lparr>lg_anchorKeys := insert (anchor_key tx) (lg_anchorKeys lg)\<rparr>))"

text \<open>What a failed validation does: the key is given back, and unless the datum is merely untyped it is
  evicted, under a key of its own bytes when its xid is not proven and under its content key otherwise.
  The error is the one that replaces the refusal, when the digest of the bytes throws.\<close>

definition refuse :: "(string \<Rightarrow> string) \<Rightarrow> jsval \<Rightarrow> tx_error \<Rightarrow> ledger \<Rightarrow> ledger_error option \<times> ledger" where
  "refuse H tx e lg =
     (let lg1 = (case contentKey tx of Some k \<Rightarrow> lg\<lparr>lg_anchorKeys := lg_anchorKeys lg - {k}\<rparr> | None \<Rightarrow> lg) in
      if untyped e then (None, lg1)
      else if xid_mismatch e then
        (case forgedKey H tx of None \<Rightarrow> (Some Unserializable, lg1) | Some k \<Rightarrow> (None, snd (evict k ''refused'' lg1)))
      else (case contentKey tx of None \<Rightarrow> (None, lg1) | Some k \<Rightarrow> (None, snd (evict k ''refused'' lg1))))"

definition in_pool :: "block \<Rightarrow> ledger \<Rightarrow> bool" where
  "in_pool b lg \<longleftrightarrow> b_id b \<in> set (map b_id (lg_pool lg))"

definition pool_block :: "block \<Rightarrow> ledger \<Rightarrow> ledger" where
  "pool_block b lg = (if in_pool b lg then lg else persistMembershipPool (put_block b (lg\<lparr>lg_pool := lg_pool lg @ [b]\<rparr>)))"

datatype reply = Evicted | Duplicate | Pooled string string nat

definition addTransaction ::
  "(string \<Rightarrow> string) \<Rightarrow> (string \<Rightarrow> int option) \<Rightarrow> sig_env \<Rightarrow> string option \<Rightarrow> jsval \<Rightarrow> jsval \<Rightarrow> jsval \<Rightarrow> ledger
    \<Rightarrow> (ledger_error + reply) \<times> ledger" where
  "addTransaction H D env root now vt tx lg =
     (case checkSignature env tx of Some e \<Rightarrow> (Inl e, lg)
      | None \<Rightarrow>
          if barred tx lg then (Inr Evicted, lg)
          else (case claim_anchor tx lg of None \<Rightarrow> (Inr Duplicate, lg)
            | Some lg1 \<Rightarrow>
                (case fromTransaction H D now vt tx (lg_miner lg1) of
                   (Inl e, m) \<Rightarrow>
                     (case refuse H tx e (lg1\<lparr>lg_miner := m\<rparr>) of
                        (Some e', lg2) \<Rightarrow> (Inl e', lg2) | (None, lg2) \<Rightarrow> (Inl (Refused e), lg2))
                 | (Inr b, m) \<Rightarrow>
                     (let lg2 = pool_block b (lg1\<lparr>lg_miner := m\<rparr>) in
                      if lg_v2 lg2 then (Inr (Pooled (b_id b) (b_hash b) 0), lg2)
                      else (case sealReadyFaces H root lg2 of
                          (Inl e, lg3) \<Rightarrow> (Inl e, lg3) | (Inr n, lg3) \<Rightarrow> (Inr (Pooled (b_id b) (b_hash b) n), lg3))))))"

text \<open>One transaction of a batch. The state carries the first refusal; a failed signature check, and a
  digest that throws, leave the loop.\<close>

definition admit_one ::
  "(string \<Rightarrow> string) \<Rightarrow> (string \<Rightarrow> int option) \<Rightarrow> sig_env \<Rightarrow> jsval \<Rightarrow> jsval \<Rightarrow> jsval \<Rightarrow> ledger \<times> tx_error option
    \<Rightarrow> ledger_error option \<times> ledger \<times> tx_error option" where
  "admit_one H D env now vt tx st =
     (let (lg, first) = st in
      if barred tx lg then (None, lg, first)
      else (case claim_anchor tx lg of None \<Rightarrow> (None, lg, first)
        | Some lg1 \<Rightarrow>
            (case checkSignature env tx of Some e \<Rightarrow> (Some e, lg1, first)
             | None \<Rightarrow>
                 (case fromTransaction H D now vt tx (lg_miner lg1) of
                    (Inl e, m) \<Rightarrow>
                      (case refuse H tx e (lg1\<lparr>lg_miner := m\<rparr>) of
                         (Some e', lg2) \<Rightarrow> (Some e', lg2, first)
                       | (None, lg2) \<Rightarrow> (None, lg2, if first = None then Some e else first))
                  | (Inr b, m) \<Rightarrow>
                      (let lg2 = lg1\<lparr>lg_miner := m, lg_blocks := jset (lg_blocks lg1) (b_id b) b\<rparr>
                       in (None, pool_block b lg2, first))))))"

definition addSealedBatch ::
  "(string \<Rightarrow> string) \<Rightarrow> (string \<Rightarrow> int option) \<Rightarrow> sig_env \<Rightarrow> string option \<Rightarrow> jsval \<Rightarrow> jsval \<Rightarrow> jsval \<Rightarrow> ledger
    \<Rightarrow> (ledger_error + nat) \<times> ledger" where
  "addSealedBatch H D env root now vt txs lg =
     (if \<not> is_array txs then (Inl NotABatch, lg)
      else (case each_until (admit_one H D env now vt) (case txs of JArr xs \<Rightarrow> xs | _ \<Rightarrow> []) (lg, None) of
          (Some e, lg1, first) \<Rightarrow> (Inl e, lg1)
        | (None, lg1, first) \<Rightarrow>
            if lg_v2 lg1 then ((case first of Some e \<Rightarrow> Inl (Refused e) | None \<Rightarrow> Inr 0), lg1)
            else (case sealReadyFaces H root lg1 of
                (Inl e, lg2) \<Rightarrow> (Inl e, lg2)
              | (Inr n, lg2) \<Rightarrow> ((case first of Some e \<Rightarrow> Inl (Refused e) | None \<Rightarrow> Inr n), lg2))))"

section \<open>Gossip\<close>

text \<open>The block's text, parsed; errors are logged and dropped.\<close>

definition handleIncomingBlock ::
  "(string \<Rightarrow> string) \<Rightarrow> (string \<Rightarrow> int option) \<Rightarrow> sig_env \<Rightarrow> string option \<Rightarrow> jsval \<Rightarrow> jsval option \<Rightarrow> ledger \<Rightarrow> ledger" where
  "handleIncomingBlock H D env root now row lg =
     (case row of None \<Rightarrow> lg
      | Some r \<Rightarrow>
          (case deserialize_block now r of None \<Rightarrow> lg
           | Some b \<Rightarrow> if ledger_getBlock now (b_id b) lg \<noteq> None then lg
               else snd (addTransaction H D env root now JUndef (b_tx b) lg)))"

definition gossip_time :: "int \<Rightarrow> ledger \<Rightarrow> int \<times> ledger" where
  "gossip_time ts lg = (if ts = 0 then read_clock lg else (ts, lg))"

definition handleIncomingFace :: "nat \<Rightarrow> int \<Rightarrow> ledger \<Rightarrow> ledger" where
  "handleIncomingFace i ts lg =
     (case jget (lg_pendingFaces lg) (show_int ts) of
        Some f \<Rightarrow> if fc_timestamp f \<le> ts then lg
          else lg\<lparr>lg_pendingFaces := jset (lg_pendingFaces lg) (show_int ts) (new_face i ts)\<rparr>
      | None \<Rightarrow> (let (t, lg1) = gossip_time ts lg in
          lg1\<lparr>lg_pendingFaces := jset (lg_pendingFaces lg1) (show_int ts) (new_face i t)\<rparr>))"

definition handleIncomingCube :: "nat \<Rightarrow> int \<Rightarrow> ledger \<Rightarrow> ledger" where
  "handleIncomingCube lv ts lg =
     (let put = (\<lambda>t g. g\<lparr>lg_cubes := jset (lg_cubes g) (show_int ts) ((new_lcube t)\<lparr>cb_level := Some (if lv = 0 then 1 else lv)\<rparr>)\<rparr>) in
      case jget (lg_cubes lg) (show_int ts) of
        Some c \<Rightarrow> if cb_timestamp c \<le> ts then lg else put ts lg
      | None \<Rightarrow> (let (t, lg1) = gossip_time ts lg in put t lg1))"

end
