(* ===== verification/LedgerRebuild.thy ===== *)
theory LedgerRebuild
  imports LedgerAdmit
begin

text \<open>
  The whole-store passes of \<open>ledger.js\<close>: the compaction to content ids, the boot that restores the
  pools, and the rebuild from the canonical anchors.

  Hashes and events of anchors are compared as text. \<open>now\<close> is the clock a block without a time reads.
\<close>

section \<open>Compaction to content ids\<close>

definition own_time :: "(string \<Rightarrow> int option) \<Rightarrow> jsval \<Rightarrow> block \<Rightarrow> block" where
  "own_time D raw b = (case blockTimestampNanos D raw of Some t \<Rightarrow> b\<lparr>b_timestamp := JBig t\<rparr> | None \<Rightarrow> b)"

definition compact_envelope :: "string list" where
  "compact_envelope = [''from'', ''sig'', ''validationTimestamp'', ''id'', ''agent'', ''agent_xmbl_address'']"

record crow =
  cr_id :: string
  cr_raw :: jsval
  cr_env :: nat

record compact_out =
  co_scanned :: nat
  co_kept :: nat
  co_rekeyed :: nat
  co_removed :: nat
  co_deleted :: nat
  co_evicted :: nat
  co_untyped :: nat
  co_unaddressed :: nat

definition compact_zero :: compact_out where
  "compact_zero = \<lparr>co_scanned = 0, co_kept = 0, co_rekeyed = 0, co_removed = 0, co_deleted = 0, co_evicted = 0, co_untyped = 0, co_unaddressed = 0\<rparr>"

text \<open>A row joins the group of its content key.\<close>

definition group_row :: "string \<times> jsval option \<Rightarrow> (string, crow list) jmap \<times> compact_out \<Rightarrow> (string, crow list) jmap \<times> compact_out" where
  "group_row kr st =
     (let (groups, out0) = st; out = out0\<lparr>co_scanned := Suc (co_scanned out0)\<rparr> in
      case snd kr of None \<Rightarrow> (groups, out)
      | Some raw \<Rightarrow>
          (case contentKey (getp raw ''tx'') of
             None \<Rightarrow> (groups, out\<lparr>co_unaddressed := Suc (co_unaddressed out)\<rparr>)
           | Some ck \<Rightarrow>
               (jset groups ck ((case jget groups ck of Some rs \<Rightarrow> rs | None \<Rightarrow> []) @
                  [\<lparr>cr_id = fst kr, cr_raw = raw, cr_env = length (filter (has_prop (getp raw ''tx'')) compact_envelope)\<rparr>]), out)))"

definition drop_row :: "crow \<Rightarrow> ledger \<Rightarrow> ledger" where
  "drop_row r lg = (del_block_row (cr_id r) lg)\<lparr>lg_blocks := jdel (lg_blocks lg) (cr_id r)\<rparr>"

definition drop_rows :: "crow list \<Rightarrow> ledger \<times> compact_out \<Rightarrow> ledger \<times> compact_out" where
  "drop_rows rs st = (fold drop_row rs (fst st),
     (snd st)\<lparr>co_deleted := co_deleted (snd st) + length rs, co_removed := co_removed (snd st) + length rs\<rparr>)"

text \<open>The survivor: closest to the bare consensus shape, then the lowest id.\<close>

definition survivor_order :: "crow list \<Rightarrow> crow list" where
  "survivor_order rs = sort_key cr_env (sort_key cr_id rs)"

text \<open>\<open>Inl None\<close>: the row does not deserialise.\<close>

definition reread :: "(string \<Rightarrow> string) \<Rightarrow> (string \<Rightarrow> int option) \<Rightarrow> jsval \<Rightarrow> jsval \<Rightarrow> miner \<Rightarrow> (tx_error option + block \<times> string) \<times> miner" where
  "reread H D now raw m = (case deserialize_block now raw of None \<Rightarrow> (Inl None, m)
     | Some b \<Rightarrow> (case fromTransaction H D now JUndef (b_tx b) m of
         (Inl e, m') \<Rightarrow> (Inl (Some e), m') | (Inr nb, m') \<Rightarrow> (Inr (b, b_id nb), m')))"

definition compact_group ::
  "(string \<Rightarrow> string) \<Rightarrow> (string \<Rightarrow> int option) \<Rightarrow> jsval \<Rightarrow> string \<times> crow list \<Rightarrow> ledger \<times> compact_out \<Rightarrow> ledger \<times> compact_out" where
  "compact_group H D now g st =
     (let (ck, rows0) = g; (lg, out) = st in
      if ck \<in> lg_evicted lg then
        (let (lg1, out1) = drop_rows rows0 (lg, out) in (lg1, out1\<lparr>co_evicted := Suc (co_evicted out1)\<rparr>))
      else (let rows = survivor_order rows0; keep = hd rows in
        case reread H D now (cr_raw keep) (lg_miner lg) of
          (Inl e, m) \<Rightarrow>
            (let lg0 = lg\<lparr>lg_miner := m\<rparr>; un = (case e of Some x \<Rightarrow> untyped x | None \<Rightarrow> False) in
             drop_rows rows (if un then (lg0, out\<lparr>co_untyped := Suc (co_untyped out)\<rparr>)
               else (snd (evict ck ''rejected'' lg0), out\<lparr>co_evicted := Suc (co_evicted out)\<rparr>)))
        | (Inr (b, newId), m) \<Rightarrow>
            (let gone = filter (\<lambda>r. cr_id r \<noteq> newId) rows;
                 lg1 = fold drop_row gone (lg\<lparr>lg_miner := m\<rparr>);
                 b' = (own_time D (cr_raw keep) b)\<lparr>b_id := newId\<rparr>;
                 lg2 = put_block b' lg1
             in (lg2\<lparr>lg_blocks := jset (lg_blocks lg2) newId b'\<rparr>,
                 out\<lparr>co_deleted := co_deleted out + length gone,
                     co_removed := co_removed out + length (filter (\<lambda>r. cr_id r \<noteq> newId) (tl rows)),
                     co_rekeyed := co_rekeyed out + (if cr_id keep \<noteq> newId then 1 else 0), co_kept := Suc (co_kept out)\<rparr>))))"

definition anchor_keys_of :: "block list \<Rightarrow> string set" where
  "anchor_keys_of bs = set (map the (filter (\<lambda>k. k \<noteq> None)
     (map (\<lambda>b. if getp (b_tx b) ''type'' = JStr ''anchor'' then contentKey (b_tx b) else None) bs)))"

definition compactToContentIds ::
  "(string \<Rightarrow> string) \<Rightarrow> (string \<Rightarrow> int option) \<Rightarrow> jsval \<Rightarrow> ledger \<Rightarrow> compact_out \<times> ledger" where
  "compactToContentIds H D now lg =
     (if \<not> lg_open lg then (compact_zero, lg)
      else (let (groups, out) = fold group_row (sort_key fst (lg_blockrows lg)) ([], compact_zero);
                (lg1, out1) = fold (compact_group H D now) groups (lg, out);
                pool = jvalues (lg_blocks lg1)
            in (out1, persistMembershipPool (lg1\<lparr>lg_pool := pool, lg_anchorKeys := anchor_keys_of pool\<rparr>))))"

section \<open>Boot\<close>

record scan_out =
  so_legacy :: nat
  so_doomed :: "string list"
  so_keys :: "string set"

definition scan_row :: "(string \<Rightarrow> string) \<Rightarrow> (string \<Rightarrow> int option) \<Rightarrow> string \<times> jsval option \<Rightarrow> scan_out \<Rightarrow> scan_out" where
  "scan_row H D kr s = (case snd kr of None \<Rightarrow> s
     | Some raw \<Rightarrow>
         (case consensusBody D (getp raw ''tx'') of
            Some (Some body) \<Rightarrow>
              s\<lparr>so_keys := (if is_anchor (getp raw ''tx'') then insert (anchor_key (getp raw ''tx'')) (so_keys s) else so_keys s),
                so_legacy := (if fst kr \<noteq> contentIdOf H body then Suc (so_legacy s) else so_legacy s)\<rparr>
          | _ \<Rightarrow> s\<lparr>so_doomed := so_doomed s @ [fst kr]\<rparr>))"

fun load_blocks :: "jsval \<Rightarrow> string list \<Rightarrow> ledger \<Rightarrow> block list \<times> ledger" where
  "load_blocks now [] lg = ([], lg)"
| "load_blocks now (i # is) lg =
     (let (b, lg1) = loadBlock now i lg; (bs, lg2) = load_blocks now is lg1
      in (case b of Some x \<Rightarrow> x # bs | None \<Rightarrow> bs, lg2))"

definition restore_pool :: "jsval \<Rightarrow> ledger \<Rightarrow> ledger" where
  "restore_pool now lg = (case lg_poolrow lg of None \<Rightarrow> lg
     | Some ids \<Rightarrow>
         (let have = set (map b_id (lg_pool lg)); (bs, lg1) = load_blocks now (filter (\<lambda>i. i \<notin> have) ids) lg
          in lg1\<lparr>lg_pool := lg_pool lg1 @ bs\<rparr>))"

definition restore_face ::
  "(string \<Rightarrow> string) \<Rightarrow> jsval \<Rightarrow> string set \<Rightarrow> string \<times> string list \<Rightarrow> ledger \<Rightarrow> ledger" where
  "restore_face H now have row lg =
     (let (bs, lg1) = load_blocks now (snd row) lg in
      if length bs \<noteq> 9 then lg1
      else (let ((faces, rest), lg2) = seal_pool H bs lg1 in
        case faces of [] \<Rightarrow> lg2
        | f # fs \<Rightarrow> if face_root H f \<in> have then lg2 else lg2\<lparr>lg_pendingCubeFaces := lg_pendingCubeFaces lg2 @ [f]\<rparr>))"

definition restore_faces :: "(string \<Rightarrow> string) \<Rightarrow> jsval \<Rightarrow> ledger \<Rightarrow> ledger" where
  "restore_faces H now lg = (case lg_facesrow lg of None \<Rightarrow> lg
     | Some rows \<Rightarrow> fold (restore_face H now (set (map (face_root H) (lg_pendingCubeFaces lg)))) rows lg)"

text \<open>The answer: rows deleted as untyped, rows under a foreign key, and the report of the compaction.\<close>

definition rehydratePools ::
  "(string \<Rightarrow> string) \<Rightarrow> (string \<Rightarrow> int option) \<Rightarrow> jsval \<Rightarrow> ledger \<Rightarrow> (nat \<times> nat \<times> compact_out option) \<times> ledger" where
  "rehydratePools H D now lg =
     (if \<not> lg_open lg then ((0, 0, None), lg)
      else (let s = fold (scan_row H D) (sort_key fst (lg_blockrows lg)) \<lparr>so_legacy = 0, so_doomed = [], so_keys = lg_anchorKeys lg\<rparr>;
                lg1 = fold (\<lambda>i g. (del_block_row i g)\<lparr>lg_blocks := jdel (lg_blocks g) i\<rparr>) (so_doomed s) (lg\<lparr>lg_anchorKeys := so_keys s\<rparr>);
                lg2 = lg1\<lparr>lg_evicted := lg_evicted lg1 \<union> set (jkeys (lg_evictrows lg1))\<rparr>;
                (rekey, lg3) = (if 0 < so_legacy s then (let (out, g) = compactToContentIds H D now lg2 in (Some out, g)) else (None, lg2));
                lg4 = (if rekey = None
                       then (let g = restore_pool now lg3 in if so_doomed s \<noteq> [] then persistMembershipPool g else g) else lg3)
            in ((length (so_doomed s), so_legacy s, rekey), restore_faces H now lg4)))"

definition ledger_initDb ::
  "(string \<Rightarrow> string) \<Rightarrow> (string \<Rightarrow> int option) \<Rightarrow> jsval \<Rightarrow> bool \<Rightarrow> ledger \<Rightarrow> (nat \<times> nat \<times> compact_out option) \<times> ledger" where
  "ledger_initDb H D now opens lg = rehydratePools H D now (lg\<lparr>lg_open := opens\<rparr>)"

section \<open>The rebuild from the canonical anchors\<close>

definition anchor_tx :: "jsval \<Rightarrow> jsval" where
  "anchor_tx a = JObj ([(''type'', JStr ''anchor''), (''event'', getp a ''event''), (''hash'', getp a ''hash''),
     (''ts'', nullish (getp a ''ts'') (JInt 0)), (''xid'', getp a ''xid''), (''nonce'', getp a ''nonce'')]
     @ (if is_string (getp a ''prior'') then [(''prior'', getp a ''prior'')] else []))"

definition has_xid :: "jsval \<Rightarrow> bool" where
  "has_xid a \<longleftrightarrow> (case getp a ''xid'' of JStr x \<Rightarrow> x \<noteq> [] | _ \<Rightarrow> False)"

text \<open>The first anchor of each content key, in the order they come.\<close>

fun first_named :: "string set \<Rightarrow> jsval list \<Rightarrow> jsval list" where
  "first_named seen [] = []"
| "first_named seen (a # as) =
     (if \<not> named a \<or> anchor_key a \<in> seen then first_named seen as else a # first_named (insert (anchor_key a) seen) as)"

text \<open>Blocks the anchors give, with the counts of untyped and rejected ones.\<close>

fun mint_anchors ::
  "(string \<Rightarrow> string) \<Rightarrow> (string \<Rightarrow> int option) \<Rightarrow> jsval \<Rightarrow> jsval list \<Rightarrow> miner \<Rightarrow> ((jsval \<times> block) list \<times> nat \<times> nat) \<times> miner" where
  "mint_anchors H D now [] m = (([], 0, 0), m)"
| "mint_anchors H D now (a # as) m =
     (if \<not> has_xid a then (let ((bs, u, r), m') = mint_anchors H D now as m in ((bs, Suc u, r), m'))
      else (case fromTransaction H D now JUndef (anchor_tx a) m of
          (Inl e, m1) \<Rightarrow> (let ((bs, u, r), m') = mint_anchors H D now as m1 in ((bs, u, Suc r), m'))
        | (Inr b, m1) \<Rightarrow> (let ((bs, u, r), m') = mint_anchors H D now as m1 in (((a, b) # bs, u, r), m'))))"

text \<open>What the wipe may not lose: the rows that are no anchors, with their own times, in id order.\<close>

definition preserve_row :: "(string \<Rightarrow> int option) \<Rightarrow> jsval \<Rightarrow> string set \<Rightarrow> jsval option \<Rightarrow> block option + bool" where
  "preserve_row D now evicted row = (case row of None \<Rightarrow> Inl None
     | Some raw \<Rightarrow>
         if raw = JNull \<or> \<not> truthy (getp raw ''tx'') \<or> getp (getp raw ''tx'') ''type'' = JStr ''anchor'' then Inl None
         else if (case contentKey (getp raw ''tx'') of Some k \<Rightarrow> k \<in> evicted | None \<Rightarrow> False) then Inr True
         else Inl (map_option (own_time D raw) (deserialize_block now raw)))"

definition preserved_blocks :: "(string \<Rightarrow> int option) \<Rightarrow> jsval \<Rightarrow> ledger \<Rightarrow> block list \<times> nat" where
  "preserved_blocks D now lg =
     (let rs = map (preserve_row D now (lg_evicted lg)) (jvalues (sort_key fst (lg_blockrows lg))) in
      if lg_open lg then (sort_key b_id (map the (filter (\<lambda>b. b \<noteq> None) (map (\<lambda>r. case r of Inl b \<Rightarrow> b | Inr e \<Rightarrow> None) rs))),
          length (filter (\<lambda>r. r = Inr True) rs))
      else ([], 0))"

definition wipe :: "ledger \<Rightarrow> ledger" where
  "wipe lg =
     (let lg1 = lg\<lparr>lg_blocks := [], lg_cubes := [], lg_pool := [], lg_pendingCubeFaces := [], lg_anchorKeys := {},
        lg_slotFaces := [[], [], []], lg_pendingFaces := [], lg_supers := [], lg_completed := [], lg_levelFaces := []\<rparr> in
      if lg_open lg then lg1\<lparr>lg_blockrows := [], lg_cuberows := [], lg_poolrow := None, lg_facesrow := None\<rparr> else lg1)"

definition pool_anchor :: "(string \<Rightarrow> int option) \<Rightarrow> jsval \<times> block \<Rightarrow> ledger \<Rightarrow> ledger" where
  "pool_anchor D ab lg =
     (let b = (snd ab)\<lparr>b_timestamp := JBig (anchorTimestampNanos D (getp (fst ab) ''ts''))\<rparr> in
      lg\<lparr>lg_anchorKeys := insert (anchor_key (fst ab)) (lg_anchorKeys lg),
         lg_blocks := jset (lg_blocks lg) (b_id b) b, lg_pool := lg_pool lg @ [b]\<rparr>)"

definition readmit :: "block \<Rightarrow> ledger \<Rightarrow> ledger" where
  "readmit b lg = (if jhas (lg_blocks lg) (b_id b) then lg
     else put_block b (lg\<lparr>lg_blocks := jset (lg_blocks lg) (b_id b) b, lg_pool := lg_pool lg @ [b]\<rparr>))"

text \<open>The loop that seals until a pass seals nothing, with the guard of the code as fuel.\<close>

fun seal_all :: "(string \<Rightarrow> string) \<Rightarrow> string option \<Rightarrow> nat \<Rightarrow> ledger \<Rightarrow> (ledger_error + nat) \<times> ledger" where
  "seal_all H root 0 lg = (Inr 0, lg)"
| "seal_all H root (Suc g) lg = (case sealReadyFaces H root lg of
     (Inl e, lg1) \<Rightarrow> (Inl e, lg1)
   | (Inr n, lg1) \<Rightarrow> if n = 0 then (Inr 0, lg1)
       else (case seal_all H root g lg1 of (Inl e, lg2) \<Rightarrow> (Inl e, lg2) | (Inr k, lg2) \<Rightarrow> (Inr (n + k), lg2)))"

definition guard_limit :: nat where "guard_limit = 200001"

record rebuild_out =
  ro_refused :: bool
  ro_anchors :: nat
  ro_untyped :: nat
  ro_rejected :: nat
  ro_evicted :: nat
  ro_wiped :: nat
  ro_preserved :: nat
  ro_faces :: nat

definition rebuild_order :: "jsval list \<Rightarrow> jsval list" where
  "rebuild_order as = sort_key (\<lambda>a. js_string (getp a ''hash'')) (sort_key (\<lambda>a. js_string (getp a ''event'')) as)"

definition held :: "ledger \<Rightarrow> nat" where
  "held lg = length (lg_blocks lg) + length (lg_pool lg)"

definition rebuildFromAnchors ::
  "(string \<Rightarrow> string) \<Rightarrow> (string \<Rightarrow> int option) \<Rightarrow> string option \<Rightarrow> jsval \<Rightarrow> jsval \<Rightarrow> ledger \<Rightarrow> (ledger_error + rebuild_out) \<times> ledger" where
  "rebuildFromAnchors H D root now anchors lg =
     (let list = (case anchors of JArr xs \<Rightarrow> xs | _ \<Rightarrow> []);
          distinct = first_named {} list;
          uniq = filter (\<lambda>a. \<not> isEvictedRow a lg) distinct;
          dropped = length distinct - length uniq;
          ((dry, du, dr), m0) = (if 0 < held lg then mint_anchors H D now uniq (lg_miner lg) else (([], 0, 0), lg_miner lg)) in
      if 0 < held lg \<and> dry = [] then
        (Inr \<lparr>ro_refused = True, ro_anchors = 0, ro_untyped = du, ro_rejected = dr, ro_evicted = dropped, ro_wiped = 0,
           ro_preserved = 0, ro_faces = 0\<rparr>, lg\<lparr>lg_miner := m0\<rparr>)
      else (let (kept, spared) = preserved_blocks D now lg;
                wiped = (if lg_open lg then length (lg_blockrows lg) else 0);
                lg1 = wipe (lg\<lparr>lg_miner := m0\<rparr>);
                ((minted, u, r), m1) = mint_anchors H D now (rebuild_order uniq) m0;
                lg2 = fold (pool_anchor D) minted (lg1\<lparr>lg_miner := m1\<rparr>);
                lg3 = fold readmit kept lg2
            in case seal_all H root guard_limit lg3 of
                 (Inl e, lg4) \<Rightarrow> (Inl e, lg4)
               | (Inr n, lg4) \<Rightarrow>
                   (Inr \<lparr>ro_refused = False, ro_anchors = length minted, ro_untyped = u, ro_rejected = r,
                      ro_evicted = spared + dropped, ro_wiped = wiped, ro_preserved = length kept, ro_faces = n\<rparr>,
                    persistMembershipPool lg4)))"

end
