(* ===== verification/LedgerFrames.thy ===== *)
theory LedgerFrames
  imports LedgerRebuild
begin

text \<open>
  What the operations of the ledger leave alone: sealing touches neither the doors (evictions, anchor
  keys) nor the blocks map nor the miner, and takes from the pool what it seals.
\<close>

section \<open>Frames\<close>

lemma fold_frame: "(\<And>x s. P (f x s) = P s) \<Longrightarrow> P (fold f xs s) = P s"
  by (induction xs arbitrary: s) simp_all

lemma each_until_frame: "(\<And>x s. P (snd (f x s)) = P s) \<Longrightarrow> P (snd (each_until f xs s)) = P s"
proof (induction xs arbitrary: s)
  case (Cons x xs)
  then show ?case using Cons.prems[of x s] by (cases "f x s"; cases "fst (f x s)") auto
qed simp

text \<open>The part of the state sealing does not touch, and the pool.\<close>

definition door :: "ledger \<Rightarrow> string set \<times> string set \<times> (string, string) jmap \<times> bool \<times> bool \<times> (string, block) jmap" where
  "door lg = (lg_evicted lg, lg_anchorKeys lg, lg_evictrows lg, lg_open lg, lg_v2 lg, lg_blocks lg)"

lemma door_frame [step_simps]:
  "door (put_block b lg) = door lg" "lg_pool (put_block b lg) = lg_pool lg" "lg_miner (put_block b lg) = lg_miner lg"
  "door (persistMembershipPool lg) = door lg" "lg_pool (persistMembershipPool lg) = lg_pool lg"
  "lg_miner (persistMembershipPool lg) = lg_miner lg" "lg_blockrows (persistMembershipPool lg) = lg_blockrows lg"
  "door (persistPendingFaces H lg) = door lg" "lg_pool (persistPendingFaces H lg) = lg_pool lg"
  "lg_miner (persistPendingFaces H lg) = lg_miner lg"
  "door (emit e lg) = door lg" "lg_pool (emit e lg) = lg_pool lg" "lg_miner (emit e lg) = lg_miner lg"
  "door (put_cube c r lg) = door lg" "lg_pool (put_cube c r lg) = lg_pool lg" "lg_miner (put_cube c r lg) = lg_miner lg"
  "door (checkRecursiveCubeFormation H c' lg) = door lg" "lg_pool (checkRecursiveCubeFormation H c' lg) = lg_pool lg"
  "lg_miner (checkRecursiveCubeFormation H c' lg) = lg_miner lg"
  by (simp_all add: door_def put_block_def persistMembershipPool_def persistPendingFaces_def emit_def put_cube_def
      checkRecursiveCubeFormation_def Let_def)

lemma door_fold [step_simps]:
  "door (put_face_blocks f lg) = door lg" "lg_pool (put_face_blocks f lg) = lg_pool lg" "lg_miner (put_face_blocks f lg) = lg_miner lg"
  "door (emitBlocksAdded f lg) = door lg" "lg_pool (emitBlocksAdded f lg) = lg_pool lg" "lg_miner (emitBlocksAdded f lg) = lg_miner lg"
  unfolding put_face_blocks_def emitBlocksAdded_def by (rule fold_frame, simp add: step_simps)+

lemma door_fold_faces [step_simps]:
  "door (fold put_face_blocks fs lg) = door lg" "lg_pool (fold put_face_blocks fs lg) = lg_pool lg"
  "lg_miner (fold put_face_blocks fs lg) = lg_miner lg"
  by (rule fold_frame, simp add: step_simps)+

lemma door_upd [step_simps]:
  "door (lg\<lparr>lg_cubes := a\<rparr>) = door lg" "door (lg\<lparr>lg_slotFaces := b\<rparr>) = door lg" "door (lg\<lparr>lg_clock := c\<rparr>) = door lg"
  "door (lg\<lparr>lg_pendingFaces := d\<rparr>) = door lg" "door (lg\<lparr>lg_pool := e\<rparr>) = door lg" "door (lg\<lparr>lg_pendingCubeFaces := g\<rparr>) = door lg"
  "door (lg\<lparr>lg_miner := m\<rparr>) = door lg" "door (lg\<lparr>lg_blockrows := r\<rparr>) = door lg"
  by (simp_all add: door_def)

lemma finalizeCube_frame [step_simps]:
  "door (snd (finalizeCube H root c key lg)) = door lg" "lg_pool (snd (finalizeCube H root c key lg)) = lg_pool lg"
  "lg_miner (snd (finalizeCube H root c key lg)) = lg_miner lg"
  by (auto simp: finalizeCube_def Let_def step_simps split: option.split)

lemma open_cube_frame: "open_cube k lg = (c, lg') \<Longrightarrow> door lg' = door lg \<and> lg_pool lg' = lg_pool lg \<and> lg_miner lg' = lg_miner lg"
  by (auto simp: open_cube_def read_clock_def step_simps split: option.splits if_splits)

lemma finalizeFace_frame [step_simps]:
  "door (snd (finalizeFace H root f lg)) = door lg" "lg_pool (snd (finalizeFace H root f lg)) = lg_pool lg"
  "lg_miner (snd (finalizeFace H root f lg)) = lg_miner lg"
  by (auto simp: finalizeFace_def Let_def step_simps split: option.split prod.split dest!: open_cube_frame)

lemma seal_face_frame [step_simps]:
  "door (snd (seal_face H root f lg)) = door lg" "lg_pool (snd (seal_face H root f lg)) = lg_pool lg"
  "lg_miner (snd (seal_face H root f lg)) = lg_miner lg"
proof -
  obtain e lg1 where x: "finalizeFace H root (locate_blocks f) (put_face_blocks (locate_blocks f) lg) = (e, lg1)" by fastforce
  then have y: "door lg1 = door lg" "lg_pool lg1 = lg_pool lg" "lg_miner lg1 = lg_miner lg"
    using finalizeFace_frame[of H root "locate_blocks f" "put_face_blocks (locate_blocks f) lg"] by (simp_all add: step_simps)
  show "door (snd (seal_face H root f lg)) = door lg" "lg_pool (snd (seal_face H root f lg)) = lg_pool lg"
    "lg_miner (snd (seal_face H root f lg)) = lg_miner lg"
    by (simp_all add: seal_face_def Let_def x y step_simps split: option.split)
qed

lemma sealReadyFaces_frame [step_simps]:
  "door (snd (sealReadyFaces H root lg)) = door lg" "lg_miner (snd (sealReadyFaces H root lg)) = lg_miner lg"
  "lg_pool (snd (sealReadyFaces H root lg)) = snd (chunks 9 (sort_key by_hash (lg_pool lg)))"
proof -
  obtain fs rest lg1 where s: "seal_pool H (lg_pool lg) lg = ((fs, rest), lg1)" by (cases "seal_pool H (lg_pool lg) lg") auto
  then have l: "door lg1 = door lg" "lg_miner lg1 = lg_miner lg" "rest = snd (chunks 9 (sort_key by_hash (lg_pool lg)))"
    by (auto simp: seal_pool_def step_simps split: prod.splits)
  have e: "P (snd (sealReadyFaces H root lg)) = P (snd (each_until (seal_face H root) fs (lg1\<lparr>lg_pool := rest\<rparr>)))" for P :: "ledger \<Rightarrow> 'a"
    by (auto simp: sealReadyFaces_def s split: prod.split option.split)
  show "door (snd (sealReadyFaces H root lg)) = door lg"
    unfolding e by (subst each_until_frame[where P = door]) (simp_all add: step_simps l)
  have e: "P (snd (sealReadyFaces H root lg)) = P (snd (each_until (seal_face H root) fs (lg1\<lparr>lg_pool := rest\<rparr>)))" for P :: "ledger \<Rightarrow> 'a"
    by (auto simp: sealReadyFaces_def s split: prod.split option.split)
  show "lg_miner (snd (sealReadyFaces H root lg)) = lg_miner lg"
    unfolding e by (subst each_until_frame[where P = lg_miner]) (simp_all add: step_simps l)
  have e: "P (snd (sealReadyFaces H root lg)) = P (snd (each_until (seal_face H root) fs (lg1\<lparr>lg_pool := rest\<rparr>)))" for P :: "ledger \<Rightarrow> 'a"
    by (auto simp: sealReadyFaces_def s split: prod.split option.split)
  show "lg_pool (snd (sealReadyFaces H root lg)) = snd (chunks 9 (sort_key by_hash (lg_pool lg)))"
    unfolding e by (subst each_until_frame[where P = lg_pool]) (simp_all add: step_simps l)
qed

end
