(* ===== verification/LedgerTower.thy ===== *)
theory LedgerTower
  imports LedgerSeal
begin

text \<open>
  The recursion above level 1 (\<open>_checkRecursiveCubeFormation\<close>, \<open>_formNextLevelFace\<close>,
  \<open>_checkFaceFormation\<close>, \<open>_formCubeFromFaces\<close>): it ends with fewer than nine cubes and fewer than
  three faces waiting at every level, every super-cube has three faces of nine cubes of the level
  below, and every finished cube is in exactly one place.
\<close>

section \<open>Well-formed towers\<close>

fun atoms :: "tower \<Rightarrow> lcube multiset" where
  "atoms (Atom c) = {#c#}"
| "atoms (Super l i fs) = sum_list (map (\<lambda>cs. sum_list (map atoms cs)) fs)"

fun proper :: "tower \<Rightarrow> bool" where
  "proper (Atom c) = True"
| "proper (Super l i fs) = (length fs = 3 \<and> (\<forall>cs \<in> set fs. length cs = 9 \<and> (\<forall>t \<in> set cs. Suc (tower_level t) = l \<and> proper t)))"

definition cubes_at :: "nat \<Rightarrow> tower list \<Rightarrow> bool" where
  "cubes_at l ts \<longleftrightarrow> (\<forall>t \<in> set ts. tower_level t = l \<and> proper t)"

definition faces_at :: "nat \<Rightarrow> tower list list \<Rightarrow> bool" where
  "faces_at l fs \<longleftrightarrow> (\<forall>cs \<in> set fs. length cs = 9 \<and> (\<forall>t \<in> set cs. Suc (tower_level t) = l \<and> proper t))"

text \<open>\<open>busy\<close>: the levels whose faces are still to be looked at.\<close>

definition tower_ok :: "nat set \<Rightarrow> tower_state \<Rightarrow> bool" where
  "tower_ok busy st \<longleftrightarrow>
     (\<forall>l. cubes_at l (level_list (ts_done st) l) \<and> length (level_list (ts_done st) l) < 9)
   \<and> (\<forall>l. faces_at l (level_list (ts_faces st) l) \<and> (l \<notin> busy \<longrightarrow> length (level_list (ts_faces st) l) < 3))"

definition busy_levels :: "tower_call list \<Rightarrow> nat set" where
  "busy_levels cs = {l. CheckFaces l \<in> set cs}"

definition calls_ok :: "tower_call list \<Rightarrow> bool" where
  "calls_ok cs \<longleftrightarrow> (\<forall>t. Completed t \<in> set cs \<longrightarrow> proper t)"

lemma level_list_jset [step_simps]: "level_list (jset m l xs) k = (if k = l then xs else level_list m k)"
  by (simp add: level_list_def jget_jset)

lemma tower_level_Super: "tower_level (form_cube H l fs) = l"
  by (simp add: form_cube_def Let_def)

lemma form_cube_proper: "faces_at l fs \<Longrightarrow> length fs = 3 \<Longrightarrow> proper (form_cube H l fs)"
  by (simp add: form_cube_def Let_def faces_at_def)

lemma faces_at_snoc:
  "faces_at l fs \<Longrightarrow> length f = 9 \<Longrightarrow> \<forall>u \<in> set f. Suc (tower_level u) = l \<and> proper u \<Longrightarrow> faces_at l (fs @ [f])"
  by (auto simp: faces_at_def)

lemma complete_cube_ok:
  assumes "tower_ok busy st" "proper t" "complete_cube t st = (st', new)"
  shows "tower_ok (busy \<union> busy_levels new) st' \<and> calls_ok new"
proof -
  let ?l = "tower_level t"
  define cs where "cs = level_list (ts_done st) ?l @ [t]"
  have "length (level_list (ts_done st) ?l) < 9" using assms(1) by (simp add: tower_ok_def)
  then have n: "length cs \<le> 9" by (simp add: cs_def)
  have d: "cubes_at ?l cs" using assms(1,2) by (auto simp: tower_ok_def cubes_at_def cs_def)
  show ?thesis
  proof (cases "length cs < 9")
    case True
    then have "st' = st\<lparr>ts_done := jset (ts_done st) ?l cs\<rparr>" "new = []"
      using assms(3) unfolding complete_cube_def Let_def cs_def[symmetric] by simp_all
    then show ?thesis using assms(1) d True by (auto simp: tower_ok_def step_simps busy_levels_def calls_ok_def)
  next
    case False
    let ?f = "sort_key tower_id (take 9 cs)"
    have "length ?f = 9" using False by simp
    moreover have "\<forall>u \<in> set ?f. Suc (tower_level u) = Suc ?l \<and> proper u"
      using d unfolding cubes_at_def set_sort by (blast dest: in_set_takeD)
    ultimately have f: "faces_at (Suc ?l) (level_list (ts_faces st) (Suc ?l) @ [?f])"
      using assms(1) unfolding tower_ok_def by (blast intro: faces_at_snoc)
    have c: "cubes_at ?l (drop 9 cs)" "length (drop 9 cs) < 9" using d n unfolding cubes_at_def by (auto dest: in_set_dropD)
    from False assms(3) have st': "new = [CheckFaces (Suc ?l)]"
      "level_list (ts_done st') k = (if k = ?l then drop 9 cs else level_list (ts_done st) k)"
      "level_list (ts_faces st') k = (if k = Suc ?l then level_list (ts_faces st) (Suc ?l) @ [?f] else level_list (ts_faces st) k)" for k
      unfolding complete_cube_def Let_def cs_def[symmetric] by (auto simp: step_simps)
    show ?thesis using assms(1) f c unfolding tower_ok_def st' by (simp only: busy_levels_def calls_ok_def) auto
  qed
qed

lemma check_faces_ok:
  assumes "tower_ok (insert l busy) st" "check_faces H l st = (st', new)"
  shows "tower_ok (busy \<union> busy_levels new) st' \<and> calls_ok new"
proof (cases "length (level_list (ts_faces st) l) < 3")
  case True
  then show ?thesis using assms by (auto simp: check_faces_def Let_def tower_ok_def busy_levels_def calls_ok_def)
next
  case False
  let ?fs = "level_list (ts_faces st) l"
  have f: "faces_at l (drop 3 ?fs)" "faces_at l (take 3 ?fs)"
    using assms(1) unfolding tower_ok_def faces_at_def by (meson in_set_dropD in_set_takeD)+
  have p: "proper (form_cube H l (take 3 ?fs))" using f(2) False by (intro form_cube_proper) auto
  from False assms(2) have st': "new = [Completed (form_cube H l (take 3 ?fs)), CheckFaces l]" "ts_done st' = ts_done st"
      "level_list (ts_faces st') k = (if k = l then drop 3 ?fs else level_list (ts_faces st) k)" for k
    by (auto simp: check_faces_def Let_def step_simps)
  show ?thesis using assms(1) f p unfolding tower_ok_def st' by (auto simp: busy_levels_def calls_ok_def)
qed

lemma run_tower_ok:
  assumes "tower_ok (busy_levels cs) st" "calls_ok cs"
  shows "tower_ok {} (run_tower H cs st)"
  using assms
proof (induction H cs st rule: run_tower.induct)
  case (1 H st)
  then show ?case by (simp add: busy_levels_def)
next
  case (2 H c cs st)
  obtain st' new where n: "tower_step H c st = (st', new)" by (cases "tower_step H c st") auto
  have ok: "tower_ok (busy_levels (new @ cs)) st' \<and> calls_ok (new @ cs)"
  proof (cases c)
    case (Completed t)
    have b: "busy_levels (c # cs) = busy_levels cs" "busy_levels (new @ cs) = busy_levels cs \<union> busy_levels new"
      using Completed by (auto simp: busy_levels_def)
    show ?thesis using complete_cube_ok[of "busy_levels cs" st t st' new] 2(2,3) n Completed unfolding b by (auto simp: calls_ok_def)
  next
    case (CheckFaces l)
    have b: "busy_levels (c # cs) = insert l (busy_levels cs)" "busy_levels (new @ cs) = busy_levels cs \<union> busy_levels new"
      using CheckFaces by (auto simp: busy_levels_def)
    show ?thesis using check_faces_ok[of l "busy_levels cs" st H st' new] 2(2,3) n CheckFaces unfolding b by (auto simp: calls_ok_def)
  qed
  then show ?case using 2(1)[OF n[symmetric]] n by simp
qed

section \<open>Every cube in one place\<close>

definition level_sum :: "('a \<Rightarrow> lcube multiset) \<Rightarrow> (nat, 'a list) jmap \<Rightarrow> lcube multiset" where
  "level_sum g m = sum_list (map (\<lambda>(k, xs). sum_list (map g xs)) m)"

lemma level_sum_jset: "level_sum g (jset m l xs) + sum_list (map g (level_list m l)) = level_sum g m + sum_list (map g xs)"
  by (induction m) (auto simp: level_sum_def level_list_def ac_simps)

lemma sum_list_sort: "sum_list (map g (sort_key k xs)) = (sum_list (map g xs) :: lcube multiset)"
  by (metis mset_map mset_sort sum_mset_sum_list)

definition face_atoms :: "tower list \<Rightarrow> lcube multiset" where
  "face_atoms cs = sum_list (map atoms cs)"

definition tower_atoms :: "tower_state \<Rightarrow> lcube multiset" where
  "tower_atoms st = level_sum atoms (ts_done st) + level_sum face_atoms (ts_faces st)"

fun call_atoms :: "tower_call \<Rightarrow> lcube multiset" where
  "call_atoms (Completed t) = atoms t"
| "call_atoms (CheckFaces l) = {#}"

lemma atoms_form_cube: "atoms (form_cube H l fs) = sum_list (map face_atoms fs)"
proof -
  have "face_atoms = (\<lambda>cs. sum_list (map atoms cs))" by (rule ext) (rule face_atoms_def)
  then show ?thesis by (simp only: form_cube_def Let_def atoms.simps sum_list_sort)
qed

lemma sum_take_drop: "sum_list (map g (take n xs)) + sum_list (map g (drop n xs)) = (sum_list (map g xs) :: lcube multiset)"
  by (metis append_take_drop_id map_append sum_list_append)

lemma exchange:
  fixes d d' x r f p a :: "'a multiset"
  assumes "d' + x = d + r" "p + r = x + a"
  shows "d' + (f + p) = d + f + a"
proof (rule multiset_eqI)
  fix c
  show "count (d' + (f + p)) c = count (d + f + a) c"
    using arg_cong[OF assms(1), of "\<lambda>m. count m c"] arg_cong[OF assms(2), of "\<lambda>m. count m c"] by simp
qed

lemma tower_step_atoms:
  assumes "tower_step H c st = (st', new)"
  shows "tower_atoms st' + sum_list (map call_atoms new) = tower_atoms st + call_atoms c"
proof (cases c)
  case (Completed t)
  let ?l = "tower_level t" let ?cs = "level_list (ts_done st) ?l @ [t]"
  show ?thesis
  proof (cases "length ?cs < 9")
    case True
    then show ?thesis using assms Completed level_sum_jset[of atoms ?l ?cs "ts_done st"]
      by (auto simp: complete_cube_def Let_def tower_atoms_def ac_simps)
  next
    case False
    let ?f = "sort_key tower_id (take 9 ?cs)"
    from False assms Completed have e: "new = [CheckFaces (Suc ?l)]" "ts_done st' = jset (ts_done st) ?l (drop 9 ?cs)"
      "ts_faces st' = jset (ts_faces st) (Suc ?l) (level_list (ts_faces st) (Suc ?l) @ [?f])" by (auto simp: complete_cube_def Let_def)
    have a: "face_atoms ?f + sum_list (map atoms (drop 9 ?cs)) = sum_list (map atoms (level_list (ts_done st) ?l)) + atoms t"
      unfolding face_atoms_def sum_list_sort sum_take_drop by simp
    have b: "level_sum face_atoms (ts_faces st') = level_sum face_atoms (ts_faces st) + face_atoms ?f"
      using level_sum_jset[of face_atoms "Suc ?l" "level_list (ts_faces st) (Suc ?l) @ [?f]" "ts_faces st"] unfolding e(3)
      by (simp add: ac_simps)
    have c: "level_sum atoms (ts_done st') + sum_list (map atoms (level_list (ts_done st) ?l)) = level_sum atoms (ts_done st) + sum_list (map atoms (drop 9 ?cs))"
      unfolding e(2) by (rule level_sum_jset)
    show ?thesis unfolding tower_atoms_def b using exchange[OF c a] Completed by (simp add: e(1))
  qed
next
  case (CheckFaces l)
  let ?fs = "level_list (ts_faces st) l"
  show ?thesis
  proof (cases "length ?fs < 3")
    case True
    then show ?thesis using assms CheckFaces by (auto simp: check_faces_def Let_def)
  next
    case False
    from False assms CheckFaces have e: "new = [Completed (form_cube H l (take 3 ?fs)), CheckFaces l]" "ts_done st' = ts_done st"
      "ts_faces st' = jset (ts_faces st) l (drop 3 ?fs)" by (auto simp: check_faces_def Let_def)
    have a: "level_sum face_atoms (ts_faces st') + sum_list (map face_atoms ?fs) = level_sum face_atoms (ts_faces st) + sum_list (map face_atoms (drop 3 ?fs))"
      unfolding e(3) by (rule level_sum_jset)
    have b: "sum_list (map face_atoms ?fs) = sum_list (map face_atoms (take 3 ?fs)) + sum_list (map face_atoms (drop 3 ?fs))"
      by (rule sum_take_drop[symmetric])
    have "level_sum face_atoms (ts_faces st') + sum_list (map face_atoms (take 3 ?fs)) = level_sum face_atoms (ts_faces st)"
      using a unfolding b by (simp add: add.assoc[symmetric])
    then show ?thesis using CheckFaces by (simp add: tower_atoms_def e atoms_form_cube ac_simps)
  qed
qed

lemma run_tower_atoms: "tower_atoms (run_tower H cs st) = tower_atoms st + sum_list (map call_atoms cs)"
proof (induction H cs st rule: run_tower.induct)
  case (2 H c cs st)
  obtain st' new where n: "tower_step H c st = (st', new)" by (cases "tower_step H c st") auto
  have "tower_atoms (run_tower H (new @ cs) st') = tower_atoms st' + sum_list (map call_atoms new) + sum_list (map call_atoms cs)"
    using 2(1)[OF n[symmetric]] by (simp add: ac_simps)
  also have "\<dots> = tower_atoms st + call_atoms c + sum_list (map call_atoms cs)" by (simp only: tower_step_atoms[OF n])
  finally show ?case using n by (simp add: ac_simps)
qed simp

section \<open>The ledger's tower\<close>

definition ledger_tower_ok :: "ledger \<Rightarrow> bool" where
  "ledger_tower_ok lg \<longleftrightarrow> tower_ok {} (tower_of lg)"

definition cubes_in_tower :: "ledger \<Rightarrow> lcube multiset" where
  "cubes_in_tower lg = tower_atoms (tower_of lg)"

lemma tower_of_check: "tower_of (checkRecursiveCubeFormation H c lg) = run_tower H [Completed (Atom c)] (tower_of lg)"
  by (simp add: checkRecursiveCubeFormation_def Let_def tower_of_def)

text \<open>C23: The recursive cube formation always comes to an end, and it ends settled: started on a tower
  whose levels are below their thresholds, one more finished cube leaves at every level fewer than nine
  cubes and fewer than three faces waiting, all of them of the right level, each waiting face of nine
  cubes, and each super-cube built of exactly three such faces.\<close>

theorem tower_settles:
  assumes "ledger_tower_ok lg"
  shows "ledger_tower_ok (checkRecursiveCubeFormation H c lg)
    \<and> length (level_list (lg_completed (checkRecursiveCubeFormation H c lg)) l) < 9
    \<and> length (level_list (lg_levelFaces (checkRecursiveCubeFormation H c lg)) l) < 3"
proof -
  have ok: "tower_ok {} (tower_of (checkRecursiveCubeFormation H c lg))"
    unfolding tower_of_check using assms
    by (intro run_tower_ok) (simp_all add: ledger_tower_ok_def busy_levels_def calls_ok_def)
  then show ?thesis by (simp add: ledger_tower_ok_def) (simp add: tower_ok_def tower_of_def)
qed

theorem tower_settles_witness:
  "length (level_list (lg_completed (checkRecursiveCubeFormation (\<lambda>s. s) (new_lcube 1) (new_ledger True (miner0 1)))) 1) < 9"
  using tower_settles[of "new_ledger True (miner0 1)" "\<lambda>s. s" "new_lcube 1" 1]
  by (simp add: ledger_tower_ok_def tower_ok_def tower_of_def new_ledger_def level_list_def cubes_at_def faces_at_def)

text \<open>C22: No finished cube is lost or counted twice by the recursion: the cubes at the bottom of
  everything that waits, at any level, as a cube or inside a face, are after the formation exactly those
  before and the new one.\<close>

theorem tower_conserves: "cubes_in_tower (checkRecursiveCubeFormation H c lg) = add_mset c (cubes_in_tower lg)"
  unfolding cubes_in_tower_def tower_of_check run_tower_atoms by simp

end
