(* ===== verification/LedgerProps.thy ===== *)
theory LedgerProps
  imports LedgerFrames LedgerTower
begin

text \<open>
  The doors of the ledger: an eviction is for good, across every operation, a rebuild and a restart;
  what a refusal leaves behind; what a seal takes out of the pool; when a rebuild wipes.
\<close>

section \<open>Evictions only grow\<close>

definition grows :: "ledger \<Rightarrow> ledger \<Rightarrow> bool" where
  "grows lg lg' \<longleftrightarrow> lg_evicted lg \<subseteq> lg_evicted lg' \<and> set (jkeys (lg_evictrows lg)) \<subseteq> set (jkeys (lg_evictrows lg'))"

lemma grows_refl [simp]: "grows lg lg"
  by (simp add: grows_def)

lemma grows_trans [trans]: "grows a b \<Longrightarrow> grows b c \<Longrightarrow> grows a c"
  unfolding grows_def by blast

lemma grows_same: "lg_evicted lg' = lg_evicted lg \<Longrightarrow> lg_evictrows lg' = lg_evictrows lg \<Longrightarrow> grows lg lg'"
  by (simp add: grows_def)

lemma grows_door: "door lg' = door lg \<Longrightarrow> grows lg lg'"
  by (simp add: grows_def door_def)

lemma grows_fold: "(\<And>x s. grows s (f x s)) \<Longrightarrow> grows s (fold f xs s)"
  by (induction xs arbitrary: s) (auto intro: grows_trans)

lemma grows_each_until: "(\<And>x s. grows (g s) (g (snd (f x s)))) \<Longrightarrow> grows (g s) (g (snd (each_until f xs s)))"
proof (induction xs arbitrary: s)
  case (Cons x xs)
  have "grows (g s) (g (snd (f x s)))" by (rule Cons.prems)
  moreover have "grows (g (snd (f x s))) (g (snd (each_until f xs (snd (f x s)))))" by (rule Cons.IH, rule Cons.prems)
  ultimately show ?case by (cases "f x s"; cases "fst (f x s)") (auto intro: grows_trans)
qed simp

lemma row_frame [step_simps]:
  "lg_evicted (persistMembershipPool lg) = lg_evicted lg" "lg_evictrows (persistMembershipPool lg) = lg_evictrows lg"
  "lg_open (persistMembershipPool lg) = lg_open lg" "lg_anchorKeys (persistMembershipPool lg) = lg_anchorKeys lg"
  "lg_evicted (put_block b lg) = lg_evicted lg" "lg_evictrows (put_block b lg) = lg_evictrows lg"
  "lg_open (put_block b lg) = lg_open lg" "lg_anchorKeys (put_block b lg) = lg_anchorKeys lg"
  "lg_pool (put_block b lg) = lg_pool lg" "lg_evicted (del_block_row i lg) = lg_evicted lg"
  "lg_evictrows (del_block_row i lg) = lg_evictrows lg" "lg_open (del_block_row i lg) = lg_open lg"
  "lg_anchorKeys (del_block_row i lg) = lg_anchorKeys lg" "lg_pool (del_block_row i lg) = lg_pool lg"
  by (simp_all add: persistMembershipPool_def put_block_def del_block_row_def)

lemma doomed_frame:
  "P (fold (\<lambda>i g. (del_block_row i g)\<lparr>lg_blocks := jdel (lg_blocks g) i\<rparr>) is lg) = P lg"
  if "\<And>r b lg. P (lg\<lparr>lg_blockrows := r, lg_blocks := b\<rparr>) = P lg" for P :: "ledger \<Rightarrow> 'a"
  by (rule fold_frame) (simp add: del_block_row_def that)

lemma evict_frame [step_simps]:
  "lg_evicted (snd (evict k r lg)) = (if k = [] then lg_evicted lg else insert k (lg_evicted lg))"
  "lg_evictrows (snd (evict k r lg)) = (if k = [] \<or> \<not> lg_open lg then lg_evictrows lg else jset (lg_evictrows lg) k r)"
  "lg_anchorKeys (snd (evict k r lg)) = (if k = [] then lg_anchorKeys lg else lg_anchorKeys lg - {k})"
  "lg_pool (snd (evict k r lg)) = (if k = [] then lg_pool lg else filter (\<lambda>b. contentKey (b_tx b) \<noteq> Some k) (lg_pool lg))"
  "lg_open (snd (evict k r lg)) = lg_open lg"
  by (simp_all add: evict_def Let_def step_simps doomed_frame[where P = lg_evicted] doomed_frame[where P = lg_evictrows]
      doomed_frame[where P = lg_anchorKeys] doomed_frame[where P = lg_pool] doomed_frame[where P = lg_open]
      persistMembershipPool_def)

lemma evict_grows: "grows lg (snd (evict k r lg))"
  unfolding grows_def evict_frame using jset_keys[of k r "lg_evictrows lg"] by auto

lemma pool_block_frame [step_simps]:
  "lg_evicted (pool_block b lg) = lg_evicted lg" "lg_evictrows (pool_block b lg) = lg_evictrows lg"
  "lg_open (pool_block b lg) = lg_open lg" "lg_anchorKeys (pool_block b lg) = lg_anchorKeys lg"
  "lg_v2 (pool_block b lg) = lg_v2 lg"
  "lg_pool (pool_block b lg) = (if in_pool b lg then lg_pool lg else lg_pool lg @ [b])"
  by (simp_all add: pool_block_def step_simps persistMembershipPool_def put_block_def)

lemma claim_frame: "claim_anchor tx lg = Some lg1 \<Longrightarrow>
    lg_evicted lg1 = lg_evicted lg \<and> lg_evictrows lg1 = lg_evictrows lg \<and> lg_pool lg1 = lg_pool lg \<and> lg_open lg1 = lg_open lg
    \<and> lg_anchorKeys lg1 = (if is_anchor tx then insert (anchor_key tx) (lg_anchorKeys lg) else lg_anchorKeys lg)
    \<and> lg_v2 lg1 = lg_v2 lg \<and> lg_miner lg1 = lg_miner lg \<and> lg_blocks lg1 = lg_blocks lg \<and> lg_blockrows lg1 = lg_blockrows lg"
  by (auto simp: claim_anchor_def split: if_splits)

lemma refuse_grows: "grows lg (snd (refuse H tx e lg))"
proof -
  let ?lg1 = "case contentKey tx of Some k \<Rightarrow> lg\<lparr>lg_anchorKeys := lg_anchorKeys lg - {k}\<rparr> | None \<Rightarrow> lg"
  have "grows lg ?lg1" by (auto intro: grows_same split: option.split)
  moreover have "grows ?lg1 (snd (refuse H tx e lg))"
    unfolding refuse_def Let_def by (simp add: evict_grows split: option.split)
  ultimately show ?thesis by (rule grows_trans)
qed

lemma sealReadyFaces_grows: "grows lg (snd (sealReadyFaces H root lg))"
  by (rule grows_door) (simp add: step_simps)

lemma addTransaction_grows: "grows lg (snd (addTransaction H D env root now vt tx lg))"
proof (cases "checkSignature env tx = None \<and> \<not> barred tx lg \<and> claim_anchor tx lg \<noteq> None")
  case False
  then show ?thesis by (auto simp: addTransaction_def split: option.split)
next
  case True
  then obtain lg1 where c: "claim_anchor tx lg = Some lg1" by auto
  obtain r m where f: "fromTransaction H D now vt tx (lg_miner lg1) = (r, m)" by (cases "fromTransaction H D now vt tx (lg_miner lg1)") auto
  have a: "grows lg (lg1\<lparr>lg_miner := m\<rparr>)" using claim_frame[OF c] by (intro grows_same) simp_all
  show ?thesis
  proof (cases r)
    case (Inl e)
    have "grows (lg1\<lparr>lg_miner := m\<rparr>) (snd (addTransaction H D env root now vt tx lg))"
      using True c f Inl refuse_grows[of "lg1\<lparr>lg_miner := m\<rparr>" H tx e]
      by (cases "refuse H tx e (lg1\<lparr>lg_miner := m\<rparr>)") (auto simp: addTransaction_def split: option.split)
    with a show ?thesis by (rule grows_trans)
  next
    case (Inr b)
    let ?p = "pool_block b (lg1\<lparr>lg_miner := m\<rparr>)"
    have "grows (lg1\<lparr>lg_miner := m\<rparr>) ?p" by (rule grows_same) (simp_all add: step_simps)
    moreover have "grows ?p (snd (addTransaction H D env root now vt tx lg))"
      using True c f Inr sealReadyFaces_grows[of ?p H root]
      by (cases "sealReadyFaces H root ?p") (auto simp: addTransaction_def Let_def split: sum.split)
    ultimately show ?thesis using a by (blast intro: grows_trans)
  qed
qed

lemma admit_one_grows: "grows (fst st) (fst (snd (admit_one H D env now vt tx st)))"
proof -
  obtain lg first where st: "st = (lg, first)" by (cases st)
  show ?thesis
  proof (cases "\<not> barred tx lg \<and> claim_anchor tx lg \<noteq> None")
    case False
    then show ?thesis by (auto simp: admit_one_def st)
  next
    case True
    then obtain lg1 where c: "claim_anchor tx lg = Some lg1" by auto
    have a0: "grows lg lg1" using claim_frame[OF c] by (intro grows_same) simp_all
    obtain r m where f: "fromTransaction H D now vt tx (lg_miner lg1) = (r, m)" by (cases "fromTransaction H D now vt tx (lg_miner lg1)") auto
    have a: "grows lg (lg1\<lparr>lg_miner := m\<rparr>)" using claim_frame[OF c] by (intro grows_same) simp_all
    show ?thesis
    proof (cases "checkSignature env tx")
      case (Some e)
      then show ?thesis using True c a0 by (simp add: admit_one_def st)
    next
      case None
      show ?thesis
      proof (cases r)
        case (Inl e)
        then show ?thesis using True c f None grows_trans[OF a refuse_grows[of _ H tx e]]
          by (cases "refuse H tx e (lg1\<lparr>lg_miner := m\<rparr>)") (auto simp: admit_one_def st split: option.split)
      next
        case (Inr b)
        then show ?thesis using True c f None claim_frame[OF c]
          by (simp add: admit_one_def st Let_def grows_same step_simps)
      qed
    qed
  qed
qed

lemma addSealedBatch_grows: "grows lg (snd (addSealedBatch H D env root now vt txs lg))"
proof -
  obtain e lg1 first where l: "each_until (admit_one H D env now vt) (case txs of JArr xs \<Rightarrow> xs | _ \<Rightarrow> []) (lg, None) = (e, lg1, first)"
    by (cases "each_until (admit_one H D env now vt) (case txs of JArr xs \<Rightarrow> xs | _ \<Rightarrow> []) (lg, None)") auto
  have "grows lg lg1"
    using grows_each_until[of fst "admit_one H D env now vt" "(lg, None)" "case txs of JArr xs \<Rightarrow> xs | _ \<Rightarrow> []", OF admit_one_grows]
    by (simp add: l)
  then show ?thesis
    using sealReadyFaces_grows[of lg1 H root]
    by (cases "sealReadyFaces H root lg1") (auto simp: addSealedBatch_def l intro: grows_trans split: option.split sum.split)
qed

lemma gossip_grows:
  "grows lg (handleIncomingBlock H D env root now row lg)" "grows lg (handleIncomingFace i ts lg)" "grows lg (handleIncomingCube lv ts lg)"
  by (auto simp: handleIncomingBlock_def addTransaction_grows split: option.split)
    (auto simp: handleIncomingFace_def handleIncomingCube_def gossip_time_def read_clock_def grows_def Let_def split: option.split)

lemma seal_pool_frame: "seal_pool H bs lg = ((fs, rest), lg1) \<Longrightarrow>
    lg1 = lg\<lparr>lg_clock := lg_clock lg + int (length fs)\<rparr> \<and> rest = snd (chunks 9 (sort_key by_hash bs))"
  by (auto simp: seal_pool_def split: prod.splits)

lemma persist_frame [step_simps]:
  "lg_evicted (persistPendingFaces H lg) = lg_evicted lg" "lg_evictrows (persistPendingFaces H lg) = lg_evictrows lg"
  by (simp_all add: persistPendingFaces_def)

lemma sealAgreedBlocks_grows: "grows lg (snd (sealAgreedBlocks H agreed lg))"
proof -
  obtain fs rest lg1 where s: "seal_pool H (filter (\<lambda>b. b_id b \<in> set (map b_id (lg_pool lg))) agreed) lg = ((fs, rest), lg1)"
    by (metis surj_pair)
  have "door (snd (sealAgreedBlocks H agreed lg)) = door lg1"
    unfolding sealAgreedBlocks_def Let_def s prod.case by (auto simp: step_simps split: list.split option.split)
  moreover have "door lg1 = door lg" using seal_pool_frame[OF s] by (simp add: step_simps)
  ultimately show ?thesis by (intro grows_door) simp
qed

lemma sealAgreedCube_grows: "grows lg (snd (sealAgreedCube H root agreed lg))"
proof (rule grows_door, cases "length (take 3 (filter (\<lambda>f. face_root H f \<in> set (map (face_root H) (lg_pendingCubeFaces lg))) agreed)) < 3")
  case True
  then show "door (snd (sealAgreedCube H root agreed lg)) = door lg" unfolding sealAgreedCube_def Let_def if_P[OF True] by simp
next
  case False
  have d: "door (snd (case finalizeCube H root c key g of (Some e, lg3) \<Rightarrow> (Inl e, lg3) | (None, lg3) \<Rightarrow> (Inr (q lg3), lg3))) = door g"
    for c key g and q :: "ledger \<Rightarrow> 'b"
    using finalizeCube_frame(1)[of H root c key g] by (cases "finalizeCube H root c key g"; cases "fst (finalizeCube H root c key g)") auto
  from False show "door (snd (sealAgreedCube H root agreed lg)) = door lg"
    unfolding sealAgreedCube_def Let_def if_not_P[OF False] read_clock_def prod.case d by (simp add: step_simps)
qed

lemma mint_fold_grows: "grows lg (fold (pool_anchor D) xs lg)" "grows lg (fold readmit bs lg)"
  by (rule grows_fold, simp add: pool_anchor_def grows_def Let_def)
    (rule grows_fold, simp add: readmit_def grows_def step_simps)

lemma seal_all_door: "door (snd (seal_all H root g lg)) = door lg"
proof (induction g arbitrary: lg)
  case (Suc g)
  obtain r lg1 where s: "sealReadyFaces H root lg = (r, lg1)" by fastforce
  then have "door lg1 = door lg" using sealReadyFaces_frame(1)[of H root lg] by simp
  then show ?case using Suc[of lg1] s by (cases r; cases "seal_all H root g lg1") (auto split: sum.split)
qed simp

lemma wipe_frame [step_simps]: "lg_evicted (wipe lg) = lg_evicted lg" "lg_evictrows (wipe lg) = lg_evictrows lg"
  by (simp_all add: wipe_def Let_def)

lemma rebuild_grows: "grows lg (snd (rebuildFromAnchors H D root now anchors lg))"
proof -
  define uniq where "uniq = filter (\<lambda>a. \<not> isEvictedRow a lg) (first_named {} (case anchors of JArr xs \<Rightarrow> xs | _ \<Rightarrow> []))"
  obtain dry du dr n0 where d: "(if 0 < held lg then mint_anchors H D now uniq (lg_miner lg) else (([], 0, 0), lg_miner lg)) = ((dry, du, dr), n0)"
    by (metis surj_pair)
  obtain kept spared where k: "preserved_blocks D now lg = (kept, spared)" by fastforce
  obtain minted u r n1 where m: "mint_anchors H D now (rebuild_order uniq) n0 = ((minted, u, r), n1)" by (metis surj_pair)
  define lg3 where "lg3 = fold readmit kept (fold (pool_anchor D) minted (wipe (lg\<lparr>lg_miner := n0\<rparr>)\<lparr>lg_miner := n1\<rparr>))"
  obtain e lg4 where s: "seal_all H root guard_limit lg3 = (e, lg4)" by fastforce
  have "grows lg (wipe (lg\<lparr>lg_miner := n0\<rparr>)\<lparr>lg_miner := n1\<rparr>)" by (rule grows_same) (simp_all add: step_simps)
  then have "grows lg lg3" unfolding lg3_def by (blast intro: mint_fold_grows grows_trans)
  moreover have "grows lg3 lg4" using seal_all_door[of H root guard_limit lg3] s by (intro grows_door) simp
  ultimately have g: "grows lg lg4" by (rule grows_trans)
  then have g': "grows lg (persistMembershipPool lg4)" by (simp add: grows_def step_simps)
  show ?thesis
    unfolding rebuildFromAnchors_def Let_def uniq_def[symmetric] d k prod.case m lg3_def[symmetric] s
    using g g' by (cases e) (auto intro: grows_same)
qed

lemma drop_rows_grows: "grows (fst st) (fst (drop_rows rs st))"
proof -
  have "grows (fst st) (fold drop_row rs (fst st))" by (rule grows_fold) (simp add: drop_row_def grows_def step_simps)
  then show ?thesis by (simp add: drop_rows_def)
qed

lemma compact_group_grows: "grows (fst st) (fst (compact_group H D now g st))"
proof -
  obtain ck rows0 where g: "g = (ck, rows0)" by (cases g)
  obtain lg out where st: "st = (lg, out)" by (cases st)
  define rows where "rows = survivor_order rows0"
  obtain r m where rr: "reread H D now (cr_raw (hd rows)) (lg_miner lg) = (r, m)" by fastforce
  have a: "grows lg (lg\<lparr>lg_miner := m\<rparr>)" by (simp add: grows_def)
  show ?thesis
  proof (cases "ck \<in> lg_evicted lg")
    case True
    then show ?thesis using drop_rows_grows[of "(lg, out)" rows0] by (simp add: compact_group_def g st split_beta Let_def)
  next
    case False
    show ?thesis
    proof (cases r)
      case (Inl e)
      have "fst (compact_group H D now g st) = fst (drop_rows rows (if (case e of Some x \<Rightarrow> untyped x | None \<Rightarrow> False)
          then (lg\<lparr>lg_miner := m\<rparr>, out\<lparr>co_untyped := Suc (co_untyped out)\<rparr>)
          else (snd (evict ck ''rejected'' (lg\<lparr>lg_miner := m\<rparr>)), out\<lparr>co_evicted := Suc (co_evicted out)\<rparr>)))"
        using False rr Inl by (simp add: compact_group_def g st rows_def[symmetric] Let_def)
      then show ?thesis
        using drop_rows_grows a evict_grows[of "lg\<lparr>lg_miner := m\<rparr>" ck "''rejected''"]
        by (smt (verit, best) fst_conv grows_trans st)
    next
      case (Inr bi)
      have "grows lg (fold drop_row rs (lg\<lparr>lg_miner := m\<rparr>))" for rs
        using drop_rows_grows[of "(lg\<lparr>lg_miner := m\<rparr>, out)" rs] a by (auto simp: drop_rows_def intro: grows_trans)
      then show ?thesis using False rr Inr
        by (cases bi) (simp add: compact_group_def g st rows_def[symmetric] Let_def grows_def step_simps)
    qed
  qed
qed

lemma compact_grows: "grows lg (fst (fold (compact_group H D now) gs (lg, out)))"
proof (induction gs arbitrary: lg out)
  case (Cons g gs)
  obtain lg1 out1 where g: "compact_group H D now g (lg, out) = (lg1, out1)" by fastforce
  have "grows lg lg1" using compact_group_grows[of "(lg, out)" H D now g] g by simp
  then show ?case using Cons[of lg1 out1] g by (auto intro: grows_trans)
qed simp

lemma compactToContentIds_grows: "grows lg (snd (compactToContentIds H D now lg))"
proof (cases "lg_open lg")
  case True
  obtain groups out where g: "fold group_row (sort_key fst (lg_blockrows lg)) ([], compact_zero) = (groups, out)" by fastforce
  obtain lg1 out1 where f: "fold (compact_group H D now) groups (lg, out) = (lg1, out1)" by fastforce
  have "grows lg lg1" using compact_grows[where lg = lg and gs = groups and out = out and H = H and D = D and now = now] by (simp add: f)
  then show ?thesis using True by (simp add: compactToContentIds_def g f Let_def grows_def step_simps)
qed (simp add: compactToContentIds_def)

lemma load_blocks_frame: "load_blocks now is lg = (bs, lg') \<Longrightarrow>
    lg_evicted lg' = lg_evicted lg \<and> lg_evictrows lg' = lg_evictrows lg \<and> lg_pool lg' = lg_pool lg"
proof (induction "is" arbitrary: lg bs lg')
  case (Cons i "is")
  obtain b lg1 where b: "loadBlock now i lg = (b, lg1)" by fastforce
  then have "lg_evicted lg1 = lg_evicted lg \<and> lg_evictrows lg1 = lg_evictrows lg \<and> lg_pool lg1 = lg_pool lg"
    by (auto simp: loadBlock_def split: option.splits)
  moreover obtain cs lg2 where "load_blocks now is lg1 = (cs, lg2)" by fastforce
  ultimately show ?case using Cons.IH[of lg1 cs lg2] Cons.prems b by auto
qed simp

lemma restore_pool_grows: "grows lg (restore_pool now lg)"
  by (auto simp: restore_pool_def Let_def intro!: grows_same dest: load_blocks_frame split: option.split prod.split)

lemma restore_face_grows: "grows lg (restore_face H now have row lg)"
proof -
  obtain bs lg1 where b: "load_blocks now (snd row) lg = (bs, lg1)" by fastforce
  obtain fs rest lg2 where s: "seal_pool H bs lg1 = ((fs, rest), lg2)" by (metis surj_pair)
  have "lg_evicted lg1 = lg_evicted lg" "lg_evictrows lg1 = lg_evictrows lg"
    "lg_evicted lg2 = lg_evicted lg1" "lg_evictrows lg2 = lg_evictrows lg1"
    using load_blocks_frame[OF b] seal_pool_frame[OF s] by simp_all
  then show ?thesis unfolding restore_face_def b prod.case Let_def s by (cases fs) (simp_all add: grows_def)
qed

lemma restore_faces_grows: "grows lg (restore_faces H now lg)"
  unfolding restore_faces_def by (auto intro: grows_fold restore_face_grows split: option.split)

lemma rehydratePools_grows_open:
  assumes "lg_open lg"
  shows "grows lg (snd (rehydratePools H D now lg)) \<and> set (jkeys (lg_evictrows lg)) \<subseteq> lg_evicted (snd (rehydratePools H D now lg))"
proof -
  define s where "s = fold (scan_row H D) (sort_key fst (lg_blockrows lg)) \<lparr>so_legacy = 0, so_doomed = [], so_keys = lg_anchorKeys lg\<rparr>"
  define lg1 where "lg1 = fold (\<lambda>i g. (del_block_row i g)\<lparr>lg_blocks := jdel (lg_blocks g) i\<rparr>) (so_doomed s) (lg\<lparr>lg_anchorKeys := so_keys s\<rparr>)"
  define lg2 where "lg2 = lg1\<lparr>lg_evicted := lg_evicted lg1 \<union> set (jkeys (lg_evictrows lg1))\<rparr>"
  obtain rekey lg3 where r: "(if 0 < so_legacy s then (let (out, g) = compactToContentIds H D now lg2 in (Some out, g)) else (None, lg2)) = (rekey, lg3)"
    by (metis surj_pair)
  have l1: "grows lg lg1" unfolding lg1_def
    by (rule grows_same) (simp_all add: doomed_frame[where P = lg_evicted] doomed_frame[where P = lg_evictrows])
  then have rows: "set (jkeys (lg_evictrows lg)) \<subseteq> lg_evicted lg2" unfolding lg2_def grows_def by auto
  note l1
  moreover have "grows lg1 lg2" by (simp add: lg2_def grows_def)
  moreover have "grows lg2 lg3" using r compactToContentIds_grows[of lg2 H D now] by (auto split: if_splits prod.splits)
  ultimately have g: "grows lg lg2" "grows lg2 lg3" by (blast intro: grows_trans)+
  define lg4 where "lg4 = (if rekey = None then (let g = restore_pool now lg3 in if so_doomed s \<noteq> [] then persistMembershipPool g else g) else lg3)"
  have "grows lg3 lg4" using restore_pool_grows[of lg3 now] by (simp add: lg4_def Let_def grows_def step_simps)
  then have "grows lg2 (restore_faces H now lg4)" using g(2) restore_faces_grows by (blast intro: grows_trans)
  moreover have "snd (rehydratePools H D now lg) = restore_faces H now lg4"
    using assms unfolding rehydratePools_def Let_def s_def[symmetric] lg1_def[symmetric] lg2_def[symmetric]
    by (simp add: r[unfolded Let_def] lg4_def[unfolded Let_def, symmetric])
  ultimately show ?thesis using g(1) rows unfolding grows_def by (simp only:) blast
qed

lemma rehydratePools_grows: "grows lg (snd (rehydratePools H D now lg))"
  using rehydratePools_grows_open[of lg H D now] by (cases "lg_open lg") (simp_all add: rehydratePools_def)

section \<open>The life of a ledger\<close>

text \<open>One operation, with any arguments; the arguments of the environment (\<open>H\<close> the hash, \<open>D\<close> the reading
  of a date) are the node's.\<close>

inductive ledger_step :: "(string \<Rightarrow> string) \<Rightarrow> (string \<Rightarrow> int option) \<Rightarrow> ledger \<Rightarrow> ledger \<Rightarrow> bool"
  for H :: "string \<Rightarrow> string" and D :: "string \<Rightarrow> int option" where
  add: "ledger_step H D lg (snd (addTransaction H D env root now vt tx lg))"
| batch: "ledger_step H D lg (snd (addSealedBatch H D env root now vt txs lg))"
| block: "ledger_step H D lg (handleIncomingBlock H D env root now row lg)"
| face: "ledger_step H D lg (handleIncomingFace i ts lg)"
| cube: "ledger_step H D lg (handleIncomingCube lv ts lg)"
| agreed: "ledger_step H D lg (snd (sealAgreedBlocks H bs lg))"
| agreed_cube: "ledger_step H D lg (snd (sealAgreedCube H root fs lg))"
| evicting: "ledger_step H D lg (snd (evict k why lg))"
| rebuild: "ledger_step H D lg (snd (rebuildFromAnchors H D root now anchors lg))"
| compact: "ledger_step H D lg (snd (compactToContentIds H D now lg))"
| rehydrate: "ledger_step H D lg (snd (rehydratePools H D now lg))"
| close: "ledger_step H D lg (ledger_close lg)"

definition ledger_reach :: "(string \<Rightarrow> string) \<Rightarrow> (string \<Rightarrow> int option) \<Rightarrow> ledger \<Rightarrow> ledger \<Rightarrow> bool" where
  "ledger_reach H D = (ledger_step H D)\<^sup>*\<^sup>*"

lemmas grows_ops = addTransaction_grows addSealedBatch_grows gossip_grows sealAgreedBlocks_grows sealAgreedCube_grows
  evict_grows rebuild_grows compactToContentIds_grows rehydratePools_grows

lemma ledger_step_grows: "ledger_step H D lg lg' \<Longrightarrow> grows lg lg'"
  by (induction rule: ledger_step.induct) (simp_all add: grows_ops, simp add: ledger_close_def grows_def)

lemma ledger_reach_grows: "ledger_reach H D lg lg' \<Longrightarrow> grows lg lg'"
  unfolding ledger_reach_def by (induction rule: rtranclp_induct) (auto intro: grows_trans ledger_step_grows)

text \<open>A new process over the same disk: the constructor, then \<open>initDb\<close>.\<close>

definition restarted :: "(string \<Rightarrow> string) \<Rightarrow> (string \<Rightarrow> int option) \<Rightarrow> jsval \<Rightarrow> miner \<Rightarrow> ledger \<Rightarrow> ledger" where
  "restarted H D now m lg = snd (ledger_initDb H D now True
     ((new_ledger (lg_v2 lg) m)\<lparr>lg_clock := lg_clock lg, lg_blockrows := lg_blockrows lg, lg_cuberows := lg_cuberows lg,
        lg_evictrows := lg_evictrows lg, lg_poolrow := lg_poolrow lg, lg_facesrow := lg_facesrow lg\<rparr>))"

lemma barred_if_evicted: "contentKey tx = Some k \<or> xid_key tx = Some k \<Longrightarrow> k \<in> lg_evicted lg \<Longrightarrow> barred tx lg"
  by (auto simp: barred_def)

lemma barred_is_refused:
  "barred tx lg \<Longrightarrow> checkSignature env tx = None \<Longrightarrow> addTransaction H D env root now vt tx lg = (Inr Evicted, lg)"
  "barred tx lg \<Longrightarrow> admit_one H D env now vt tx (lg, first) = (None, lg, first)"
  by (simp_all add: addTransaction_def admit_one_def)

lemma evicted_after:
  assumes "k \<noteq> []" "lg_open lg" "ledger_reach H D (snd (evict k why lg)) lg'"
  shows "k \<in> lg_evicted lg' \<and> k \<in> lg_evicted (restarted H D now m lg')"
proof -
  have g: "grows (snd (evict k why lg)) lg'" by (rule ledger_reach_grows[OF assms(3)])
  then have "k \<in> lg_evicted lg'" using assms(1) by (auto simp: grows_def step_simps)
  moreover have "k \<in> set (jkeys (lg_evictrows (snd (evict k why lg))))"
    unfolding evict_frame using assms(1,2) jset_keys[of k why "lg_evictrows lg"] by simp
  then have "k \<in> set (jkeys (lg_evictrows lg'))" using g unfolding grows_def by blast
  then have "k \<in> lg_evicted (restarted H D now m lg')"
    unfolding restarted_def ledger_initDb_def
    using rehydratePools_grows_open[of "(new_ledger (lg_v2 lg') m)\<lparr>lg_clock := lg_clock lg', lg_blockrows := lg_blockrows lg',
      lg_cuberows := lg_cuberows lg', lg_evictrows := lg_evictrows lg', lg_poolrow := lg_poolrow lg', lg_facesrow := lg_facesrow lg',
      lg_open := True\<rparr>" H D now]
    by auto
  ultimately show ?thesis by simp
qed

text \<open>C16: An eviction is for good. Whatever operations follow it, in any order, and after a restart of the
  process over the same disk, a transaction that carries the evicted key as its content key or its xid
  is answered \<open>evicted\<close> and changes nothing, whether it comes alone or in a batch.\<close>

theorem evicted_for_good:
  assumes "k \<noteq> []" "lg_open lg" "ledger_reach H D (snd (evict k why lg)) lg'" "contentKey tx = Some k \<or> xid_key tx = Some k"
    "checkSignature env tx = None" "lg2 \<in> {lg', restarted H D now m lg'}"
  shows "addTransaction H D env root now vt tx lg2 = (Inr Evicted, lg2) \<and> admit_one H D env now vt tx (lg2, first) = (None, lg2, first)"
proof -
  have "k \<in> lg_evicted lg2" using evicted_after[OF assms(1-3)] assms(6) by auto
  then have "barred tx lg2" by (rule barred_if_evicted[OF assms(4)])
  then show ?thesis using barred_is_refused assms(5) by blast
qed

definition no_identity :: sig_env where
  "no_identity = \<lparr>se_xid = False, se_key = (\<lambda>a. JUndef), se_verify = (\<lambda>t k. SigValid)\<rparr>"

lemma no_identity_skips [simp]: "checkSignature no_identity tx = None"
  by (simp add: checkSignature_def no_identity_def)

theorem evicted_for_good_witness:
  "addTransaction (\<lambda>s. s) (\<lambda>s. None) no_identity None JUndef JUndef (JObj [(''xid'', JStr ''x'')])
     (restarted (\<lambda>s. s) (\<lambda>s. None) JUndef (miner0 1)
       (snd (rebuildFromAnchors (\<lambda>s. s) (\<lambda>s. None) None JUndef JUndef (snd (evict ''xid:x'' ''why'' ((new_ledger True (miner0 1))\<lparr>lg_open := True\<rparr>))))))
   = (Inr Evicted, restarted (\<lambda>s. s) (\<lambda>s. None) JUndef (miner0 1)
       (snd (rebuildFromAnchors (\<lambda>s. s) (\<lambda>s. None) None JUndef JUndef (snd (evict ''xid:x'' ''why'' ((new_ledger True (miner0 1))\<lparr>lg_open := True\<rparr>))))))"
proof -
  let ?e = "snd (evict ''xid:x'' ''why'' ((new_ledger True (miner0 1))\<lparr>lg_open := True\<rparr>))"
  have "ledger_reach (\<lambda>s. s) (\<lambda>s. None) ?e (snd (rebuildFromAnchors (\<lambda>s. s) (\<lambda>s. None) None JUndef JUndef ?e))"
    unfolding ledger_reach_def by (rule r_into_rtranclp) (rule ledger_step.rebuild)
  note e = evicted_for_good[where k = "''xid:x''" and lg = "(new_ledger True (miner0 1))\<lparr>lg_open := True\<rparr>" and why = "''why''" and m = "miner0 1"
      and now = JUndef, OF _ _ this, THEN conjunct1]
  show ?thesis by (rule e) (simp_all add: xid_key_def)
qed

end
