(* ===== verification/LedgerDoors.thy ===== *)
theory LedgerDoors
  imports LedgerProps
begin

text \<open>
  Refusals, agreed seals and rebuilds of \<open>ledger.js\<close>: what a malformed or forged transaction leaves at
  the doors, what an agreed seal takes from the pool, and what a rebuild keeps; the guard of a rebuild counts
  memory only, and a node that restarted with sealed rows is not protected by it.
\<close>

section \<open>Refusals\<close>

lemma refuse_keeps:
  "lg_pool (snd (refuse H tx e lg)) = filter (\<lambda>b. b \<in> set (lg_pool (snd (refuse H tx e lg)))) (lg_pool lg)"
  "lg_anchorKeys (snd (refuse H tx e lg)) \<subseteq> lg_anchorKeys lg"
  "is_anchor tx \<Longrightarrow> anchor_key tx \<notin> lg_anchorKeys (snd (refuse H tx e lg))"
proof -
  have f: "filter P xs = filter (\<lambda>b. b \<in> set (filter P xs)) xs" for P :: "block \<Rightarrow> bool" and xs
    by (rule filter_cong) auto
  have t: "xs = filter (\<lambda>b. b \<in> set xs) xs" for xs :: "block list" by (simp add: filter_id_conv)
  show "lg_pool (snd (refuse H tx e lg)) = filter (\<lambda>b. b \<in> set (lg_pool (snd (refuse H tx e lg)))) (lg_pool lg)"
    by (auto simp: refuse_def Let_def step_simps t[symmetric] simp del: set_filter filter_set intro: f split: option.split)
  show "lg_anchorKeys (snd (refuse H tx e lg)) \<subseteq> lg_anchorKeys lg"
    by (auto simp: refuse_def Let_def step_simps split: option.split)
  show "anchor_key tx \<notin> lg_anchorKeys (snd (refuse H tx e lg))" if "is_anchor tx"
  proof -
    have "contentKey tx = Some (anchor_key tx)" using that by (simp add: is_anchor_def named_def contentKey_def anchor_key_def)
    then show ?thesis by (auto simp: refuse_def Let_def step_simps split: option.split)
  qed
qed

text \<open>Sealing fails with a time or a placement, never with a refusal.\<close>

definition seal_error :: "ledger_error option \<Rightarrow> bool" where
  "seal_error e \<longleftrightarrow> e = None \<or> e = Some BadTime \<or> (\<exists>r. e = Some (PlacementRefused r))"

lemma seal_errors:
  "seal_error (fst (finalizeCube H root c key lg))" "seal_error (fst (finalizeFace H root f lg))"
  "seal_error (fst (seal_face H root f lg))"
proof -
  show c: "seal_error (fst (finalizeCube H root c key lg))" for c key lg
    by (simp add: finalizeCube_def Let_def seal_error_def split: option.split)
  show fa: "seal_error (fst (finalizeFace H root f lg))" for f lg
    using c by (auto simp: finalizeFace_def Let_def seal_error_def split: option.split prod.split)
  show "seal_error (fst (seal_face H root f lg))"
    using fa[of "locate_blocks f" "put_face_blocks (locate_blocks f) lg"]
    by (auto simp: seal_face_def assertPlacement_def seal_error_def Let_def split: option.split prod.split sum.splits)
qed

lemma each_until_error: "(\<And>x s. P (fst (f x s))) \<Longrightarrow> P None \<Longrightarrow> P (fst (each_until f xs s))"
proof (induction xs arbitrary: s)
  case (Cons x xs)
  then show ?case using Cons.prems(1)[of x s] by (cases "f x s"; cases "fst (f x s)") auto
qed simp

lemma sealReadyFaces_error: "sealReadyFaces H root lg = (Inl e, lg') \<Longrightarrow> seal_error (Some e)"
proof -
  assume s: "sealReadyFaces H root lg = (Inl e, lg')"
  obtain fs rest lg1 where p: "seal_pool H (lg_pool lg) lg = ((fs, rest), lg1)" by (metis surj_pair)
  have "seal_error (fst (each_until (seal_face H root) fs (lg1\<lparr>lg_pool := rest\<rparr>)))"
    by (rule each_until_error[where P = seal_error], rule seal_errors, simp add: seal_error_def)
  then show ?thesis using s by (auto simp: sealReadyFaces_def p split: prod.splits option.splits)
qed

text \<open>A refused transaction gives back what it claimed: when \<open>addTransaction\<close> ends in a refusal, no
  anchor key is held that was not held before, the key the transaction itself claimed is free again, and
  the pool has gained nothing.\<close>

lemma refusal_gives_the_claim_back:
  assumes "addTransaction H D env root now vt tx lg = (Inl (Refused e), lg')"
  shows "lg_anchorKeys lg' \<subseteq> lg_anchorKeys lg \<and> (is_anchor tx \<longrightarrow> anchor_key tx \<notin> lg_anchorKeys lg')
    \<and> set (lg_pool lg') \<subseteq> set (lg_pool lg)"
proof -
  have sig: "checkSignature env tx = None" and nb: "\<not> barred tx lg" and cl: "claim_anchor tx lg \<noteq> None"
    using assms by (auto simp: addTransaction_def checkSignature_def split: option.splits if_splits sig_verdict.splits)
  obtain lg1 where c: "claim_anchor tx lg = Some lg1" using cl by auto
  obtain r m where f: "fromTransaction H D now vt tx (lg_miner lg1) = (r, m)" by fastforce
  show ?thesis
  proof (cases r)
    case (Inr b)
    then show ?thesis using assms sig nb c f sealReadyFaces_error[of H root "pool_block b (lg1\<lparr>lg_miner := m\<rparr>)"]
      by (auto simp: addTransaction_def Let_def seal_error_def split: if_splits prod.splits sum.splits)
  next
    case (Inl e')
    let ?l = "lg1\<lparr>lg_miner := m\<rparr>"
    have lg': "lg' = snd (refuse H tx e' ?l)"
      using assms sig nb c f Inl by (auto simp: addTransaction_def split: prod.splits option.splits)
    have cf: "lg_anchorKeys ?l = (if is_anchor tx then insert (anchor_key tx) (lg_anchorKeys lg) else lg_anchorKeys lg)" "lg_pool ?l = lg_pool lg"
      using claim_frame[OF c] by simp_all
    have "set (lg_pool lg') \<subseteq> set (lg_pool lg)" using arg_cong[OF refuse_keeps(1)[of H tx e' ?l], of set] cf(2) by (auto simp: lg')
    then show ?thesis using refuse_keeps(2)[of H tx e' ?l] refuse_keeps(3)[of tx H e' ?l] cf(1) by (auto simp: lg' split: if_splits)
  qed
qed

text \<open>C24: A malformed copy bars the genuine transaction. A transaction that claims somebody else's xid and is
  refused for its shape (a missing field, an unknown type), before the xid is looked at, is evicted under
  that claimed xid: the genuine transaction is from then on answered \<open>evicted\<close>, and pool blocks of it
  are dropped. The eviction key of an unproven xid is guarded for the xid stage only.\<close>

theorem malformed_copy_bars_the_genuine:
  assumes "checkSignature env tx = None" "\<not> barred tx lg" "\<not> is_anchor tx" "contentKey tx = Some k"
    "fromTransaction H D now vt tx (lg_miner lg) = (Inl e, m)" "\<not> untyped e" "\<not> xid_mismatch e" "k \<noteq> []"
    "contentKey genuine = Some k" "checkSignature env genuine = None"
  shows "let lg' = snd (addTransaction H D env root now vt tx lg) in
    addTransaction H D env root now vt genuine lg' = (Inr Evicted, lg') \<and> (\<forall>b \<in> set (lg_pool lg'). contentKey (b_tx b) \<noteq> Some k)"
proof -
  have lg': "snd (addTransaction H D env root now vt tx lg)
      = snd (evict k ''refused'' (lg\<lparr>lg_miner := m, lg_anchorKeys := lg_anchorKeys lg - {k}\<rparr>))"
    using assms by (simp add: addTransaction_def claim_anchor_def refuse_def)
  have "k \<in> lg_evicted (snd (addTransaction H D env root now vt tx lg))" using assms(8) by (simp add: lg' step_simps)
  then have "barred genuine (snd (addTransaction H D env root now vt tx lg))" by (rule barred_if_evicted[rotated]) (simp add: assms(9))
  then show ?thesis using barred_is_refused(1)[OF _ assms(10)] assms(8) by (simp add: Let_def lg' step_simps)
qed

definition xid2 :: string where "xid2 = ''02'' @ replicate 62 CHR ''0''"

lemma xid2_re: "xid_re xid2"
  unfolding xid2_def by code_simp

definition malformed :: jsval where
  "malformed = JObj [(''type'', JStr ''utxo''), (''xid'', JStr xid2)]"

definition genuine_tx :: jsval where
  "genuine_tx = JObj [(''type'', JStr ''utxo''), (''from'', JStr ''a''), (''to'', JStr ''b''), (''amount'', JInt 1), (''xid'', JStr xid2)]"

theorem malformed_copy_bars_the_genuine_witness:
  "fst (addTransaction (\<lambda>s. s) (\<lambda>s. None) no_identity None JUndef JUndef genuine_tx
     (snd (addTransaction (\<lambda>s. s) (\<lambda>s. None) no_identity None JUndef JUndef malformed (new_ledger True (miner0 1))))) = Inr Evicted"
proof -
  have f: "fromTransaction (\<lambda>s. s) (\<lambda>s. None) JUndef JUndef malformed (miner0 1) = (Inl (MissingField ''from''), miner0 1)"
    by (simp add: malformed_def fromTransaction_def validateTransaction_def validateShape_def token_type_of_def token_types_def jhas_def)
  have k: "contentKey malformed = Some (''xid:'' @ xid2)" "contentKey genuine_tx = Some (''xid:'' @ xid2)"
    by (simp_all add: malformed_def genuine_tx_def contentKey_def xid2_re)
  have n: "\<not> is_anchor malformed" "\<not> barred malformed (new_ledger True (miner0 1))" "lg_miner (new_ledger True (miner0 1)) = miner0 1"
    by (simp_all add: malformed_def is_anchor_def barred_def new_ledger_def xid_key_def contentKey_def xid2_re)
  note t = malformed_copy_bars_the_genuine[where H = "\<lambda>s. s" and D = "\<lambda>s. None" and root = None and vt = JUndef and now = JUndef
      and e = "MissingField ''from''" and m = "miner0 1" and tx = malformed and genuine = genuine_tx and lg = "new_ledger True (miner0 1)"
      and env = no_identity, OF no_identity_skips n(2,1) k(1) _ _ _ _ k(2) no_identity_skips, unfolded n(3), OF f]
  show ?thesis using t by (simp add: Let_def untyped_def xid_mismatch_def)
qed

text \<open>C25: A forged signature stops a batch and keeps its claim. \<open>addSealedBatch\<close> claims the anchor's content
  key before it looks at the signature, and a failed check leaves the loop: what stands behind it in the
  list is not looked at, and the key stays claimed, so that the genuine anchor is answered \<open>duplicate\<close>
  from then on.\<close>

theorem forged_signature_stops_a_batch:
  assumes "is_anchor tx" "anchor_key tx \<notin> lg_anchorKeys lg" "\<not> barred tx lg" "checkSignature env tx = Some e"
    "is_anchor genuine" "anchor_key genuine = anchor_key tx" "\<not> barred genuine lg" "checkSignature env genuine = None"
  shows "let lg' = lg\<lparr>lg_anchorKeys := insert (anchor_key tx) (lg_anchorKeys lg)\<rparr> in
    addSealedBatch H D env root now vt (JArr (tx # txs)) lg = (Inl e, lg') \<and> addTransaction H D env root now vt genuine lg' = (Inr Duplicate, lg')"
proof -
  have "\<not> barred genuine (lg\<lparr>lg_anchorKeys := insert (anchor_key tx) (lg_anchorKeys lg)\<rparr>)"
    using assms(7) by (auto simp: barred_def split: option.splits)
  then show ?thesis using assms by (simp add: Let_def addSealedBatch_def admit_one_def claim_anchor_def addTransaction_def)
qed

definition forged_anchor :: jsval where
  "forged_anchor = JObj [(''type'', JStr ''anchor''), (''event'', JStr ''e''), (''hash'', JStr ''h''), (''from'', JStr ''m''), (''sig'', JStr ''s'')]"

definition plain_anchor :: jsval where
  "plain_anchor = JObj [(''type'', JStr ''anchor''), (''event'', JStr ''e''), (''hash'', JStr ''h'')]"

definition strict_identity :: sig_env where
  "strict_identity = \<lparr>se_xid = True, se_key = (\<lambda>a. JStr ''k''), se_verify = (\<lambda>t k. SigInvalid)\<rparr>"

theorem forged_signature_stops_a_batch_witness:
  "fst (addTransaction (\<lambda>s. s) (\<lambda>s. None) strict_identity None JUndef JUndef plain_anchor
     (snd (addSealedBatch (\<lambda>s. s) (\<lambda>s. None) strict_identity None JUndef JUndef (JArr [forged_anchor, plain_anchor])
       (new_ledger True (miner0 1))))) = Inr Duplicate"
proof -
  note s = forged_anchor_def plain_anchor_def is_anchor_def named_def anchor_key_def checkSignature_def strict_identity_def
    barred_def contentKey_def xid_key_def new_ledger_def
  show ?thesis
    using forged_signature_stops_a_batch[of forged_anchor "new_ledger True (miner0 1)" strict_identity BadSignature plain_anchor
      "\<lambda>s. s" "\<lambda>s. None" None JUndef JUndef "[plain_anchor]"]
    by (simp add: s Let_def)
qed

lemma refusal_gives_the_claim_back_witness:
  "lg_anchorKeys (snd (addTransaction (\<lambda>s. s) (\<lambda>s. None) no_identity None JUndef JUndef plain_anchor (new_ledger True (miner0 1)))) \<subseteq> {}"
proof -
  have f: "fromTransaction (\<lambda>s. s) (\<lambda>s. None) JUndef JUndef plain_anchor (miner0 1) = (Inl NotADigest, miner0 1)"
    by (simp add: plain_anchor_def fromTransaction_def validateTransaction_def validateShape_def token_type_of_def token_types_def jhas_def is_hex_str_def)
  have c: "claim_anchor plain_anchor (new_ledger True (miner0 1))
      = Some ((new_ledger True (miner0 1))\<lparr>lg_anchorKeys := {''e:h''}\<rparr>)" "\<not> barred plain_anchor (new_ledger True (miner0 1))"
    "contentKey plain_anchor = Some ''e:h''"
    by (simp_all add: plain_anchor_def claim_anchor_def is_anchor_def named_def anchor_key_def new_ledger_def barred_def contentKey_def xid_key_def)
  have n: "lg_miner (new_ledger True (miner0 1)) = miner0 1" by (simp add: new_ledger_def)
  have "\<exists>lg'. addTransaction (\<lambda>s. s) (\<lambda>s. None) no_identity None JUndef JUndef plain_anchor (new_ledger True (miner0 1))
      = (Inl (Refused NotADigest), lg')"
    using f n c by (simp add: addTransaction_def refuse_def untyped_def xid_mismatch_def)
  then obtain lg' where a: "addTransaction (\<lambda>s. s) (\<lambda>s. None) no_identity None JUndef JUndef plain_anchor (new_ledger True (miner0 1))
      = (Inl (Refused NotADigest), lg')" by blast
  show ?thesis using refusal_gives_the_claim_back[OF a] unfolding a by (simp add: new_ledger_def)
qed

section \<open>The agreed seal\<close>

lemma seal_pool_head:
  assumes "seal_pool H bs lg = ((fs, rest), lg1)"
  shows "length bs < 9 \<Longrightarrow> fs = [] \<and> lg1 = lg"
    "9 \<le> length bs \<Longrightarrow> \<exists>fs'. fs = seal_group H (lg_clock lg) (take 9 (sort_key by_hash bs)) # fs'"
proof -
  have c: "chunks 9 (sort_key by_hash bs) = (if length bs < 9 then ([], sort_key by_hash bs)
      else (let (cs, rest) = chunks 9 (drop 9 (sort_key by_hash bs)) in (take 9 (sort_key by_hash bs) # cs, rest)))"
    by (subst chunks.simps) simp
  show "length bs < 9 \<Longrightarrow> fs = [] \<and> lg1 = lg" using assms by (simp add: seal_pool_def c)
  show "9 \<le> length bs \<Longrightarrow> \<exists>fs'. fs = seal_group H (lg_clock lg) (take 9 (sort_key by_hash bs)) # fs'"
    using assms by (auto simp: seal_pool_def c split: prod.splits)
qed

lemma emitted: "lg_events (emitBlocksAdded f lg) = lg_events lg @ map BlockAdded (jvalues (fc_blocks f))"
proof -
  have "lg_events (fold (\<lambda>b. emit (BlockAdded b)) bs lg) = lg_events lg @ map BlockAdded bs" for bs
    by (induction bs arbitrary: lg) (simp_all add: emit_def)
  then show ?thesis by (simp add: emitBlocksAdded_def)
qed

lemma emitted_frame [step_simps]: "lg_pendingCubeFaces (emitBlocksAdded f lg) = lg_pendingCubeFaces lg"
  unfolding emitBlocksAdded_def by (rule fold_frame) (simp add: emit_def)

lemma put_frame [step_simps]:
  "lg_pendingCubeFaces (put_face_blocks f lg) = lg_pendingCubeFaces lg" "lg_events (put_face_blocks f lg) = lg_events lg"
  "lg_pendingCubeFaces (persistPendingFaces H lg) = lg_pendingCubeFaces lg" "lg_events (persistPendingFaces H lg) = lg_events lg"
  "lg_pendingCubeFaces (persistMembershipPool lg) = lg_pendingCubeFaces lg" "lg_events (persistMembershipPool lg) = lg_events lg"
  unfolding put_face_blocks_def persistPendingFaces_def persistMembershipPool_def
  by (rule fold_frame, simp add: put_block_def)+ simp_all

lemma located_ids: "map b_id (jvalues (fc_blocks (locate_blocks f))) = map b_id (jvalues (fc_blocks f))"
  by (simp add: locate_blocks_def comp_def case_prod_beta setLocation_def updateCoordinates_def Let_def split: option.split)

lemma located_places: "map fst (fc_blocks (locate_blocks f)) = map fst (fc_blocks f)"
  by (simp add: locate_blocks_def comp_def case_prod_beta)

lemma located_at: "\<forall>(p, b) \<in> set (fc_blocks (locate_blocks f)). b_location b =
    Some \<lparr>faceIndex = 0, position = int p, cubeIndex = INum 0, cubeSequentialIndex = None, level = 1\<rparr>"
  by (auto simp: locate_blocks_def setLocation_def updateCoordinates_def first_location_def)

text \<open>The placement check on a face sealed here never fires.\<close>

lemma sealed_face_placed:
  assumes "length g = 9" "distinct (map b_hash g)" "\<forall>b \<in> set g. b_hash b \<noteq> []"
  shows "assertPlacement H (seal_group H ts g) = None"
proof -
  have h: "map (block_hash H) g = map b_hash g" using assms(3) by (simp add: block_hash_def)
  have s: "sort_key (block_hash H) g = sort_key b_hash g"
  proof -
    have "map (block_hash H) (sort_key b_hash g) = map b_hash (sort_key b_hash g)" using assms(3) by (simp add: block_hash_def)
    then have "sorted (map (block_hash H) (sort_key b_hash g))" by (simp only: sorted_sort_key)
    moreover have "inj_on (block_hash H) (set g)" using assms(2) h by (metis distinct_map)
    ultimately show ?thesis by (intro sort_key_inj_key_eq) simp_all
  qed
  define bs where "bs = sort_key b_hash g"
  have bs: "length bs = 9" "distinct (map b_hash bs)" "sorted (map b_hash bs)"
    unfolding bs_def distinct_map_sort_key using assms by simp_all
  have f: "seal_group H ts g = (new_face 0 ts)\<lparr>fc_blocks := enumerate 0 bs, fc_sorted := True\<rparr>"
    using seal_group_full[OF assms(1), of H ts] assms(2) h s by (simp add: sortBlocksByHash_def bs_def)
  define js where "js = map (\<lambda>(p, b). JObj [(''hash'', JStr (b_hash b)), (''id'', JStr (b_id b)), (''position'', JInt (int p))]) (enumerate 0 bs)"
  have keys: "map (the \<circ> block_key) js = map b_hash bs" "length js = 9"
    using map_enumerate(2)[of b_hash 0 bs] bs(1) by (simp_all add: js_def comp_def case_prod_beta block_key_def)
  have ranks: "\<not> (\<exists>j \<in> set js. \<not> claim_ok (position_claim j) (rank_of (map b_hash bs) (the (block_key j))))"
    using rank_at[OF bs(2,3)] by (auto simp: js_def in_set_enumerate_eq claim_ok_def position_claim_def js_number_def block_key_def)
  have some: "\<not> (\<exists>j \<in> set js. block_key j = None)" by (auto simp: js_def block_key_def)
  have p: "placement_payload (seal_group H ts g) = JObj [(''blocks'', JArr js)]" by (simp add: placement_payload_def f js_def)
  then have "face_blocks (placement_payload (seal_group H ts g)) = Some js" by (simp add: face_blocks_def)
  then have "\<exists>d. derive_face H 1 0 (placement_payload (seal_group H ts g)) = Inr d"
    using bs(2) ranks some unfolding derive_face_def by (simp only: option.case Let_def keys face_size_def) simp
  then obtain d where "derive_face H (Suc 0) 0 (JObj [(''blocks'', JArr js)]) = Inr d" unfolding p by auto
  then show ?thesis by (simp add: assertPlacement_def verifyPlacement_def p cube_slots_def)
qed

text \<open>The nine blocks an agreed seal takes, in the order of their places in the face.\<close>

definition agreed_nine :: "(string \<Rightarrow> string) \<Rightarrow> block list \<Rightarrow> ledger \<Rightarrow> block list" where
  "agreed_nine H agreed lg =
     sort_key (block_hash H) (take 9 (sort_key by_hash (filter (\<lambda>b. b_id b \<in> set (map b_id (lg_pool lg))) agreed)))"

text \<open>C18: An agreed seal takes exactly its nine. With fewer than nine of the agreed blocks in the pool it does
  nothing. Otherwise it takes the nine lowest hashes of those present, puts them at places 0 to 8 of the
  face in hash order, each block carrying its own place as its location (position p of face 0, cube 0,
  level 1), removes these ids and no other from the pool, appends the one face to the candidates for a
  cube, and announces the nine placed blocks in the order of their places. Condition: the agreed blocks
  have different hashes.\<close>

theorem agreed_seal_takes_its_nine:
  assumes "distinct (map (block_hash H) agreed)" "sealAgreedBlocks H agreed lg = (Inr sealed, lg')"
  shows "case sealed of
      None \<Rightarrow> length (filter (\<lambda>b. b_id b \<in> set (map b_id (lg_pool lg))) agreed) < 9 \<and> lg' = lg
    | Some f \<Rightarrow> face_ids f = map b_id (agreed_nine H agreed lg) \<and> length (face_ids f) = 9 \<and> set (face_ids f) \<subseteq> set (map b_id (lg_pool lg))
        \<and> map fst (fc_blocks f) = [0..<9]
        \<and> (\<forall>(p, b) \<in> set (fc_blocks f). b_location b =
             Some \<lparr>faceIndex = 0, position = int p, cubeIndex = INum 0, cubeSequentialIndex = None, level = 1\<rparr>)
        \<and> lg_pool lg' = filter (\<lambda>b. b_id b \<notin> set (face_ids f)) (lg_pool lg)
        \<and> lg_pendingCubeFaces lg' = lg_pendingCubeFaces lg @ [f]
        \<and> lg_events lg' = lg_events lg @ map BlockAdded (jvalues (fc_blocks f))"
proof -
  define ps where "ps = filter (\<lambda>b. b_id b \<in> set (map b_id (lg_pool lg))) agreed"
  obtain fs rest lg1 where s: "seal_pool H ps lg = ((fs, rest), lg1)" by (metis surj_pair)
  note run = assms(2)[unfolded sealAgreedBlocks_def Let_def ps_def[symmetric] s prod.case]
  show ?thesis
  proof (cases "length ps < 9")
    case True
    then show ?thesis using seal_pool_head(1)[OF s] run by (auto simp: ps_def)
  next
    case False
    let ?g = "take 9 (sort_key by_hash ps)"
    obtain fs' where fs: "fs = seal_group H (lg_clock lg) ?g # fs'" using seal_pool_head(2)[OF s] False by auto
    have "distinct (map (block_hash H) ps)" unfolding ps_def using assms(1) by (rule distinct_map_filter)
    then have "distinct (map (block_hash H) (sort_key by_hash ps))" by (simp only: distinct_map_sort_key)
    then have "distinct (map (block_hash H) ?g)" unfolding take_map[symmetric] by (rule distinct_take)
    moreover have l: "length ?g = 9" using False by simp
    ultimately have g: "seal_group H (lg_clock lg) ?g = (new_face 0 (lg_clock lg))\<lparr>fc_blocks := sortBlocksByHash H ?g, fc_sorted := True\<rparr>"
      by (rule seal_group_full[rotated])
    let ?f = "locate_blocks (seal_group H (lg_clock lg) ?g)"
    have ids: "face_ids ?f = map b_id (agreed_nine H agreed lg)"
      unfolding face_ids_def located_ids g by (simp add: sortBlocksByHash_def agreed_nine_def ps_def)
    have sub: "set (map b_id ?g) \<subseteq> set (map b_id (lg_pool lg))"
      by (auto simp: ps_def dest!: in_set_takeD)
    have set9: "set (face_ids ?f) = set (map b_id ?g)" unfolding ids agreed_nine_def ps_def[symmetric] by simp
    have lg1: "lg_pool lg1 = lg_pool lg" "lg_pendingCubeFaces lg1 = lg_pendingCubeFaces lg" "lg_events lg1 = lg_events lg"
      using seal_pool_frame[OF s] by simp_all
    have "length (face_ids ?f) = 9" unfolding ids agreed_nine_def ps_def[symmetric] using l by simp
    moreover have "map fst (fc_blocks ?f) = [0..<9]"
      unfolding located_places g using l by (simp add: sortBlocksByHash_def)
    moreover have "\<forall>(p, b) \<in> set (fc_blocks ?f). b_location b =
        Some \<lparr>faceIndex = 0, position = int p, cubeIndex = INum 0, cubeSequentialIndex = None, level = 1\<rparr>"
      by (rule located_at)
    moreover have "sealed = Some ?f" "lg' = emitBlocksAdded ?f (persistPendingFaces H (persistMembershipPool
        ((put_face_blocks ?f lg1)\<lparr>lg_pool := filter (\<lambda>b. b_id b \<notin> set (face_ids ?f)) (lg_pool (put_face_blocks ?f lg1)),
           lg_pendingCubeFaces := lg_pendingCubeFaces (put_face_blocks ?f lg1) @ [?f]\<rparr>)))"
      using run unfolding fs by (auto split: option.splits)
    ultimately show ?thesis using ids sub lg1 unfolding set9[symmetric] by (simp add: emitted step_simps)
  qed
qed

lemma agreed_seal_succeeds:
  assumes "distinct (map b_hash agreed)" "\<forall>b \<in> set agreed. b_hash b \<noteq> []"
    "9 \<le> length (filter (\<lambda>b. b_id b \<in> set (map b_id (lg_pool lg))) agreed)"
  shows "\<exists>f lg'. sealAgreedBlocks H agreed lg = (Inr (Some f), lg')"
proof -
  define ps where "ps = filter (\<lambda>b. b_id b \<in> set (map b_id (lg_pool lg))) agreed"
  obtain fs rest lg1 where s: "seal_pool H ps lg = ((fs, rest), lg1)" by (metis surj_pair)
  let ?g = "take 9 (sort_key by_hash ps)"
  obtain fs' where fs: "fs = seal_group H (lg_clock lg) ?g # fs'" using seal_pool_head(2)[OF s] assms(3) by (auto simp: ps_def)
  have "distinct (map b_hash ps)" unfolding ps_def using assms(1) by (rule distinct_map_filter)
  then have "distinct (map b_hash (sort_key by_hash ps))" by (simp only: distinct_map_sort_key)
  then have d: "distinct (map b_hash ?g)" unfolding take_map[symmetric] by (rule distinct_take)
  have l: "length ?g = 9" using assms(3) by (simp add: ps_def)
  have "\<forall>b \<in> set ?g. b_hash b \<noteq> []" using assms(2) by (auto simp: ps_def dest!: in_set_takeD)
  then have "assertPlacement H (seal_group H (lg_clock lg) ?g) = None" by (rule sealed_face_placed[OF l d])
  then show ?thesis unfolding sealAgreedBlocks_def Let_def ps_def[symmetric] s prod.case fs by simp
qed

theorem agreed_seal_takes_its_nine_witness:
  "\<exists>f lg'. sealAgreedBlocks (lead 6) (map sample_bk [0..<10]) ((new_ledger True (miner0 1))\<lparr>lg_pool := map sample_bk [0..<10]\<rparr>) = (Inr (Some f), lg')
     \<and> length (face_ids f) = 9 \<and> lg_pendingCubeFaces lg' = [f]"
proof -
  let ?bs = "map sample_bk [0..<10]"
  let ?lg = "(new_ledger True (miner0 1))\<lparr>lg_pool := ?bs\<rparr>"
  have n: "\<forall>b \<in> set ?bs. b_hash b \<noteq> []" by (auto simp: sample_bk_ok)
  then have "map (block_hash (lead 6)) ?bs = map b_hash ?bs" unfolding block_hash_def by (intro map_cong) auto
  then have d: "distinct (map (block_hash (lead 6)) ?bs)" using sample_bks_ok by (simp only:)
  have "filter (\<lambda>b. b_id b \<in> set (map b_id (lg_pool ?lg))) ?bs = ?bs" by (rule filter_True) auto
  then have l: "9 \<le> length (filter (\<lambda>b. b_id b \<in> set (map b_id (lg_pool ?lg))) ?bs)" by simp
  obtain f lg' where s: "sealAgreedBlocks (lead 6) ?bs ?lg = (Inr (Some f), lg')"
    using agreed_seal_succeeds[OF sample_bks_ok n l] by blast
  have p: "lg_pendingCubeFaces ?lg = []" by (simp add: new_ledger_def)
  have "length (face_ids f) = 9 \<and> lg_pendingCubeFaces lg' = [f]" using agreed_seal_takes_its_nine[OF d s] unfolding p option.case append_Nil by blast
  with s show ?thesis by blast
qed

section \<open>The rebuild\<close>

lemma anchor_only_checks: "fromTransaction H D now v (anchor_tx a) m = (fst (fromTransaction H D now v (anchor_tx a) m0), m)"
proof -
  have a: "getp (anchor_tx a) ''type'' = JStr ''anchor''" "is_object (anchor_tx a)" by (simp_all add: anchor_tx_def)
  have "validateShape H (anchor_tx a) m = (fst (validateShape H (anchor_tx a) m0), m)"
    unfolding validateShape_def a by (simp add: a split: option.split)
  then have "validateTransaction H (anchor_tx a) m = (fst (validateTransaction H (anchor_tx a) m0), m)"
    unfolding validateTransaction_def by (cases "validateShape H (anchor_tx a) m0") (simp split: sum.split)
  then show ?thesis
    unfolding fromTransaction_def by (cases "validateTransaction H (anchor_tx a) m0") (simp split: sum.split option.split add: Let_def)
qed

text \<open>The anchors of a list that give a block, with their blocks.\<close>

definition mints :: "(string \<Rightarrow> string) \<Rightarrow> (string \<Rightarrow> int option) \<Rightarrow> jsval \<Rightarrow> jsval \<Rightarrow> block option" where
  "mints H D now a = (if \<not> has_xid a then None
     else (case fst (fromTransaction H D now JUndef (anchor_tx a) (miner0 1)) of Inl e \<Rightarrow> None | Inr b \<Rightarrow> Some b))"

lemma mint_anchors_blocks:
  "mint_anchors H D now as m = ((ms, u, r), m') \<Longrightarrow>
     m' = m \<and> ms = map (\<lambda>a. (a, the (mints H D now a))) (filter (\<lambda>a. mints H D now a \<noteq> None) as)"
proof (induction as arbitrary: ms u r m')
  case (Cons a as)
  obtain ms' u' r' m1 where m: "mint_anchors H D now as m = ((ms', u', r'), m1)" by (metis surj_pair)
  note IH = Cons.IH[OF m]
  have f: "fromTransaction H D now JUndef (anchor_tx a) m = (fst (fromTransaction H D now JUndef (anchor_tx a) (miner0 1)), m)"
    by (rule anchor_only_checks)
  show ?case
  proof (cases "has_xid a")
    case False
    then have "mints H D now a = None" by (simp add: mints_def)
    then show ?thesis using Cons.prems m IH False by auto
  next
    case True
    show ?thesis
    proof (cases "fst (fromTransaction H D now JUndef (anchor_tx a) (miner0 1))")
      case (Inl e)
      then have "mints H D now a = None" by (simp add: mints_def)
      then show ?thesis using Cons.prems m IH True f Inl by auto
    next
      case (Inr b)
      then have "mints H D now a = Some b" using True by (simp add: mints_def)
      then show ?thesis using Cons.prems m IH True f Inr by auto
    qed
  qed
qed simp

lemma pooled_anchors:
  "lg_blocks (fold (pool_anchor D) xs lg) = [] \<longleftrightarrow> lg_blocks lg = [] \<and> xs = []"
  "jhas (lg_blocks (fold (pool_anchor D) xs lg)) i \<longleftrightarrow> jhas (lg_blocks lg) i \<or> i \<in> (b_id \<circ> snd) ` set xs"
proof (induction xs arbitrary: lg)
  case (Cons ab xs)
  { case 1 show ?case using Cons(1)[of "pool_anchor D ab lg"] by (auto simp: pool_anchor_def Let_def update_nonempty) }
  { case 2 show ?case using Cons(2)[of "pool_anchor D ab lg"] by (auto simp: pool_anchor_def Let_def jhas_jset) }
qed simp_all

lemma readmitted: "jhas (lg_blocks lg) i \<Longrightarrow> jhas (lg_blocks (fold readmit bs lg)) i"
  "b \<in> set bs \<Longrightarrow> jhas (lg_blocks (fold readmit bs lg)) (b_id b)"
proof -
  have one: "jhas (lg_blocks lg) i \<Longrightarrow> jhas (lg_blocks (readmit b lg)) i" "jhas (lg_blocks (readmit b lg)) (b_id b)" for b lg i
    by (auto simp: readmit_def put_block_def jhas_jset)
  show keep: "jhas (lg_blocks lg) i \<Longrightarrow> jhas (lg_blocks (fold readmit bs lg)) i" for bs lg i
    by (induction bs arbitrary: lg) (auto simp: one(1))
  show "b \<in> set bs \<Longrightarrow> jhas (lg_blocks (fold readmit bs lg)) (b_id b)"
    by (induction bs arbitrary: lg) (auto simp: keep one(2))
qed

text \<open>What a rebuild is asked to place: the first anchor of each content key, without the evicted ones.\<close>

definition to_place :: "jsval \<Rightarrow> ledger \<Rightarrow> jsval list" where
  "to_place anchors lg = filter (\<lambda>a. \<not> isEvictedRow a lg) (first_named {} (case anchors of JArr xs \<Rightarrow> xs | _ \<Rightarrow> []))"

lemma rebuild_holds:
  assumes "rebuildFromAnchors H D root now anchors lg = (res, lg')"
  shows "(\<exists>out. res = Inr out \<and> ro_refused out \<and> lg' = lg \<and> 0 < held lg \<and> (\<forall>a \<in> set (to_place anchors lg). mints H D now a = None))
    \<or> ((\<forall>out. res = Inr out \<longrightarrow> \<not> ro_refused out) \<and> (0 < held lg \<longrightarrow> (\<exists>a \<in> set (to_place anchors lg). mints H D now a \<noteq> None))
       \<and> (\<forall>a \<in> set (to_place anchors lg). \<forall>b. mints H D now a = Some b \<longrightarrow> jhas (lg_blocks lg') (b_id b))
       \<and> (\<forall>b \<in> set (fst (preserved_blocks D now lg)). jhas (lg_blocks lg') (b_id b)))"
proof -
  define uniq where "uniq = to_place anchors lg"
  obtain dry du dr n0 where d: "(if 0 < held lg then mint_anchors H D now uniq (lg_miner lg) else (([], 0, 0), lg_miner lg)) = ((dry, du, dr), n0)"
    by (metis surj_pair)
  obtain kept spared where k: "preserved_blocks D now lg = (kept, spared)" by fastforce
  obtain minted u r n1 where m: "mint_anchors H D now (rebuild_order uniq) n0 = ((minted, u, r), n1)" by (metis surj_pair)
  define lg2 where "lg2 = fold (pool_anchor D) minted (wipe (lg\<lparr>lg_miner := n0\<rparr>)\<lparr>lg_miner := n1\<rparr>)"
  obtain e lg4 where s: "seal_all H root guard_limit (fold readmit kept lg2) = (e, lg4)" by fastforce
  have n0: "n0 = lg_miner lg" and dry: "0 < held lg \<Longrightarrow> dry = map (\<lambda>a. (a, the (mints H D now a))) (filter (\<lambda>a. mints H D now a \<noteq> None) uniq)"
    using d mint_anchors_blocks[of H D now uniq "lg_miner lg"] by (auto split: if_splits)
  have run: "(res, lg') = (if 0 < held lg \<and> dry = [] then
        (Inr \<lparr>ro_refused = True, ro_anchors = 0, ro_untyped = du, ro_rejected = dr,
           ro_evicted = length (first_named {} (case anchors of JArr xs \<Rightarrow> xs | _ \<Rightarrow> [])) - length uniq, ro_wiped = 0,
           ro_preserved = 0, ro_faces = 0\<rparr>, lg\<lparr>lg_miner := n0\<rparr>)
      else (case e of Inl x \<Rightarrow> (Inl x, lg4) | Inr n \<Rightarrow>
        (Inr \<lparr>ro_refused = False, ro_anchors = length minted, ro_untyped = u, ro_rejected = r,
           ro_evicted = spared + (length (first_named {} (case anchors of JArr xs \<Rightarrow> xs | _ \<Rightarrow> [])) - length uniq),
           ro_wiped = (if lg_open lg then length (lg_blockrows lg) else 0), ro_preserved = length kept, ro_faces = n\<rparr>, persistMembershipPool lg4)))"
    unfolding assms[symmetric] rebuildFromAnchors_def Let_def to_place_def[symmetric] uniq_def[symmetric] d k prod.case m lg2_def[symmetric] s by simp
  show ?thesis
  proof (cases "0 < held lg \<and> dry = []")
    case True
    then show ?thesis using run n0 dry by (auto simp: uniq_def filter_empty_conv)
  next
    case False
    have ms: "minted = map (\<lambda>a. (a, the (mints H D now a))) (filter (\<lambda>a. mints H D now a \<noteq> None) (rebuild_order uniq))"
      using mint_anchors_blocks[OF m] by simp
    have "set (rebuild_order uniq) = set uniq" by (simp add: rebuild_order_def)
    then have "a \<in> set uniq \<Longrightarrow> mints H D now a = Some b \<Longrightarrow> jhas (lg_blocks lg2) (b_id b)" for a b
      unfolding lg2_def pooled_anchors(2) ms by force
    moreover have "lg_blocks lg4 = lg_blocks (fold readmit kept lg2)" "lg_blocks (persistMembershipPool lg4) = lg_blocks lg4"
      using seal_all_door[of H root guard_limit "fold readmit kept lg2"] s by (simp_all add: door_def persistMembershipPool_def)
    ultimately have "\<forall>a \<in> set uniq. \<forall>b. mints H D now a = Some b \<longrightarrow> jhas (lg_blocks lg') (b_id b)"
      "\<forall>b \<in> set kept. jhas (lg_blocks lg') (b_id b)"
      using run False readmitted by (auto split: sum.splits)
    moreover have "0 < held lg \<Longrightarrow> \<exists>a \<in> set uniq. mints H D now a \<noteq> None" using False dry by (auto simp: filter_empty_conv)
    moreover have "\<forall>out. res = Inr out \<longrightarrow> \<not> ro_refused out" using run False by (auto split: sum.splits)
    ultimately show ?thesis by (simp add: uniq_def k)
  qed
qed

text \<open>C17: A rebuild never empties what a node holds in memory (blocks loaded or admitted since it started, and
  the membership pool; the sealed rows on disk are not counted). When it holds something, a list none of
  whose anchors gives a block is refused and changes nothing at all, and only such a list is refused; after
  every other run, however it ends, each anchor it was to place that gives a block is held under its
  content id, and so is every row on disk that is no anchor and not evicted.\<close>

theorem rebuild_keeps_the_chain:
  assumes "rebuildFromAnchors H D root now anchors lg = (res, lg')"
  shows "(0 < held lg \<longrightarrow> 0 < held lg')
    \<and> ((\<exists>out. res = Inr out \<and> ro_refused out) \<longleftrightarrow> 0 < held lg \<and> (\<forall>a \<in> set (to_place anchors lg). mints H D now a = None))
    \<and> (0 < held lg \<and> (\<forall>a \<in> set (to_place anchors lg). mints H D now a = None) \<longrightarrow> lg' = lg)
    \<and> (\<forall>a \<in> set (to_place anchors lg). \<forall>b. mints H D now a = Some b \<longrightarrow> jhas (lg_blocks lg') (b_id b))
    \<and> ((\<forall>out. res = Inr out \<longrightarrow> \<not> ro_refused out) \<longrightarrow>
        (\<forall>b \<in> set (fst (preserved_blocks D now lg)). jhas (lg_blocks lg') (b_id b)))"
proof -
  have *: "jhas (lg_blocks lg') i \<Longrightarrow> 0 < held lg'" for i by (cases "lg_blocks lg'") (auto simp: held_def jhas_def)
  from rebuild_holds[OF assms] show ?thesis
  proof (elim disjE)
    assume "\<exists>out. res = Inr out \<and> ro_refused out \<and> lg' = lg \<and> 0 < held lg \<and> (\<forall>a \<in> set (to_place anchors lg). mints H D now a = None)"
    then show ?thesis by auto
  next
    assume "(\<forall>out. res = Inr out \<longrightarrow> \<not> ro_refused out) \<and> (0 < held lg \<longrightarrow> (\<exists>a \<in> set (to_place anchors lg). mints H D now a \<noteq> None))
       \<and> (\<forall>a \<in> set (to_place anchors lg). \<forall>b. mints H D now a = Some b \<longrightarrow> jhas (lg_blocks lg') (b_id b))
       \<and> (\<forall>b \<in> set (fst (preserved_blocks D now lg)). jhas (lg_blocks lg') (b_id b))"
    note c = this
    have "0 < held lg'" if h: "0 < held lg"
    proof -
      obtain a where a: "a \<in> set (to_place anchors lg)" "mints H D now a \<noteq> None" using c h by blast
      then obtain b where "mints H D now a = Some b" by (cases "mints H D now a") auto
      then show ?thesis using c a(1) by (intro *) blast
    qed
    then show ?thesis using c by auto
  qed
qed

theorem rebuild_keeps_the_chain_witness:
  "0 < held (snd (rebuildFromAnchors (lead 6) (\<lambda>s. None) None JUndef (JArr [plain_anchor]) ((new_ledger True (miner0 1))\<lparr>lg_pool := [sample_bk 1]\<rparr>)))"
proof -
  let ?lg = "(new_ledger True (miner0 1))\<lparr>lg_pool := [sample_bk 1]\<rparr>"
  obtain res lg' where r: "rebuildFromAnchors (lead 6) (\<lambda>s. None) None JUndef (JArr [plain_anchor]) ?lg = (res, lg')" by fastforce
  have "0 < held ?lg" by (simp add: held_def)
  then show ?thesis using rebuild_keeps_the_chain[OF r] unfolding r by simp
qed

section \<open>A restarted node is not protected\<close>

text \<open>The guard counts memory only. A node that restarts loads no sealed block, so with an empty membership
  pool it holds nothing by that count, and an empty list takes every row from its disk.\<close>

lemma empty_list_wipes:
  assumes "held lg = 0" "lg_open lg" "fst (preserved_blocks D now lg) = []"
  shows "\<exists>out lg'. rebuildFromAnchors H D root now (JArr []) lg = (Inr out, lg') \<and> \<not> ro_refused out \<and>
    ro_wiped out = length (lg_blockrows lg) \<and> lg_blockrows lg' = []"
proof -
  obtain spared where k: "preserved_blocks D now lg = ([], spared)" using assms(3) by (cases "preserved_blocks D now lg") simp
  let ?w = "wipe lg\<lparr>lg_miner := lg_miner lg\<rparr>"
  have w: "lg_pool (wipe lg) = []" "lg_blockrows (wipe lg) = []" using assms(2) by (simp_all add: wipe_def Let_def)
  have "seal_pool H [] ?w = (([], []), ?w)" by (simp add: seal_pool_def chunks.simps)
  then have "sealReadyFaces H root ?w = (Inr 0, ?w\<lparr>lg_pool := []\<rparr>)" by (simp add: sealReadyFaces_def w(1))
  moreover obtain g where g: "guard_limit = Suc g" by (cases guard_limit) (simp_all add: guard_limit_def)
  ultimately have s: "seal_all H root guard_limit ?w = (Inr 0, ?w\<lparr>lg_pool := []\<rparr>)"
    unfolding g seal_all.simps(2) by (simp only: prod.case sum.case if_True simp_thms)
  show ?thesis
    using assms(1,2) s w(2) by (simp add: rebuildFromAnchors_def k rebuild_order_def persistMembershipPool_def)
qed

definition sealed_anchor :: jsval where
  "sealed_anchor = JObj [(''type'', JStr ''anchor''), (''event'', JStr ''e''), (''hash'', JStr ''h''), (''ts'', JInt 1),
     (''xid'', JStr (CHR ''0'' # replicate 63 CHR ''7''))]"

text \<open>The store of a node whose one block is sealed: its row under its content id, and an empty pool.\<close>

definition sealed_store :: "(string \<Rightarrow> string) \<Rightarrow> (string \<Rightarrow> int option) \<Rightarrow> ledger" where
  "sealed_store H D = (new_ledger True (miner0 1))\<lparr>lg_poolrow := Some [],
     lg_blockrows := [(contentIdOf H (the (the (consensusBody D sealed_anchor))), Some (JObj [(''tx'', sealed_anchor)]))]\<rparr>"

lemma restarted_node:
  assumes "lg' = snd (ledger_initDb H D now True (sealed_store H D))"
  shows "held lg' = 0" "lg_open lg'" "lg_blockrows lg' = lg_blockrows (sealed_store H D)" "fst (preserved_blocks D now' lg') = []"
proof -
  have x: "xid_re (CHR ''0'' # replicate 63 CHR ''7'')" by (simp add: xid_re_def is_hex_def is_digit_def)
  obtain body where b: "consensusBody D sealed_anchor = Some (Some body)"
    using json_stringify_total[of "JObj [(''type'', JStr ''anchor''), (''event'', JStr ''e''), (''hash'', JStr ''h''),
      (''ts'', JStr (show_int (anchorTimestampNanos D (JInt 1)))), (''xid'', JStr (CHR ''0'' # replicate 63 CHR ''7''))]"] x
    by (auto simp: consensusBody_def sealed_anchor_def)
  show h: "held lg' = 0" "lg_open lg'" "lg_blockrows lg' = lg_blockrows (sealed_store H D)"
    unfolding assms using b
    by (simp_all add: ledger_initDb_def rehydratePools_def sealed_store_def new_ledger_def scan_row_def Let_def restore_pool_def
        restore_faces_def held_def)
  show "fst (preserved_blocks D now' lg') = []"
    using h(2,3) by (simp add: preserved_blocks_def sealed_store_def preserve_row_def sealed_anchor_def)
qed

lemma restarted_node_is_wiped:
  "\<exists>out lg2. rebuildFromAnchors H D root now' (JArr []) (snd (ledger_initDb H D now True (sealed_store H D))) = (Inr out, lg2) \<and>
     \<not> ro_refused out \<and> ro_wiped out = 1 \<and> lg_blockrows lg2 = []"
proof -
  define lg where "lg = snd (ledger_initDb H D now True (sealed_store H D))"
  note r = restarted_node[OF lg_def]
  have "length (lg_blockrows lg) = 1" unfolding r(3) by (simp add: sealed_store_def)
  then show ?thesis using empty_list_wipes[OF r(1,2) r(4), of H root now'] unfolding lg_def[symmetric] by simp
qed

end
