(* ===== verification/CubeSync.thy ===== *)
theory CubeSync
  imports LedgerBlock PlacementProps
begin

text \<open>
  \<open>cube-sync.js\<close>: verifying a cube fetched from a peer, planning its adoption, and choosing what
  to ask for. Shown: a cube that verifies is certified by its content (its id is the hash of its
  blocks' hashes, each the hash of a body its xid content-addresses); under one id two verifying
  cubes have the same faces; adoption never displaces a held cube, places the blocks as the
  placement module does and evicts exactly the pooled ones; requests are bounded and only for what
  is missing.

  \<open>Throws\<close> stands for an exception of the hash (a BigInt in an anchor's event, which no payload
  read from JSON has). The checks the caller passes in \<open>opts\<close> are optional functions.
\<close>

section \<open>Definitions\<close>

definition sync_faceRootOf :: "(string \<Rightarrow> string) \<Rightarrow> string list \<Rightarrow> string option" where
  "sync_faceRootOf H hs = merkleRoot H (sort hs)"

definition sync_cubeIdOf :: "(string \<Rightarrow> string) \<Rightarrow> string list \<Rightarrow> string" where
  "sync_cubeIdOf H roots = take 16 (sha256hex H (concat (sort roots)))"

definition setDigest :: "(string \<Rightarrow> string) \<Rightarrow> (string \<times> string) list \<Rightarrow> string" where
  "setDigest H cubes = sha256hex H (join ''|'' (sort (map (\<lambda>(i, r). i @ '':'' @ r) cubes)))"

definition txHash :: "(string \<Rightarrow> string) \<Rightarrow> (string \<Rightarrow> int option) \<Rightarrow> jsval \<Rightarrow> string option option" where
  "txHash H D tx = map_option (map_option (sha256hex H)) (consensusBody D tx)"

datatype cube_refusal =
    EmptyPayload | NotThreeFaces | FaceNotNine | BadBlockHash | NoTx | HashMismatch | BadXid tx_error
  | FaceRootMismatch | BadPlacement refusal | IdMismatch | CubeRootMismatch | InvalidTx | BadSignature | Throws

text \<open>One member: its hash, or the refusal.\<close>

definition check_member :: "(string \<Rightarrow> string) \<Rightarrow> (string \<Rightarrow> int option) \<Rightarrow> jsval \<Rightarrow> cube_refusal + string" where
  "check_member H D b =
     (case getp b ''hash'' of
        JStr h \<Rightarrow>
          if \<not> hex64 h then Inl BadBlockHash
          else if \<not> is_object (getp b ''tx'') then Inl NoTx
          else (case txHash H D (getp b ''tx'') of
              None \<Rightarrow> Inl Throws
            | Some th \<Rightarrow>
                if th \<noteq> Some h then Inl HashMismatch
                else (case validateXid H (getp b ''tx'') of Inl e \<Rightarrow> Inl (BadXid e) | Inr ok \<Rightarrow> Inr h))
      | _ \<Rightarrow> Inl BadBlockHash)"

fun each :: "('a \<Rightarrow> 'e + 'b) \<Rightarrow> 'a list \<Rightarrow> 'e + 'b list" where
  "each f [] = Inr []"
| "each f (x # xs) = (case f x of Inl e \<Rightarrow> Inl e | Inr y \<Rightarrow> (case each f xs of Inl e \<Rightarrow> Inl e | Inr ys \<Rightarrow> Inr (y # ys)))"

definition blocks_of :: "jsval \<Rightarrow> jsval list" where
  "blocks_of f = (case getp f ''blocks'' of JArr bs \<Rightarrow> bs | _ \<Rightarrow> [])"

definition check_face :: "(string \<Rightarrow> string) \<Rightarrow> (string \<Rightarrow> int option) \<Rightarrow> jsval \<Rightarrow> cube_refusal + string" where
  "check_face H D f =
     (if length (blocks_of f) \<noteq> 9 then Inl FaceNotNine
      else (case each (check_member H D) (blocks_of f) of
          Inl e \<Rightarrow> Inl e
        | Inr hs \<Rightarrow>
            (let root = the (sync_faceRootOf H hs) in
             if is_string (getp f ''merkleRoot'') \<and> getp f ''merkleRoot'' \<noteq> JStr root then Inl FaceRootMismatch else Inr root)))"

record verified =
  vf_id :: string
  vf_root :: string
  vf_faceRoots :: "string list"

record sync_opts =
  validates :: "(jsval \<Rightarrow> bool) option"
  verifies :: "(jsval \<Rightarrow> bool) option"

definition opt_all :: "(jsval \<Rightarrow> bool) option \<Rightarrow> jsval list \<Rightarrow> bool" where
  "opt_all p txs = (case p of None \<Rightarrow> True | Some f \<Rightarrow> list_all f txs)"

text \<open>An expected id that is empty or missing is not compared.\<close>

definition verifyCube ::
  "(string \<Rightarrow> string) \<Rightarrow> (string \<Rightarrow> int option) \<Rightarrow> sync_opts \<Rightarrow> jsval \<Rightarrow> string \<Rightarrow> cube_refusal + verified" where
  "verifyCube H D opts payload expectedId =
     (if \<not> is_object payload then Inl EmptyPayload
      else (case getp payload ''faces'' of
          JArr fs \<Rightarrow>
            if length fs \<noteq> 3 then Inl NotThreeFaces
            else (case each (check_face H D) fs of
                Inl e \<Rightarrow> Inl e
              | Inr roots \<Rightarrow>
                  (case verifyPlacement H (JObj [(''faces'', JArr fs)]) of
                     Inl r \<Rightarrow> Inl (BadPlacement r)
                   | Inr p \<Rightarrow>
                       (let cid = sync_cubeIdOf H roots; root = the (merkleRoot H (sort roots));
                            txs = map (\<lambda>b. getp b ''tx'') (concat (map blocks_of fs)) in
                        if expectedId \<noteq> [] \<and> cid \<noteq> expectedId then Inl IdMismatch
                        else if truthy (getp payload ''merkleRoot'') \<and> getp payload ''merkleRoot'' \<noteq> JStr root then Inl CubeRootMismatch
                        else if \<not> opt_all (validates opts) txs then Inl InvalidTx
                        else if \<not> opt_all (verifies opts) txs then Inl BadSignature
                        else Inr \<lparr>vf_id = cid, vf_root = root, vf_faceRoots = roots\<rparr>)))
        | _ \<Rightarrow> Inl NotThreeFaces))"

record adopt_ctx =
  haveCubeIds :: "string list"
  membershipPool :: "string list"
  knownBlockHashes :: "string list"
  nextSeq :: int

record adopted_block =
  ab_hash :: string
  ab_tx :: jsval
  ab_location :: location
  ab_neverSeen :: bool

record adoption =
  ad_id :: string
  ad_root :: string
  ad_blocks :: "adopted_block list"
  ad_evict :: "string list"
  ad_countTowardRecursion :: bool
  ad_admitToMempool :: bool

text \<open>The payload is one that verified, so every block has its hash.\<close>

definition hash_of :: "jsval \<Rightarrow> string" where
  "hash_of b = (case getp b ''hash'' of JStr h \<Rightarrow> h | _ \<Rightarrow> [])"

definition adopt_face :: "(string \<Rightarrow> string) \<Rightarrow> verified \<Rightarrow> adopt_ctx \<Rightarrow> jsval list \<Rightarrow> adopted_block list" where
  "adopt_face H v ctx bs =
     (let fi = rank_of (vf_faceRoots v) (the (sync_faceRootOf H (map hash_of bs))) in
      map (\<lambda>(p, b). \<lparr>ab_hash = hash_of b, ab_tx = getp b ''tx'',
          ab_location = \<lparr>faceIndex = int fi, position = int p, cubeIndex = IText (vf_id v), cubeSequentialIndex = Some (nextSeq ctx), level = 1\<rparr>,
          ab_neverSeen = (hash_of b \<notin> set (knownBlockHashes ctx))\<rparr>)
        (enumerate 0 (sort_key hash_of bs)))"

text \<open>\<open>None\<close>: skipped, the cube is already held.\<close>

definition planAdoption :: "(string \<Rightarrow> string) \<Rightarrow> verified \<Rightarrow> jsval list \<Rightarrow> adopt_ctx \<Rightarrow> adoption option" where
  "planAdoption H v faces ctx =
     (if vf_id v \<in> set (haveCubeIds ctx) then None
      else (let bs = concat (map (adopt_face H v ctx \<circ> blocks_of) faces) in
        Some \<lparr>ad_id = vf_id v, ad_root = vf_root v, ad_blocks = bs,
          ad_evict = filter (\<lambda>h. h \<in> set (membershipPool ctx)) (map ab_hash bs),
          ad_countTowardRecursion = False, ad_admitToMempool = False\<rparr>))"

definition id_text :: "jsval \<Rightarrow> string option" where
  "id_text c = (case getp c ''id'' of JStr i \<Rightarrow> Some i | _ \<Rightarrow> None)"

definition diffWanted :: "string list \<Rightarrow> jsval list \<Rightarrow> nat \<Rightarrow> string list" where
  "diffWanted held peers maxInFlight =
     take (max 1 maxInFlight) (sort (filter (\<lambda>i. i \<notin> set held) (map the (filter (\<lambda>i. i \<noteq> None) (map id_text peers)))))"

section \<open>The Merkle root binds its leaves\<close>

text \<open>Every text a Merkle computation hashes.\<close>

fun level_texts :: "string list \<Rightarrow> string set" where
  "level_texts (a # b # hs) = insert (a @ b) (level_texts hs)"
| "level_texts [a] = {a @ a}"
| "level_texts [] = {}"

function merkle_texts :: "(string \<Rightarrow> string) \<Rightarrow> string list \<Rightarrow> string set" where
  "merkle_texts H hs = (if length hs \<le> 1 then {} else level_texts hs \<union> merkle_texts H (pair_up H hs))"
  by pat_completeness auto
termination
  by (relation "measure (\<lambda>(H, hs). length hs)") (auto simp: pair_up_length)

declare merkle_texts.simps [simp del]

lemma pair_up_inj:
  "length hs = length hs' \<Longrightarrow> \<forall>h \<in> set hs. length h = 64 \<Longrightarrow> \<forall>h \<in> set hs'. length h = 64 \<Longrightarrow>
   inj_on H (level_texts hs \<union> level_texts hs') \<Longrightarrow> pair_up H hs = pair_up H hs' \<Longrightarrow> hs = hs'"
proof (induction hs arbitrary: hs' rule: level_texts.induct)
  case (1 a b hs)
  obtain a' b' rs where hs': "hs' = a' # b' # rs" using 1(2) by (cases hs'; cases "tl hs'") auto
  have "H (a @ b) = H (a' @ b')" using 1(6) by (simp add: hs' hex_of_inj)
  then have "a @ b = a' @ b'" using inj_onD[OF 1(5), of "a @ b" "a' @ b'"] by (simp add: hs')
  moreover have "inj_on H (level_texts hs \<union> level_texts rs)" by (rule inj_on_subset[OF 1(5)]) (auto simp: hs')
  ultimately show ?case using 1 by (simp add: hs')
next
  case (2 a)
  obtain a' where hs': "hs' = [a']" using 2(1) by (cases hs'; cases "tl hs'") auto
  have "H (a @ a) = H (a' @ a')" using 2(5) by (simp add: hs' hex_of_inj)
  then have "a @ a = a' @ a'" using inj_onD[OF 2(4), of "a @ a" "a' @ a'"] by (simp add: hs')
  then show ?case using 2(2,3) by (simp add: hs')
qed simp

lemma pair_up_64: "digest H \<Longrightarrow> \<forall>h \<in> set (pair_up H hs). length h = 64"
  by (induction H hs rule: pair_up.induct) (auto simp: digest_def)

lemma merkle_inj:
  assumes "digest H"
  shows "length hs = length hs' \<Longrightarrow> \<forall>h \<in> set hs. length h = 64 \<Longrightarrow> \<forall>h \<in> set hs'. length h = 64 \<Longrightarrow>
   inj_on H (merkle_texts H hs \<union> merkle_texts H hs') \<Longrightarrow> merkleRoot H hs = merkleRoot H hs' \<Longrightarrow> hs = hs'"
proof (induction "length hs" arbitrary: hs hs' rule: less_induct)
  case less
  consider "hs = []" | "length hs = 1" | "2 \<le> length hs" by (cases hs; cases "tl hs") auto
  then show ?case
  proof cases
    case 1
    then show ?thesis using less.prems(1) by simp
  next
    case 2
    then obtain a b where "hs = [a]" "hs' = [b]" using less.prems(1) by (metis One_nat_def length_0_conv length_Suc_conv)
    then show ?thesis using less.prems(5) by (simp add: merkleRoot.simps)
  next
    case 3
    have t: "merkle_texts H hs = level_texts hs \<union> merkle_texts H (pair_up H hs)"
      "merkle_texts H hs' = level_texts hs' \<union> merkle_texts H (pair_up H hs')"
      using 3 less.prems(1) by (simp_all add: merkle_texts.simps[of H hs] merkle_texts.simps[of H hs'])
    have ne: "hs \<noteq> []" "hs' \<noteq> []" "length hs \<noteq> 1" "length hs' \<noteq> 1" using 3 less.prems(1) by auto
    then have r: "merkleRoot H (pair_up H hs) = merkleRoot H (pair_up H hs')"
      using less.prems(5) by (simp add: merkleRoot.simps[of H hs] merkleRoot.simps[of H hs'])
    have "length (pair_up H hs) < length hs" using 3 by (simp add: pair_up_length)
    moreover have "inj_on H (merkle_texts H (pair_up H hs) \<union> merkle_texts H (pair_up H hs'))"
      by (rule inj_on_subset[OF less.prems(4)]) (auto simp: t)
    ultimately have "pair_up H hs = pair_up H hs'"
      using less.hyps[OF _ _ pair_up_64[OF assms] pair_up_64[OF assms]] r less.prems(1) by (simp add: pair_up_length)
    moreover have "inj_on H (level_texts hs \<union> level_texts hs')"
      by (rule inj_on_subset[OF less.prems(4)]) (auto simp: t)
    ultimately show ?thesis using pair_up_inj less.prems(1-3) by blast
  qed
qed

section \<open>Properties\<close>

lemma eachD: "each f xs = Inr ys \<Longrightarrow> length ys = length xs \<and> (\<forall>i < length xs. f (xs ! i) = Inr (ys ! i))"
proof (induction xs arbitrary: ys)
  case (Cons x xs)
  then obtain y zs where "f x = Inr y" "each f xs = Inr zs" "ys = y # zs" by (auto split: sum.splits)
  then show ?case using Cons.IH[of zs] by (auto simp: nth_Cons' split: if_splits)
qed simp

lemma each_set: "each f xs = Inr ys \<Longrightarrow> x \<in> set xs \<Longrightarrow> \<exists>y \<in> set ys. f x = Inr y"
  using eachD[of f xs ys] by (fastforce simp: in_set_conv_nth)

lemma check_memberD:
  assumes "check_member H D b = Inr h"
  shows "getp b ''hash'' = JStr h \<and> txHash H D (getp b ''tx'') = Some (Some h) \<and> validateXid H (getp b ''tx'') = Inr True"
proof -
  have "validateXid H tx = Inr ok \<Longrightarrow> ok" for tx ok
    by (auto simp: validateXid_def split: if_splits jsval.splits option.splits bool.splits)
  then show ?thesis using assms
    by (auto simp: check_member_def split: jsval.splits if_splits option.splits sum.splits)
qed

lemma check_faceD:
  assumes "check_face H D f = Inr root"
  shows "length (blocks_of f) = 9 \<and> each (check_member H D) (blocks_of f) = Inr (map hash_of (blocks_of f)) \<and>
    root = the (sync_faceRootOf H (map hash_of (blocks_of f)))"
proof -
  obtain hs where hs: "length (blocks_of f) = 9" "each (check_member H D) (blocks_of f) = Inr hs" "root = the (sync_faceRootOf H hs)"
    using assms by (auto simp: check_face_def Let_def split: if_splits sum.splits)
  have "hs = map hash_of (blocks_of f)"
  proof (rule nth_equalityI)
    show "length hs = length (map hash_of (blocks_of f))" using eachD[OF hs(2)] by simp
    fix i assume "i < length hs"
    then have "i < length (blocks_of f)" "check_member H D (blocks_of f ! i) = Inr (hs ! i)" using eachD[OF hs(2)] by auto
    then show "hs ! i = map hash_of (blocks_of f) ! i"
      using check_memberD[of H D "blocks_of f ! i" "hs ! i"] by (simp add: hash_of_def)
  qed
  then show ?thesis using hs by simp
qed

lemma verifyCubeD:
  assumes "verifyCube H D opts payload i = Inr v"
  obtains fs where "getp payload ''faces'' = JArr fs" "length fs = 3" "each (check_face H D) fs = Inr (vf_faceRoots v)"
    "vf_id v = sync_cubeIdOf H (vf_faceRoots v)" "i = [] \<or> vf_id v = i" "vf_root v = the (merkleRoot H (sort (vf_faceRoots v)))"
    "opt_all (verifies opts) (map (\<lambda>b. getp b ''tx'') (concat (map blocks_of fs)))"
    "\<exists>p. verifyPlacement H (JObj [(''faces'', JArr fs)]) = Inr p"
  using assms by (auto simp: verifyCube_def Let_def split: if_splits jsval.splits sum.splits)

definition faces_of :: "jsval \<Rightarrow> jsval list" where
  "faces_of payload = (case getp payload ''faces'' of JArr fs \<Rightarrow> fs | _ \<Rightarrow> [])"

definition face_hashes :: "jsval \<Rightarrow> string list" where
  "face_hashes f = sort (map hash_of (blocks_of f))"

lemma verified_id:
  assumes "verifyCube H D opts payload i = Inr v"
  shows "vf_id v = sync_cubeIdOf H (vf_faceRoots v) \<and> (i = [] \<or> vf_id v = i)"
  using assms by (rule verifyCubeD) simp

lemma certified_block:
  assumes "check_face H D f = Inr root" "b \<in> set (blocks_of f)"
  shows "getp b ''hash'' = JStr (hash_of b) \<and> hex64 (hash_of b) \<and> txHash H D (getp b ''tx'') = Some (Some (hash_of b)) \<and>
    validateXid H (getp b ''tx'') = Inr True"
proof -
  obtain h where h: "check_member H D b = Inr h"
    using each_set[OF _ assms(2)] check_faceD[OF assms(1)] by blast
  then have "hex64 h" by (auto simp: check_member_def split: jsval.splits if_splits option.splits sum.splits)
  then show ?thesis using check_memberD[OF h] by (simp add: hash_of_def)
qed

lemma verified_faces:
  assumes "verifyCube H D opts payload i = Inr v"
  shows "length (faces_of payload) = 3 \<and> (\<forall>f \<in> set (faces_of payload). \<exists>r. check_face H D f = Inr r) \<and>
    vf_faceRoots v = map (\<lambda>f. the (merkleRoot H (face_hashes f))) (faces_of payload)"
proof -
  obtain fs where fs: "getp payload ''faces'' = JArr fs" "length fs = 3" "each (check_face H D) fs = Inr (vf_faceRoots v)"
    using verifyCubeD[OF assms] by metis
  have f: "faces_of payload = fs" using fs(1) by (simp add: faces_of_def)
  have "vf_faceRoots v = map (\<lambda>f. the (merkleRoot H (face_hashes f))) fs"
  proof (rule nth_equalityI)
    show "length (vf_faceRoots v) = length (map (\<lambda>f. the (merkleRoot H (face_hashes f))) fs)" using eachD[OF fs(3)] by simp
    fix j assume "j < length (vf_faceRoots v)"
    then have j: "j < length fs" "check_face H D (fs ! j) = Inr (vf_faceRoots v ! j)" using eachD[OF fs(3)] by auto
    then show "vf_faceRoots v ! j = map (\<lambda>f. the (merkleRoot H (face_hashes f))) fs ! j"
      using check_faceD[OF j(2)] by (simp add: face_hashes_def sync_faceRootOf_def)
  qed
  then show ?thesis using fs(2) each_set[OF fs(3)] unfolding f by blast
qed

definition certified :: "(string \<Rightarrow> string) \<Rightarrow> (string \<Rightarrow> int option) \<Rightarrow> jsval \<Rightarrow> string \<Rightarrow> verified \<Rightarrow> bool" where
  "certified H D payload i v \<longleftrightarrow> length (faces_of payload) = 3 \<and>
    (\<forall>f \<in> set (faces_of payload). length (blocks_of f) = 9 \<and> (\<forall>b \<in> set (blocks_of f).
       txHash H D (getp b ''tx'') = Some (Some (hash_of b)) \<and> validateXid H (getp b ''tx'') = Inr True)) \<and>
    vf_faceRoots v = map (\<lambda>f. the (faceRootOf H (map hash_of (blocks_of f)))) (faces_of payload) \<and>
    Some (vf_id v) = cubeIdOf H (vf_faceRoots v) \<and> (i = [] \<or> vf_id v = i)"

lemma verified_certified:
  assumes "verifyCube H D opts payload i = Inr v"
  shows "certified H D payload i v"

proof -
  note vf = verified_faces[OF assms]
  have i: "vf_id v = sync_cubeIdOf H (vf_faceRoots v)" "i = [] \<or> vf_id v = i" using verified_id[OF assms] by blast+
  have nine: "length (blocks_of f) = 9 \<and> (\<forall>b \<in> set (blocks_of f).
      txHash H D (getp b ''tx'') = Some (Some (hash_of b)) \<and> validateXid H (getp b ''tx'') = Inr True)"
    if fin: "f \<in> set (faces_of payload)" for f
  proof -
    obtain r where r: "check_face H D f = Inr r" using vf fin by blast
    then show ?thesis using check_faceD[OF r] certified_block[OF r] by blast
  qed
  have roots: "vf_faceRoots v = map (\<lambda>f. the (faceRootOf H (map hash_of (blocks_of f)))) (faces_of payload)"
    using vf nine by (simp add: face_hashes_def faceRootOf_def face_size_def)
  have "Some (vf_id v) = cubeIdOf H (vf_faceRoots v)"
    using vf unfolding i(1) by (simp add: cubeIdOf_def sync_cubeIdOf_def cube_slots_def sha256hex_def)
  then show ?thesis using vf nine roots i(2) unfolding certified_def by blast
qed

text \<open>C26: A cube that verifies is certified by its own content: three faces of nine, every block's hash the
  hash of its transaction's consensus body and every xid verified, the id the hash of the face roots
  that the placement module derives, and the one asked for.\<close>

theorem verified_cube_is_certified:
  "case verifyCube H D opts payload i of Inl e \<Rightarrow> True | Inr v \<Rightarrow> certified H D payload i v"
  by (cases "verifyCube H D opts payload i") (simp_all add: verified_certified)


lemma concat_same_length:
  "\<forall>x \<in> set xs. length x = n \<Longrightarrow> \<forall>y \<in> set ys. length y = n \<Longrightarrow> length xs = length ys \<Longrightarrow> concat xs = concat ys \<Longrightarrow> xs = ys"
  by (induction xs ys rule: list_induct2') auto

lemma merkleRoot_64:
  assumes "digest H"
  shows "hs \<noteq> [] \<Longrightarrow> \<forall>h \<in> set hs. length h = 64 \<Longrightarrow> \<exists>r. merkleRoot H hs = Some r \<and> length r = 64"
proof (induction "length hs" arbitrary: hs rule: less_induct)
  case less
  show ?case
  proof (cases "length hs = 1")
    case True
    then show ?thesis using less.prems by (cases hs) (simp_all add: merkleRoot.simps)
  next
    case False
    then have "2 \<le> length hs" using less.prems(1) by (cases hs; cases "tl hs") auto
    then have "length (pair_up H hs) < length hs" "0 < length (pair_up H hs)" by (simp_all add: pair_up_length)
    then have "\<exists>r. merkleRoot H (pair_up H hs) = Some r \<and> length r = 64"
      using less.hyps pair_up_64[OF assms] by simp
    then show ?thesis using less.prems False by (simp add: merkleRoot.simps[of H hs])
  qed
qed

text \<open>A cube id determines the cube: two payloads that verify under the same id, from whatever peers and
  under whatever options, consist of the same faces of the same block hashes, unless the texts hashed
  on the way collide.\<close>

lemma cube_id_determines_blocks:
  assumes "digest H" "verifyCube H D opts p i = Inr v" "verifyCube H D' opts' p' i = Inr v'" "i \<noteq> []"
    "inj_on (\<lambda>s. take 16 (sha256hex H s)) {concat (sort (vf_faceRoots v)), concat (sort (vf_faceRoots v'))}"
    "inj_on H (\<Union>f \<in> set (faces_of p) \<union> set (faces_of p'). merkle_texts H (face_hashes f))"
  shows "face_hashes ` set (faces_of p) = face_hashes ` set (faces_of p')"
proof -
  let ?r = "\<lambda>hs. the (merkleRoot H hs)" and ?F = "set (faces_of p) \<union> set (faces_of p')"
  note c = verified_faces[OF assms(2)] and c' = verified_faces[OF assms(3)]
  have h9: "length (face_hashes f) = 9 \<and> (\<forall>h \<in> set (face_hashes f). length h = 64)" if fin: "f \<in> ?F" for f
  proof -
    obtain D r where r: "check_face H D f = Inr r" using c c' fin by blast
    then show ?thesis using check_faceD[OF r] hex64_length certified_block[OF r] by (fastforce simp: face_hashes_def)
  qed
  have r64: "\<exists>r. merkleRoot H (face_hashes f) = Some r \<and> length r = 64" if "f \<in> ?F" for f
    by (rule merkleRoot_64[OF assms(1)]) (use h9[OF that] in auto)
  have l64: "\<forall>r \<in> set (vf_faceRoots v). length r = 64" "\<forall>r \<in> set (vf_faceRoots v'). length r = 64"
    using c c' r64 by force+
  have "sync_cubeIdOf H (vf_faceRoots v) = sync_cubeIdOf H (vf_faceRoots v')"
    using verified_id[OF assms(2)] verified_id[OF assms(3)] assms(4) by metis
  then have e: "take 16 (sha256hex H (concat (sort (vf_faceRoots v)))) = take 16 (sha256hex H (concat (sort (vf_faceRoots v'))))"
    by (simp only: sync_cubeIdOf_def)
  have "concat (sort (vf_faceRoots v)) = concat (sort (vf_faceRoots v'))"
    by (rule inj_onD[OF assms(5) e]) simp_all
  then have "sort (vf_faceRoots v) = sort (vf_faceRoots v')"
    by (intro concat_same_length[of _ 64]) (use l64 c c' in auto)
  then have "set (vf_faceRoots v) = set (vf_faceRoots v')" by (metis set_sort)
  then have img: "?r ` (face_hashes ` set (faces_of p)) = ?r ` (face_hashes ` set (faces_of p'))"
    using c c' by (simp add: image_image)
  have "inj_on ?r (face_hashes ` ?F)"
  proof (rule inj_onI, clarify)
    fix f g assume fg: "f \<in> ?F" "g \<in> ?F" "?r (face_hashes f) = ?r (face_hashes g)"
    have "merkleRoot H (face_hashes f) \<noteq> None" "merkleRoot H (face_hashes g) \<noteq> None" using r64[OF fg(1)] r64[OF fg(2)] by auto
    then have "merkleRoot H (face_hashes f) = merkleRoot H (face_hashes g)" using fg(3) by (auto simp del: not_None_eq)
    moreover have "inj_on H (merkle_texts H (face_hashes f) \<union> merkle_texts H (face_hashes g))"
      by (rule inj_on_subset[OF assms(6)]) (use fg in blast)
    ultimately show "face_hashes f = face_hashes g"
      using merkle_inj[OF assms(1), of "face_hashes f" "face_hashes g"] h9[OF fg(1)] h9[OF fg(2)] by auto
  qed
  then show ?thesis by (rule inj_on_image_eq_iff[THEN iffD1, OF _ _ _ img]) blast+
qed

lemma rank_nth: "k \<in> set ks \<Longrightarrow> rank_of ks k < length ks \<and> sort ks ! rank_of ks k = k"
proof -
  have "k \<in> set xs \<Longrightarrow> length (takeWhile (\<lambda>x. x \<noteq> k) xs) < length xs \<and> xs ! length (takeWhile (\<lambda>x. x \<noteq> k) xs) = k" for xs
    by (induction xs) auto
  moreover assume "k \<in> set ks"
  ultimately show ?thesis unfolding rank_of_def by (metis length_sort set_sort)
qed

lemma ranks_distinct: "distinct ks \<Longrightarrow> distinct (map (rank_of ks) ks)"
  by (auto simp: distinct_map inj_on_def) (metis rank_nth)

lemma placed_roots_distinct:
  assumes "verifyCube H D opts payload i = Inr v"
  shows "distinct (vf_faceRoots v)"
proof -
  obtain fs where fs: "getp payload ''faces'' = JArr fs" "length fs = 3" "\<exists>p. verifyPlacement H (JObj [(''faces'', JArr fs)]) = Inr p"
    using verifyCubeD[OF assms] by metis
  have f: "faces_of payload = fs" using fs(1) by (simp add: faces_of_def)
  note vf = verified_faces[OF assms]
  have dr: "derive_faces H 3 n gs = Inr ds \<Longrightarrow> (\<forall>g \<in> set gs. \<exists>r. check_face H D g = Inr r) \<Longrightarrow>
      map df_root ds = map (\<lambda>f. the (merkleRoot H (face_hashes f))) gs" for n gs ds
  proof (induction gs arbitrary: n ds)
    case (Cons g gs)
    obtain d es where d: "derive_face H 3 n g = Inr d" "derive_faces H 3 (Suc n) gs = Inr es" "ds = d # es"
      using Cons.prems(1) by (auto split: sum.splits)
    obtain r where r: "check_face H D g = Inr r" using Cons.prems(2) by auto
    have l: "length (blocks_of g) = 9" using check_faceD[OF r] by blast
    then have bs: "getp g ''blocks'' = JArr (blocks_of g)" by (auto simp: blocks_of_def split: jsval.splits)
    have k: "map (the \<circ> block_key) (blocks_of g) = map hash_of (blocks_of g)"
      by (rule map_cong[OF refl]) (use certified_block[OF r] in \<open>simp add: block_key_def\<close>)
    have "df_root d = the (merkleRoot H (sort (map (the \<circ> block_key) (blocks_of g))))"
      using d(1) bs l by (auto simp: derive_face_def face_blocks_def Let_def faceRootOf_def face_size_def split: if_splits)
    then have "df_root d = the (merkleRoot H (face_hashes g))" unfolding k face_hashes_def .
    then show ?case using Cons.IH[OF d(2)] Cons.prems(2) d(3) by simp
  qed simp
  obtain ds where ds: "derive_faces H 3 0 fs = Inr ds" "distinct (map df_root ds)"
    using fs by (auto simp: verifyPlacement_def cube_slots_def Let_def split: if_splits sum.splits)
  then show ?thesis using dr[OF ds(1)] vf unfolding f by simp
qed

definition places :: "adopted_block list \<Rightarrow> (int \<times> int) list" where
  "places bs = map (\<lambda>b. (faceIndex (ab_location b), position (ab_location b))) bs"

lemma adopt_face_places:
  "places (adopt_face H v ctx bs) = map (\<lambda>p. (int (rank_of (vf_faceRoots v) (the (merkleRoot H (sort (map hash_of bs))))), int p)) [0..<length bs]"
proof -
  show ?thesis
    unfolding places_def adopt_face_def Let_def sync_faceRootOf_def
    using map_enumerate(1)[of "\<lambda>p. (int (rank_of (vf_faceRoots v) (the (merkleRoot H (sort (map hash_of bs))))), int p)" 0 "sort_key hash_of bs"]
    by (simp add: comp_def split_def)
qed

lemma adopt_face_hashes: "map ab_hash (adopt_face H v ctx bs) = sort (map hash_of bs)"
proof -
  have "map ab_hash (adopt_face H v ctx bs) = map hash_of (sort_key hash_of bs)"
    unfolding adopt_face_def Let_def by (simp add: comp_def split_def map_enumerate)
  then show ?thesis by (simp add: map_sort_key)
qed

definition adopted_well :: "verified \<Rightarrow> jsval list \<Rightarrow> adopt_ctx \<Rightarrow> adoption option \<Rightarrow> bool" where
  "adopted_well v faces ctx plan = (case plan of
      None \<Rightarrow> vf_id v \<in> set (haveCubeIds ctx)
    | Some a \<Rightarrow> vf_id v \<notin> set (haveCubeIds ctx) \<and> length (ad_blocks a) = 27 \<and> distinct (places (ad_blocks a)) \<and>
        set (map ab_hash (ad_blocks a)) = \<Union> (set ` face_hashes ` set faces) \<and>
        set (ad_evict a) = set (map ab_hash (ad_blocks a)) \<inter> set (membershipPool ctx) \<and>
        \<not> ad_countTowardRecursion a \<and> \<not> ad_admitToMempool a)"

lemma verified_adopts:
  assumes "verifyCube H D opts payload i = Inr v"
  shows "adopted_well v (faces_of payload) ctx (planAdoption H v (faces_of payload) ctx)"
proof (cases "vf_id v \<in> set (haveCubeIds ctx)")
  case True
  then show ?thesis by (simp add: planAdoption_def adopted_well_def)
next
  case False
  note vf = verified_faces[OF assms]
  let ?bs = "concat (map (adopt_face H v ctx \<circ> blocks_of) (faces_of payload))"
  let ?rk = "\<lambda>f. rank_of (vf_faceRoots v) (the (merkleRoot H (face_hashes f)))"
  have nine: "length (blocks_of f) = 9" if fin: "f \<in> set (faces_of payload)" for f
    using vf fin check_faceD by blast
  have pl: "places ?bs = concat (map (\<lambda>f. map (\<lambda>p. (int (?rk f), int p)) [0..<9]) (faces_of payload))"
  proof -
    have "places ?bs = concat (map (\<lambda>f. places (adopt_face H v ctx (blocks_of f))) (faces_of payload))"
      by (simp add: places_def map_concat comp_def)
    also have "\<dots> = concat (map (\<lambda>f. map (\<lambda>p. (int (?rk f), int p)) [0..<9]) (faces_of payload))"
      by (intro arg_cong[of _ _ concat] map_cong refl) (simp add: adopt_face_places nine face_hashes_def)
    finally show ?thesis .
  qed
  have dr: "distinct (map ?rk (faces_of payload))"
    using ranks_distinct[OF placed_roots_distinct[OF assms]] vf by (simp add: comp_def)
  have dist: "distinct (map ?rk fs) \<Longrightarrow> distinct (concat (map (\<lambda>f. map (\<lambda>p. (int (?rk f), int p)) [0..<9]) fs))" for fs
    by (induction fs) (auto simp: distinct_map inj_on_def)
  have "length ?bs = length (places ?bs)" by (simp add: places_def)
  also have "\<dots> = 27" using vf unfolding pl by (simp add: length_concat comp_def sum_list_triv)
  finally have len: "length ?bs = 27" .
  have "map ab_hash ?bs = concat (map face_hashes (faces_of payload))"
    by (simp add: map_concat comp_def adopt_face_hashes face_hashes_def[abs_def])
  then have hs: "set (map ab_hash ?bs) = \<Union> (set ` face_hashes ` set (faces_of payload))" by simp
  have "distinct (places ?bs)" unfolding pl by (rule dist[OF dr])
  moreover have "set (filter (\<lambda>h. h \<in> P) xs) = set xs \<inter> P" for P and xs :: "string list" by auto
  moreover have "planAdoption H v (faces_of payload) ctx = Some \<lparr>ad_id = vf_id v, ad_root = vf_root v, ad_blocks = ?bs,
      ad_evict = filter (\<lambda>h. h \<in> set (membershipPool ctx)) (map ab_hash ?bs),
      ad_countTowardRecursion = False, ad_admitToMempool = False\<rparr>"
    using False by (simp only: planAdoption_def Let_def if_False)
  ultimately show ?thesis using False len hs unfolding adopted_well_def by (simp only: option.case adoption.simps) blast
qed

text \<open>Adopting a cube that verifies: a held cube is skipped; otherwise its 27 blocks take 27 different
  places, exactly the pooled ones among them are evicted, and nothing enters the recursion or the
  mempool.\<close>

lemma adoption_plan:
  "case verifyCube H D opts payload i of
     Inl e \<Rightarrow> True
   | Inr v \<Rightarrow> adopted_well v (faces_of payload) ctx (planAdoption H v (faces_of payload) ctx)"
  by (cases "verifyCube H D opts payload i") (simp_all add: verified_adopts)

text \<open>A node asks a peer only for cubes it lacks and was offered, at most the number in flight (and at
  least one when something is missing), lowest ids first.\<close>

lemma requests_bounded_and_missing:
  "set (diffWanted held peers n) \<subseteq> (the ` (id_text ` set peers - {None})) - set held \<and>
   length (diffWanted held peers n) \<le> max 1 n \<and> sorted (diffWanted held peers n) \<and>
   (diffWanted held peers n = [] \<longleftrightarrow> (the ` (id_text ` set peers - {None})) - set held = {})"
proof -
  let ?w = "filter (\<lambda>i. i \<notin> set held) (map the (filter (\<lambda>i. i \<noteq> None) (map id_text peers)))"
  have s: "set ?w = (the ` (id_text ` set peers - {None})) - set held" by auto
  have d: "diffWanted held peers n = take (max 1 n) (sort ?w)" by (simp only: diffWanted_def)
  have "set (diffWanted held peers n) \<subseteq> set ?w" unfolding d by (metis set_sort set_take_subset)
  moreover have "length (diffWanted held peers n) \<le> max 1 n" unfolding d by simp
  moreover have "sorted (diffWanted held peers n)" unfolding d by (rule sorted_wrt_take) simp
  moreover have "diffWanted held peers n = [] \<longleftrightarrow> set ?w = {}"
    unfolding d take_eq_Nil by (metis max_def not_one_le_zero set_empty set_sort zero_neq_one)
  ultimately show ?thesis unfolding s by (intro conjI)
qed

end
