(* ===== verification/Delegation.thy ===== *)
theory Delegation
  imports Micromine
begin

text \<open>
  \<open>identity/src/delegation.js\<close> and \<open>durable-nonce-registry.js\<close>: the chain root, coordinator, agent,
  action; the check of every hop; the registries that make an authorization single-use, in memory and
  over a table with a unique key.

  The signature scheme (\<open>sign\<close>, \<open>verify\<close>), the reading of a key text to bytes (\<open>Buffer.from(v, 'base64')\<close>)
  and the attestation verifier are parameters; \<open>None\<close> is a throw. Times are whole seconds. A text is read
  as a number where it is a plain integer.
\<close>

section \<open>Canonical text\<close>

definition opt_list :: "'a option list \<Rightarrow> 'a list option" where
  "opt_list xs = (if None \<in> set xs then None else Some (map the xs))"

text \<open>\<open>None\<close>: a BigInt, which \<open>JSON.stringify\<close> refuses. \<open>join\<close> writes an undefined element as the empty text.\<close>

fun dcanon :: "jsval \<Rightarrow> string option" where
  "dcanon JUndef = Some ''undefined''"
| "dcanon (JArr xs) = map_option (\<lambda>ss. ''['' @ join '','' ss @ '']'') (opt_list (map (\<lambda>x. if x = JUndef then Some [] else dcanon x) xs))"
| "dcanon (JObj kvs) = map_option (\<lambda>ss. ''{'' @ join '','' ss @ ''}'')
     (opt_list (map snd (sort_key fst (map (\<lambda>(k, v). (k, map_option (\<lambda>s. the (json_stringify (JStr k)) @ '':'' @ s) (dcanon v))) kvs))))"
| "dcanon v = json_stringify v"

record deleg_env =
  de_hash :: "string \<Rightarrow> string"
  de_bytes :: "jsval \<Rightarrow> string option"
  de_verify :: "string \<Rightarrow> jsval \<Rightarrow> jsval \<Rightarrow> bool option"

definition deriveAddress :: "deleg_env \<Rightarrow> jsval \<Rightarrow> string option" where
  "deriveAddress E pub = (if \<not> truthy pub then None
     else map_option (\<lambda>b. ''xmb'' @ take 40 (sha256hex (de_hash E) b)) (de_bytes E pub))"

definition pick_fields :: "string list \<Rightarrow> jsval \<Rightarrow> (string \<times> jsval) list" where
  "pick_fields ks g = map (\<lambda>k. (k, getp g k)) ks"

definition grantBody :: "jsval \<Rightarrow> jsval" where
  "grantBody g = JObj (pick_fields [''v'', ''root_address'', ''root_pub'', ''coordinator_address'', ''coordinator_pub''] g
     @ [(''tee'', nullish (getp g ''tee'') JNull)] @ pick_fields [''scope'', ''nbf'', ''exp'', ''nonce''] g)"

definition grantHash :: "deleg_env \<Rightarrow> jsval \<Rightarrow> string option" where
  "grantHash E g = map_option (\<lambda>s. ''grant_'' @ sha256hex (de_hash E) s) (dcanon (grantBody g))"

definition tokenBody :: "jsval \<Rightarrow> jsval" where
  "tokenBody t = JObj (pick_fields [''v'', ''grant_ref'', ''coordinator_pub'', ''agent_address'', ''agent_pub'',
     ''aud'', ''scope'', ''nbf'', ''exp'', ''nonce''] t)"

definition tokenHash :: "deleg_env \<Rightarrow> jsval \<Rightarrow> string option" where
  "tokenHash E t = map_option (\<lambda>s. ''zsp_'' @ sha256hex (de_hash E) s) (dcanon (tokenBody t))"

definition actionMessage :: "deleg_env \<Rightarrow> jsval \<Rightarrow> jsval \<Rightarrow> jsval \<Rightarrow> jsval \<Rightarrow> string option" where
  "actionMessage E t action args nonce = (case tokenHash E t of None \<Rightarrow> None
     | Some h \<Rightarrow> dcanon (JObj [(''token_ref'', JStr h), (''action'', action), (''args'', nullish args (JArr [])), (''nonce'', nonce)]))"

section \<open>Comparisons\<close>

text \<open>What \<open><\<close> reads a value as: an integer, a number strictly between \<open>n\<close> and \<open>n + 1\<close>, an infinity, or no
  number.\<close>

datatype jnum = NInt int | NFrac int | NInf bool | NNaN

definition text_num :: "string \<Rightarrow> jnum" where
  "text_num s = (if s = [] then NInt 0 else if all_digits s then NInt (int (read_nat s))
     else if hd s = CHR ''-'' \<and> all_digits (tl s) then NInt (- int (read_nat (tl s))) else NNaN)"

definition to_num :: "jsval \<Rightarrow> jnum" where
  "to_num v = (case v of
     JUndef \<Rightarrow> NNaN | JNull \<Rightarrow> NInt 0 | JBool b \<Rightarrow> NInt (if b then 1 else 0) | JInt n \<Rightarrow> NInt n | JBig n \<Rightarrow> NInt n
   | JFrac f \<Rightarrow> (let whole = (\<lambda>s. if CHR ''e'' \<in> set s then 0 else int (read_nat (takeWhile is_digit s))) in
       if f \<noteq> [] \<and> hd f = CHR ''-'' then NFrac (- whole (tl f) - 1) else NFrac (whole f))
   | JNaN \<Rightarrow> NNaN | JInf neg \<Rightarrow> NInf neg | JStr s \<Rightarrow> text_num s | JArr xs \<Rightarrow> text_num (js_string v) | JObj kvs \<Rightarrow> NNaN)"

text \<open>\<open>t < v\<close> and \<open>t > v\<close> for a whole \<open>t\<close>.\<close>

fun below :: "int \<Rightarrow> jnum \<Rightarrow> bool" where
  "below t (NInt n) = (t < n)"
| "below t (NFrac n) = (t \<le> n)"
| "below t (NInf neg) = (\<not> neg)"
| "below t NNaN = False"

fun past :: "int \<Rightarrow> jnum \<Rightarrow> bool" where
  "past t (NInt n) = (n < t)"
| "past t (NFrac n) = (n < t)"
| "past t (NInf neg) = neg"
| "past t NNaN = False"

text \<open>\<open>===\<close> between values of different origin: two objects are never the same.\<close>

definition strict_eq :: "jsval \<Rightarrow> jsval \<Rightarrow> bool" where
  "strict_eq a b \<longleftrightarrow> a = b \<and> \<not> is_object a \<and> a \<noteq> JNaN"

fun substring_of :: "string \<Rightarrow> string \<Rightarrow> bool" where
  "substring_of p [] = (p = [])"
| "substring_of p (c # s) = (starts_with (c # s) p \<or> substring_of p s)"

text \<open>\<open>b.includes(x)\<close> on an array or a text.\<close>

definition js_includes :: "jsval \<Rightarrow> jsval \<Rightarrow> bool option" where
  "js_includes b x = (case b of
     JArr ys \<Rightarrow> Some (x \<in> set ys \<and> \<not> is_object x) | JStr s \<Rightarrow> Some (substring_of (js_string x) s) | _ \<Rightarrow> None)"

fun every_in :: "jsval list \<Rightarrow> jsval \<Rightarrow> bool option" where
  "every_in [] b = Some True"
| "every_in (x # xs) b = (case js_includes b x of None \<Rightarrow> None | Some False \<Rightarrow> Some False | Some True \<Rightarrow> every_in xs b)"

definition subset_scope :: "jsval \<Rightarrow> jsval \<Rightarrow> bool option" where
  "subset_scope a b = (case a of JArr xs \<Rightarrow> every_in xs b | _ \<Rightarrow> None)"

section \<open>The check of a presentation\<close>

record deleg_policy =
  dp_root :: jsval
  dp_now :: int
  dp_aud :: jsval
  dp_attest :: "jsval \<Rightarrow> bool option"
  dp_require :: bool
  dp_revoked :: "(string \<Rightarrow> bool) option"

datatype chain_fail =
    MalformedPresentation | GrantSig | GrantRootAddress | UntrustedRoot | GrantNotYetValid | GrantExpired
  | TokenSig | TokenCoordinatorMismatch | TokenCoordinatorAddress | TokenGrantRef | TokenNotYetValid | TokenExpired
  | ScopeExceedsGrant | ActionOutOfScope | AudMismatch | TokenAgentAddress | Revoked | TeeUnattested
  | ActionUnsigned | ActionNonceMissing | ActionSig | ActionReplayed

datatype chain_outcome = Threw | Refuse chain_fail | Passed string string bool

text \<open>One check: a throw, the refusal when the condition holds, else the rest.\<close>

definition fail_if :: "bool option \<Rightarrow> chain_fail \<Rightarrow> chain_outcome \<Rightarrow> chain_outcome" where
  "fail_if c r k = (case c of None \<Rightarrow> Threw | Some True \<Rightarrow> Refuse r | Some False \<Rightarrow> k)"

definition bad_sig :: "deleg_env \<Rightarrow> string option \<Rightarrow> jsval \<Rightarrow> jsval \<Rightarrow> bool option" where
  "bad_sig E m s pub = (case m of None \<Rightarrow> None | Some x \<Rightarrow> map_option Not (de_verify E x s pub))"

definition bad_address :: "deleg_env \<Rightarrow> jsval \<Rightarrow> jsval \<Rightarrow> bool option" where
  "bad_address E pub a = map_option (\<lambda>d. JStr d \<noteq> a) (deriveAddress E pub)"

definition verifyChain :: "deleg_env \<Rightarrow> deleg_policy \<Rightarrow> jsval \<Rightarrow> chain_outcome" where
  "verifyChain E P pres =
     (let g = getp pres ''grant''; t = getp pres ''token''; action = getp pres ''action''; args = getp pres ''args'';
          actionSig = getp pres ''actionSig''; nonce = getp pres ''nonce''; now = dp_now P in
      fail_if (Some (\<not> truthy g \<or> \<not> truthy t)) MalformedPresentation (
      fail_if (bad_sig E (dcanon (grantBody g)) (getp g ''sig'') (getp g ''root_pub'')) GrantSig (
      fail_if (bad_address E (getp g ''root_pub'') (getp g ''root_address'')) GrantRootAddress (
      fail_if (Some (\<not> strict_eq (getp g ''root_address'') (dp_root P))) UntrustedRoot (
      fail_if (Some (below now (to_num (getp g ''nbf'')))) GrantNotYetValid (
      fail_if (Some (past now (to_num (getp g ''exp'')))) GrantExpired (
      fail_if (bad_sig E (dcanon (tokenBody t)) (getp t ''sig'') (getp t ''coordinator_pub'')) TokenSig (
      fail_if (Some (\<not> strict_eq (getp t ''coordinator_pub'') (getp g ''coordinator_pub''))) TokenCoordinatorMismatch (
      fail_if (bad_address E (getp t ''coordinator_pub'') (getp g ''coordinator_address'')) TokenCoordinatorAddress (
      fail_if (map_option (\<lambda>h. getp t ''grant_ref'' \<noteq> JStr h) (grantHash E g)) TokenGrantRef (
      fail_if (Some (below now (to_num (getp t ''nbf'')))) TokenNotYetValid (
      fail_if (Some (past now (to_num (getp t ''exp'')))) TokenExpired (
      fail_if (map_option Not (subset_scope (getp t ''scope'') (getp g ''scope''))) ScopeExceedsGrant (
      fail_if (map_option Not (js_includes (getp t ''scope'') action)) ActionOutOfScope (
      fail_if (Some (dp_aud P \<noteq> JUndef \<and> \<not> strict_eq (getp t ''aud'') (dp_aud P))) AudMismatch (
      fail_if (bad_address E (getp t ''agent_pub'') (getp t ''agent_address'')) TokenAgentAddress (
      fail_if (case dp_revoked P of None \<Rightarrow> Some False | Some burned \<Rightarrow> map_option burned (tokenHash E t)) Revoked (
      fail_if (map_option (\<lambda>attested. dp_require P \<and> \<not> attested) (dp_attest P (getp g ''tee''))) TeeUnattested (
      fail_if (Some (\<not> truthy actionSig)) ActionUnsigned (
      fail_if (Some (\<not> truthy nonce \<or> \<not> is_string nonce)) ActionNonceMissing (
      fail_if (bad_sig E (actionMessage E t action args nonce) actionSig (getp t ''agent_pub'')) ActionSig (
      case (tokenHash E t, nonce, dp_attest P (getp g ''tee'')) of
        (Some h, JStr n, Some attested) \<Rightarrow> Passed h n attested
      | _ \<Rightarrow> Threw))))))))))))))))))))))"

section \<open>Minting\<close>

text \<open>An identity: its address, its public and its private key. \<open>sign\<close> is the signer's; a nonce and a
  not-before that the caller left out are drawn before the call.\<close>

record identity =
  id_address :: string
  id_pub :: jsval
  id_priv :: jsval

definition signed :: "(string \<Rightarrow> jsval \<Rightarrow> jsval option) \<Rightarrow> identity \<Rightarrow> jsval \<Rightarrow> jsval option" where
  "signed sign who body = (case dcanon body of None \<Rightarrow> None
     | Some m \<Rightarrow> map_option (\<lambda>s. JObj (jset (obj_entries body) ''sig'' s)) (sign m (id_priv who)))"

definition mintGrant ::
  "deleg_env \<Rightarrow> (string \<Rightarrow> jsval \<Rightarrow> jsval option) \<Rightarrow> identity \<Rightarrow> jsval \<Rightarrow> jsval list \<Rightarrow> jsval \<Rightarrow> jsval \<Rightarrow> int \<Rightarrow> string \<Rightarrow> jsval option" where
  "mintGrant E sign root coordinatorPub scope exp tee nbf nonce = (case deriveAddress E coordinatorPub of None \<Rightarrow> None
     | Some a \<Rightarrow> signed sign root (JObj [(''v'', JInt 1), (''root_address'', JStr (id_address root)), (''root_pub'', id_pub root),
         (''coordinator_address'', JStr a), (''coordinator_pub'', coordinatorPub), (''tee'', nullish tee JNull), (''scope'', JArr scope),
         (''nbf'', JInt nbf), (''exp'', exp), (''nonce'', JStr nonce)]))"

text \<open>\<open>ttl | 0\<close>: the 32-bit signed integer of \<open>ttl\<close>.\<close>

definition to_int32 :: "int \<Rightarrow> int" where
  "to_int32 n = (n + 2 ^ 31) mod 2 ^ 32 - 2 ^ 31"

definition mintZspToken ::
  "deleg_env \<Rightarrow> (string \<Rightarrow> jsval \<Rightarrow> jsval option) \<Rightarrow> identity \<Rightarrow> jsval \<Rightarrow> jsval \<Rightarrow> jsval \<Rightarrow> jsval list \<Rightarrow> int \<Rightarrow> int \<Rightarrow> string
    \<Rightarrow> jsval option" where
  "mintZspToken E sign coordinator grant agentPub aud scope ttl nbf nonce =
     (case (grantHash E grant, deriveAddress E agentPub) of
        (Some h, Some a) \<Rightarrow> signed sign coordinator (JObj [(''v'', JInt 1), (''grant_ref'', JStr h), (''coordinator_pub'', id_pub coordinator),
          (''agent_address'', JStr a), (''agent_pub'', agentPub), (''aud'', aud), (''scope'', JArr scope), (''nbf'', JInt nbf),
          (''exp'', JInt (nbf + to_int32 ttl)), (''nonce'', JStr nonce)])
      | _ \<Rightarrow> None)"

definition signAction ::
  "deleg_env \<Rightarrow> (string \<Rightarrow> jsval \<Rightarrow> jsval option) \<Rightarrow> identity \<Rightarrow> jsval \<Rightarrow> jsval \<Rightarrow> jsval \<Rightarrow> string \<Rightarrow> jsval option" where
  "signAction E sign agent token action args nonce =
     (case actionMessage E token action args (JStr nonce) of None \<Rightarrow> None | Some m \<Rightarrow> sign m (id_priv agent))"

definition presentation :: "jsval \<Rightarrow> jsval \<Rightarrow> jsval \<Rightarrow> jsval \<Rightarrow> jsval \<Rightarrow> string \<Rightarrow> jsval" where
  "presentation grant token action args sig nonce = JObj [(''grant'', grant), (''token'', token), (''action'', action), (''args'', args),
     (''actionSig'', sig), (''nonce'', JStr nonce)]"

section \<open>Revocation and single use\<close>

type_synonym revocation_set = "string set"

definition burn :: "deleg_env \<Rightarrow> jsval \<Rightarrow> revocation_set \<Rightarrow> revocation_set option" where
  "burn E t s = (case t of JStr h \<Rightarrow> Some (insert h s) | _ \<Rightarrow> map_option (\<lambda>h. insert h s) (tokenHash E t))"

definition isRevoked :: "revocation_set \<Rightarrow> string \<Rightarrow> bool" where
  "isRevoked s h \<longleftrightarrow> h \<in> s"

record nonce_registry =
  nr_used :: "(string, jsval) jmap"
  nr_sweepAt :: nat

definition new_registry :: nonce_registry where
  "new_registry = \<lparr>nr_used = [], nr_sweepAt = 0\<rparr>"

definition nonce_key :: "string \<Rightarrow> string \<Rightarrow> string" where
  "nonce_key h n = h @ '':'' @ n"

definition maybeSweep :: "int \<Rightarrow> nonce_registry \<Rightarrow> nonce_registry" where
  "maybeSweep now r =
     (if length (nr_used r) < nr_sweepAt r then r
      else (let live = filter (\<lambda>(k, e). \<not> (truthy e \<and> past now (to_num e))) (nr_used r)
            in \<lparr>nr_used = live, nr_sweepAt = length live + 1024\<rparr>))"

definition nonce_consume :: "string \<Rightarrow> jsval \<Rightarrow> int \<Rightarrow> nonce_registry \<Rightarrow> bool \<times> nonce_registry" where
  "nonce_consume k exp now r =
     (if jhas (nr_used r) k then (False, r)
      else (True, maybeSweep now (r\<lparr>nr_used := jset (nr_used r) k (js_or exp (JInt 0))\<rparr>)))"

definition nonce_has :: "string \<Rightarrow> string \<Rightarrow> nonce_registry \<Rightarrow> bool" where
  "nonce_has h n r = jhas (nr_used r) (nonce_key h n)"

text \<open>The table shared by the connections of \<open>DurableNonceRegistry\<close>, with the count of one connection. An
  expiry is stored rounded down, 0 for none; rounding a BigInt throws.\<close>

record durable_registry =
  dr_rows :: "(string, jnum) jmap"
  dr_since :: nat
  dr_every :: nat

definition stored_exp :: "jsval \<Rightarrow> jnum option" where
  "stored_exp v = (case v of JBig n \<Rightarrow> None
     | _ \<Rightarrow> Some (case to_num v of NInt n \<Rightarrow> NInt n | NFrac n \<Rightarrow> NInt n | NInf b \<Rightarrow> NInf b | NNaN \<Rightarrow> NInt 0))"

definition sweepExpired :: "int \<Rightarrow> durable_registry \<Rightarrow> nat \<times> durable_registry" where
  "sweepExpired now r =
     (let live = filter (\<lambda>(k, e). \<not> (e \<noteq> NInt 0 \<and> past now e)) (dr_rows r)
      in (length (dr_rows r) - length live, r\<lparr>dr_rows := live\<rparr>))"

definition durable_consume :: "string \<Rightarrow> jsval \<Rightarrow> int \<Rightarrow> durable_registry \<Rightarrow> bool option \<times> durable_registry" where
  "durable_consume k exp now r =
     (case stored_exp exp of None \<Rightarrow> (None, r)
      | Some e \<Rightarrow>
          if jhas (dr_rows r) k then (Some False, r)
          else (let r1 = r\<lparr>dr_rows := jset (dr_rows r) k e, dr_since := Suc (dr_since r)\<rparr> in
                (Some True, if dr_every r \<le> dr_since r1 then snd (sweepExpired now (r1\<lparr>dr_since := 0\<rparr>)) else r1)))"

definition durable_has :: "string \<Rightarrow> string \<Rightarrow> durable_registry \<Rightarrow> bool" where
  "durable_has h n r = jhas (dr_rows r) (nonce_key h n)"

text \<open>\<open>makeAuthorizer\<close> over a registry given by its \<open>consume\<close>; \<open>clock\<close> is the time the registry reads.\<close>

definition authorize ::
  "(string \<Rightarrow> jsval \<Rightarrow> int \<Rightarrow> 'r \<Rightarrow> bool option \<times> 'r) \<Rightarrow> deleg_env \<Rightarrow> deleg_policy \<Rightarrow> int \<Rightarrow> jsval \<Rightarrow> 'r \<Rightarrow> chain_outcome \<times> 'r" where
  "authorize consume E P clock pres r =
     (case verifyChain E P pres of
        Passed h n attested \<Rightarrow>
          (case consume (nonce_key h n) (getp (getp pres ''token'') ''exp'') clock r of
             (None, r') \<Rightarrow> (Threw, r') | (Some False, r') \<Rightarrow> (Refuse ActionReplayed, r') | (Some True, r') \<Rightarrow> (Passed h n attested, r'))
      | other \<Rightarrow> (other, r))"

definition memory_consume :: "string \<Rightarrow> jsval \<Rightarrow> int \<Rightarrow> nonce_registry \<Rightarrow> bool option \<times> nonce_registry" where
  "memory_consume k e t r = (let (won, r') = nonce_consume k e t r in (Some won, r'))"

end
