(* ===== verification/CubeSyncManager.thy ===== *)
theory CubeSyncManager
  imports LedgerDoors CubeSync Delegation
begin

text \<open>
  \<open>cube-sync-manager.js\<close>: the protocol that moves cubes between nodes, over the ledger's rows and the checks
  of \<open>cube-sync.js\<close>. Three topics: a digest of the cubes held, the list of them, one cube with its
  blocks. A handler is one step; \<open>sm_out\<close> is what was published. Rows the ledger writes have text ids
  and roots and plain face indices.
\<close>

section \<open>State\<close>

datatype sync_topic = TOPIC_DIGEST | TOPIC_LIST | TOPIC_CUBE

record sync_stats =
  ss_advertised :: nat
  ss_listsServed :: nat
  ss_cubesServed :: nat
  ss_cubesFetched :: nat
  ss_adopted :: nat
  ss_rejected :: nat

record sync_manager =
  sm_node :: string
  sm_maxInFlight :: nat
  sm_pendingTtl :: int
  sm_maxAttempts :: nat
  sm_meshUp :: bool
  sm_pending :: "(string, int) jmap"
  sm_unservable :: "(string, nat) jmap"
  sm_stats :: sync_stats
  sm_out :: "(sync_topic \<times> jsval) list"
  sm_ledger :: ledger

definition new_sync_manager :: "string \<Rightarrow> nat \<Rightarrow> int \<Rightarrow> nat \<Rightarrow> ledger \<Rightarrow> sync_manager" where
  "new_sync_manager node inFlight ttl attempts lg = \<lparr>sm_node = node, sm_maxInFlight = inFlight, sm_pendingTtl = ttl,
     sm_maxAttempts = attempts, sm_meshUp = True, sm_pending = [], sm_unservable = [],
     sm_stats = \<lparr>ss_advertised = 0, ss_listsServed = 0, ss_cubesServed = 0, ss_cubesFetched = 0, ss_adopted = 0, ss_rejected = 0\<rparr>,
     sm_out = [], sm_ledger = lg\<rparr>"

definition sync_pub :: "sync_topic \<Rightarrow> jsval \<Rightarrow> sync_manager \<Rightarrow> sync_manager" where
  "sync_pub topic msg sm = (if sm_meshUp sm then sm\<lparr>sm_out := sm_out sm @ [(topic, msg)]\<rparr> else sm)"

definition count_stat :: "(sync_stats \<Rightarrow> sync_stats) \<Rightarrow> sync_manager \<Rightarrow> sync_manager" where
  "count_stat f sm = sm\<lparr>sm_stats := f (sm_stats sm)\<rparr>"

section \<open>The inventory\<close>

definition held_row :: "jsval \<Rightarrow> (string \<times> string) list" where
  "held_row row = (case (getp row ''id'', getp row ''merkleRoot'') of
     (JStr i, JStr r) \<Rightarrow> if i \<noteq> [] \<and> r \<noteq> [] then [(i, r)] else [] | _ \<Rightarrow> [])"

definition localCubes :: "ledger \<Rightarrow> (string \<times> string) list" where
  "localCubes lg = (if lg_open lg then sort_key fst (concat (map held_row (jvalues (sort_key fst (lg_cuberows lg))))) else [])"

definition cube_list :: "(string \<times> string) list \<Rightarrow> jsval" where
  "cube_list cs = JArr (map (\<lambda>(i, r). JObj [(''id'', JStr i), (''merkleRoot'', JStr r)]) cs)"

definition row_cube :: "jsval \<Rightarrow> jsval" where
  "row_cube b = getp (getp b ''location'') ''cubeIndex''"

definition row_face :: "jsval \<Rightarrow> jsval" where
  "row_face b = getp (getp b ''location'') ''faceIndex''"

definition row_member :: "jsval \<Rightarrow> jsval" where
  "row_member b = JObj [(''hash'', getp b ''hash''), (''tx'', getp b ''tx'')]"

text \<open>The parsed rows located in the cube, in key order, and the members by face in the order faces appear.\<close>

definition cube_rows_of :: "jsval \<Rightarrow> ledger \<Rightarrow> jsval list" where
  "cube_rows_of cid lg =
     filter (\<lambda>b. strict_eq (row_cube b) cid) (concat (map (\<lambda>r. case r of None \<Rightarrow> [] | Some b \<Rightarrow> [b]) (jvalues (sort_key fst (lg_blockrows lg)))))"

definition push_row :: "jsval \<Rightarrow> (jsval, jsval list) jmap \<Rightarrow> (jsval, jsval list) jmap" where
  "push_row b m = jset m (row_face b) ((case jget m (row_face b) of Some bs \<Rightarrow> bs | None \<Rightarrow> []) @ [row_member b])"

text \<open>\<open>sort()\<close> of the keys: by their text, undefined last.\<close>

definition sorted_faces :: "jsval list \<Rightarrow> jsval list" where
  "sorted_faces ks = sort_key js_string (filter (\<lambda>k. k \<noteq> JUndef) ks) @ filter (\<lambda>k. k = JUndef) ks"

definition buildPayload :: "jsval \<Rightarrow> ledger \<Rightarrow> jsval list option" where
  "buildPayload cid lg =
     (if \<not> lg_open lg then None
      else (let byFace = fold push_row (cube_rows_of cid lg) [] in
        if length byFace \<noteq> 3 then None
        else (let groups = map (\<lambda>k. the (jget byFace k)) (sorted_faces (jkeys byFace)) in
          if \<exists>g \<in> set groups. length g \<noteq> 9 then None
          else Some (map (\<lambda>g. JObj [(''blocks'', JArr g)]) groups))))"

section \<open>Requests in flight\<close>

definition attempts_of :: "string \<Rightarrow> sync_manager \<Rightarrow> nat" where
  "attempts_of i sm = (case jget (sm_unservable sm) i of Some n \<Rightarrow> n | None \<Rightarrow> 0)"

definition expire_one :: "int \<Rightarrow> string \<times> int \<Rightarrow> sync_manager \<Rightarrow> sync_manager" where
  "expire_one now r sm =
     (case r of (i, at) \<Rightarrow>
       if now - at < sm_pendingTtl sm then sm
       else sm\<lparr>sm_pending := jdel (sm_pending sm) i, sm_unservable := jset (sm_unservable sm) i (attempts_of i sm + 1)\<rparr>)"

definition expirePending :: "int \<Rightarrow> sync_manager \<Rightarrow> sync_manager" where
  "expirePending now sm = fold (expire_one now) (sm_pending sm) sm"

definition advertise :: "(string \<Rightarrow> string) \<Rightarrow> int \<Rightarrow> sync_manager \<Rightarrow> sync_manager" where
  "advertise H now sm0 =
     (let sm = expirePending now sm0; cubes = localCubes (sm_ledger sm) in
      sync_pub TOPIC_DIGEST (JObj [(''nodeId'', JStr (sm_node sm)), (''count'', JInt (int (length cubes))), (''digest'', JStr (setDigest H cubes))])
        (count_stat (\<lambda>s. s\<lparr>ss_advertised := ss_advertised s + 1\<rparr>) sm))"

section \<open>Handlers\<close>

definition own_or_empty :: "jsval \<Rightarrow> sync_manager \<Rightarrow> bool" where
  "own_or_empty m sm \<longleftrightarrow> \<not> truthy m \<or> getp m ''nodeId'' = JStr (sm_node sm)"

definition asked_by_other :: "jsval \<Rightarrow> sync_manager \<Rightarrow> bool" where
  "asked_by_other m sm \<longleftrightarrow> truthy (getp m ''req'') \<and> getp m ''req'' \<noteq> JStr (sm_node sm)"

definition onDigest :: "(string \<Rightarrow> string) \<Rightarrow> jsval \<Rightarrow> sync_manager \<Rightarrow> sync_manager" where
  "onDigest H m sm =
     (if own_or_empty m sm then sm
      else if getp m ''digest'' = JStr (setDigest H (localCubes (sm_ledger sm))) then sm
      else sync_pub TOPIC_LIST (JObj [(''req'', JStr (sm_node sm)), (''to'', getp m ''nodeId'')]) sm)"

definition request_one :: "int \<Rightarrow> string \<Rightarrow> sync_manager \<Rightarrow> sync_manager" where
  "request_one now i sm =
     (if jhas (sm_pending sm) i then sm
      else sync_pub TOPIC_CUBE (JObj [(''req'', JStr (sm_node sm)), (''id'', JStr i)]) (sm\<lparr>sm_pending := jset (sm_pending sm) i now\<rparr>))"

definition missing_cubes :: "string list \<Rightarrow> jsval list \<Rightarrow> jsval list" where
  "missing_cubes own cs = filter (\<lambda>c. case id_text c of Some i \<Rightarrow> i \<notin> set own | None \<Rightarrow> False) cs"

definition request_pool :: "jsval list \<Rightarrow> sync_manager \<Rightarrow> jsval list" where
  "request_pool missing sm =
     (let fresh = filter (\<lambda>c. \<not> jhas (sm_unservable sm) (the (id_text c))) missing in
      if fresh \<noteq> [] then fresh else filter (\<lambda>c. attempts_of (the (id_text c)) sm < sm_maxAttempts sm) missing)"

definition onList :: "int \<Rightarrow> jsval \<Rightarrow> sync_manager \<Rightarrow> sync_manager" where
  "onList now m sm =
     (if own_or_empty m sm then sm
      else if asked_by_other m sm then
        sync_pub TOPIC_LIST (JObj [(''nodeId'', JStr (sm_node sm)), (''cubes'', cube_list (localCubes (sm_ledger sm)))])
          (count_stat (\<lambda>s. s\<lparr>ss_listsServed := ss_listsServed s + 1\<rparr>) sm)
      else (case getp m ''cubes'' of
          JArr cs \<Rightarrow>
            (let sm1 = expirePending now sm; own = map fst (localCubes (sm_ledger sm1));
                 pool = request_pool (missing_cubes own cs) sm1; slots = sm_maxInFlight sm1 - length (sm_pending sm1)
             in fold (request_one now) (diffWanted own pool slots) sm1)
        | _ \<Rightarrow> sm))"

definition adopted_cube_row :: "adoption \<Rightarrow> jsval" where
  "adopted_cube_row a = JObj [(''id'', JStr (ad_id a)), (''merkleRoot'', JStr (ad_root a)),
     (''faces'', JArr [JInt 0, JInt 1, JInt 2]), (''level'', JInt 1), (''adopted'', JBool True)]"

definition adopted_block_row :: "adopted_block \<Rightarrow> jsval" where
  "adopted_block_row b = json_norm (JObj [(''id'', JStr (take 16 (ab_hash b))), (''hash'', JStr (ab_hash b)), (''tx'', ab_tx b),
     (''location'', loc_json (ab_location b)), (''level'', JInt 1), (''adopted'', JBool True)])"

definition put_adopted :: "adopted_block \<Rightarrow> ledger \<Rightarrow> ledger" where
  "put_adopted b lg = lg\<lparr>lg_blockrows := jset (lg_blockrows lg) (take 16 (ab_hash b)) (Some (adopted_block_row b))\<rparr>"

definition sync_ctx :: "ledger \<Rightarrow> adopt_ctx" where
  "sync_ctx lg = \<lparr>haveCubeIds = map fst (localCubes lg), membershipPool = map b_hash (lg_pool lg), knownBlockHashes = [],
     nextSeq = int (card (set (map fst (localCubes lg))))\<rparr>"

definition adopt_into :: "adoption \<Rightarrow> ledger \<Rightarrow> ledger" where
  "adopt_into a lg =
     (let lg1 = fold put_adopted (ad_blocks a) (lg\<lparr>lg_cuberows := jset (lg_cuberows lg) (ad_id a) (adopted_cube_row a)\<rparr>)
      in lg1\<lparr>lg_pool := filter (\<lambda>b. b_hash b \<notin> set (ad_evict a)) (lg_pool lg1)\<rparr>)"

text \<open>Over a closed store the first write throws and nothing is kept.\<close>

definition adopt_cube :: "(string \<Rightarrow> string) \<Rightarrow> verified \<Rightarrow> jsval list \<Rightarrow> sync_manager \<Rightarrow> sync_manager" where
  "adopt_cube H v faces sm =
     (case planAdoption H v faces (sync_ctx (sm_ledger sm)) of
        None \<Rightarrow> sm
      | Some a \<Rightarrow> if \<not> lg_open (sm_ledger sm) then sm
          else count_stat (\<lambda>s. s\<lparr>ss_adopted := ss_adopted s + 1\<rparr>) (sm\<lparr>sm_ledger := adopt_into a (sm_ledger sm)\<rparr>))"

definition no_opts :: sync_opts where
  "no_opts = \<lparr>validates = None, verifies = None\<rparr>"

text \<open>\<open>verifyCube(m, m.id)\<close>: an id that is no text matches no cube.\<close>

definition verify_claimed :: "(string \<Rightarrow> string) \<Rightarrow> (string \<Rightarrow> int option) \<Rightarrow> jsval \<Rightarrow> cube_refusal + verified" where
  "verify_claimed H D m =
     (case getp m ''id'' of
        JStr i \<Rightarrow> verifyCube H D no_opts m i
      | _ \<Rightarrow> (case verifyCube H D no_opts m [] of Inr v \<Rightarrow> Inl IdMismatch | Inl e \<Rightarrow> Inl e))"

definition forget_pending :: "jsval \<Rightarrow> sync_manager \<Rightarrow> sync_manager" where
  "forget_pending i sm = (case i of JStr s \<Rightarrow> sm\<lparr>sm_pending := jdel (sm_pending sm) s\<rparr> | _ \<Rightarrow> sm)"

definition onCube :: "(string \<Rightarrow> string) \<Rightarrow> (string \<Rightarrow> int option) \<Rightarrow> jsval \<Rightarrow> sync_manager \<Rightarrow> sync_manager" where
  "onCube H D m sm =
     (if own_or_empty m sm then sm
      else if asked_by_other m sm \<and> truthy (getp m ''id'') then
        (case buildPayload (getp m ''id'') (sm_ledger sm) of
           None \<Rightarrow> sm
         | Some fs \<Rightarrow> sync_pub TOPIC_CUBE (JObj [(''nodeId'', JStr (sm_node sm)), (''id'', getp m ''id''), (''faces'', JArr fs)])
             (count_stat (\<lambda>s. s\<lparr>ss_cubesServed := ss_cubesServed s + 1\<rparr>) sm))
      else if \<not> truthy (getp m ''id'') \<or> \<not> is_array (getp m ''faces'') then sm
      else (let sm1 = count_stat (\<lambda>s. s\<lparr>ss_cubesFetched := ss_cubesFetched s + 1\<rparr>) (forget_pending (getp m ''id'') sm) in
        case verify_claimed H D m of
          Inl Throws \<Rightarrow> sm1
        | Inl e \<Rightarrow> count_stat (\<lambda>s. s\<lparr>ss_rejected := ss_rejected s + 1\<rparr>) sm1
        | Inr v \<Rightarrow> adopt_cube H v (faces_of m) sm1))"

section \<open>Runs\<close>

inductive sync_step :: "(string \<Rightarrow> string) \<Rightarrow> (string \<Rightarrow> int option) \<Rightarrow> sync_manager \<Rightarrow> sync_manager \<Rightarrow> bool" for H D where
  advertises: "sync_step H D sm (advertise H now sm)"
| hears_digest: "sync_step H D sm (onDigest H m sm)"
| hears_list: "sync_step H D sm (onList now m sm)"
| hears_cube: "sync_step H D sm (onCube H D m sm)"

inductive_cases sync_stepE: "sync_step H D sm sm'"

inductive sync_reach :: "(string \<Rightarrow> string) \<Rightarrow> (string \<Rightarrow> int option) \<Rightarrow> sync_manager \<Rightarrow> sync_manager \<Rightarrow> bool" for H D sm where
  here: "sync_reach H D sm sm"
| later: "sync_reach H D sm sm1 \<Longrightarrow> sync_step H D sm1 sm2 \<Longrightarrow> sync_reach H D sm sm2"

end
