(* ===== verification/CubeSyncProps.thy ===== *)
theory CubeSyncProps
  imports CubeSyncManager
begin

text \<open>
  What the cube exchange keeps: a node's cube rows are never displaced and every new one is certified by its
  content; requests are for missing cubes that have not failed too often, though the bound on requests
  in flight is not kept; and a cube that was adopted can be served on, and is accepted, as the same cube.
\<close>

section \<open>Frames\<close>

lemma pub_frame [simp]:
  "sm_ledger (sync_pub t m sm) = sm_ledger sm" "sm_pending (sync_pub t m sm) = sm_pending sm"
  "sm_unservable (sync_pub t m sm) = sm_unservable sm" "sm_maxAttempts (sync_pub t m sm) = sm_maxAttempts sm"
  "sm_node (sync_pub t m sm) = sm_node sm" "sm_maxInFlight (sync_pub t m sm) = sm_maxInFlight sm"
  "sm_pendingTtl (sync_pub t m sm) = sm_pendingTtl sm"
  by (simp_all add: sync_pub_def)

lemma count_frame [simp]:
  "sm_ledger (count_stat f sm) = sm_ledger sm" "sm_pending (count_stat f sm) = sm_pending sm"
  "sm_node (count_stat f sm) = sm_node sm" "sm_unservable (count_stat f sm) = sm_unservable sm"
  "sm_pendingTtl (count_stat f sm) = sm_pendingTtl sm"
  by (simp_all add: count_stat_def)

lemma expire_one_frame:
  "sm_ledger (expire_one now r sm) = sm_ledger sm \<and> sm_maxAttempts (expire_one now r sm) = sm_maxAttempts sm
   \<and> sm_node (expire_one now r sm) = sm_node sm \<and> sm_maxInFlight (expire_one now r sm) = sm_maxInFlight sm
   \<and> sm_pendingTtl (expire_one now r sm) = sm_pendingTtl sm \<and> sm_out (expire_one now r sm) = sm_out sm"
  by (simp add: expire_one_def split: prod.split)

lemma expire_frame [simp]:
  "sm_ledger (expirePending now sm) = sm_ledger sm" "sm_maxAttempts (expirePending now sm) = sm_maxAttempts sm"
  "sm_node (expirePending now sm) = sm_node sm" "sm_maxInFlight (expirePending now sm) = sm_maxInFlight sm"
  "sm_pendingTtl (expirePending now sm) = sm_pendingTtl sm" "sm_out (expirePending now sm) = sm_out sm"
proof -
  have "sm_ledger (fold (expire_one now) xs sm) = sm_ledger sm \<and> sm_maxAttempts (fold (expire_one now) xs sm) = sm_maxAttempts sm
    \<and> sm_node (fold (expire_one now) xs sm) = sm_node sm \<and> sm_maxInFlight (fold (expire_one now) xs sm) = sm_maxInFlight sm
    \<and> sm_pendingTtl (fold (expire_one now) xs sm) = sm_pendingTtl sm \<and> sm_out (fold (expire_one now) xs sm) = sm_out sm" for xs
    by (induction xs arbitrary: sm) (simp_all add: expire_one_frame)
  then show "sm_ledger (expirePending now sm) = sm_ledger sm" "sm_maxAttempts (expirePending now sm) = sm_maxAttempts sm"
    "sm_node (expirePending now sm) = sm_node sm" "sm_maxInFlight (expirePending now sm) = sm_maxInFlight sm"
    "sm_pendingTtl (expirePending now sm) = sm_pendingTtl sm" "sm_out (expirePending now sm) = sm_out sm"
    by (simp_all add: expirePending_def)
qed

lemma request_frame:
  "sm_ledger (request_one now i sm) = sm_ledger sm \<and> sm_unservable (request_one now i sm) = sm_unservable sm
   \<and> sm_node (request_one now i sm) = sm_node sm \<and> sm_pendingTtl (request_one now i sm) = sm_pendingTtl sm"
  by (simp add: request_one_def)

lemma requests_frame:
  "sm_ledger (fold (request_one now) js sm) = sm_ledger sm \<and> sm_unservable (fold (request_one now) js sm) = sm_unservable sm
   \<and> sm_node (fold (request_one now) js sm) = sm_node sm \<and> sm_pendingTtl (fold (request_one now) js sm) = sm_pendingTtl sm"
  by (induction js arbitrary: sm) (simp_all add: request_frame)

lemma forget_frame [simp]:
  "sm_ledger (forget_pending i sm) = sm_ledger sm" "sm_node (forget_pending i sm) = sm_node sm"
  by (simp_all add: forget_pending_def split: jsval.split)

section \<open>Cubes are adopted by content only\<close>

definition held_rows_ok :: "ledger \<Rightarrow> bool" where
  "held_rows_ok lg \<longleftrightarrow> (\<forall>(k, row) \<in> set (lg_cuberows lg). k \<noteq> [] \<and> getp row ''id'' = JStr k \<and> (\<exists>r. r \<noteq> [] \<and> getp row ''merkleRoot'' = JStr r))"

definition certified_row :: "(string \<Rightarrow> string) \<Rightarrow> (string \<Rightarrow> int option) \<Rightarrow> string \<Rightarrow> jsval \<Rightarrow> bool" where
  "certified_row H D k row \<longleftrightarrow> (\<exists>m v. verifyCube H D no_opts m k = Inr v \<and> certified H D m k v
     \<and> getp row ''id'' = JStr (vf_id v) \<and> getp row ''merkleRoot'' = JStr (vf_root v))"

text \<open>What a step may do to the ledger under it.\<close>

definition sync_grows :: "(string \<Rightarrow> string) \<Rightarrow> (string \<Rightarrow> int option) \<Rightarrow> ledger \<Rightarrow> ledger \<Rightarrow> bool" where
  "sync_grows H D lg lg' \<longleftrightarrow>
     (\<forall>k row. jget (lg_cuberows lg) k = Some row \<longrightarrow> jget (lg_cuberows lg') k = Some row)
   \<and> (\<forall>k row. jget (lg_cuberows lg') k = Some row \<longrightarrow> jget (lg_cuberows lg) k = Some row \<or> certified_row H D k row)
   \<and> set (lg_pool lg') \<subseteq> set (lg_pool lg)
   \<and> (lg_completed lg', lg_levelFaces lg', lg_supers lg', lg_cubes lg', lg_blocks lg', lg_events lg')
     = (lg_completed lg, lg_levelFaces lg, lg_supers lg, lg_cubes lg, lg_blocks lg, lg_events lg)"

lemma sync_grows_refl: "sync_grows H D lg lg"
  by (simp add: sync_grows_def)

lemma sync_grows_trans: "sync_grows H D a b \<Longrightarrow> sync_grows H D b c \<Longrightarrow> sync_grows H D a c"
  unfolding sync_grows_def by (elim conjE, intro conjI) (blast, blast, blast, simp)

lemma put_adopted_frame:
  "lg_cuberows (fold put_adopted bs lg) = lg_cuberows lg \<and> lg_pool (fold put_adopted bs lg) = lg_pool lg
   \<and> lg_completed (fold put_adopted bs lg) = lg_completed lg \<and> lg_levelFaces (fold put_adopted bs lg) = lg_levelFaces lg
   \<and> lg_supers (fold put_adopted bs lg) = lg_supers lg \<and> lg_cubes (fold put_adopted bs lg) = lg_cubes lg
   \<and> lg_blocks (fold put_adopted bs lg) = lg_blocks lg \<and> lg_events (fold put_adopted bs lg) = lg_events lg
   \<and> lg_open (fold put_adopted bs lg) = lg_open lg"
  by (induction bs arbitrary: lg) (simp_all add: put_adopted_def)

lemma held_ids:
  assumes "held_rows_ok lg" "lg_open lg"
  shows "set (map fst (localCubes lg)) = set (jkeys (lg_cuberows lg))"
proof -
  have "map fst (held_row row) = [k]" if "(k, row) \<in> set (lg_cuberows lg)" for k row
    using assms(1) that by (auto simp: held_rows_ok_def held_row_def)
  then have "fst ` set (held_row row) = {k}" if "(k, row) \<in> set (lg_cuberows lg)" for k row
    using that by (metis list.set_map list.simps(15) empty_set)
  then have "(\<Union>(k, row) \<in> set (lg_cuberows lg). fst ` set (held_row row)) = (\<Union>(k, row) \<in> set (lg_cuberows lg). {k})" by blast
  then show ?thesis using assms(2) by (auto simp: localCubes_def image_UN split_beta)
qed

lemma verified_ids:
  assumes "digest H" "verifyCube H D opts m i = Inr v"
  shows "vf_id v \<noteq> [] \<and> vf_root v \<noteq> []"
proof -
  note vf = verified_faces[OF assms(2)]
  have l: "length (sha256hex H s) = 64" for s using assms(1) by (simp add: digest_def sha256hex_def)
  have "vf_id v = sync_cubeIdOf H (vf_faceRoots v)" using verified_id[OF assms(2)] by blast
  then have "length (vf_id v) = 16" by (simp add: sync_cubeIdOf_def l)
  then have "vf_id v \<noteq> []" by auto
  moreover have "\<exists>r. merkleRoot H (sort (vf_faceRoots v)) = Some r \<and> length r = 64"
  proof (rule merkleRoot_64[OF assms(1)])
    show "sort (vf_faceRoots v) \<noteq> []" using vf by (metis length_0_conv length_map length_sort numeral_3_eq_3 nat.distinct(1))
    have "length (the (merkleRoot H (face_hashes f))) = 64" if fin: "f \<in> set (faces_of m)" for f
    proof -
      obtain r where r: "check_face H D f = Inr r" using bspec[OF vf[THEN conjunct2, THEN conjunct1] fin] by (elim exE)
      have "length (face_hashes f) = 9" using check_faceD[OF r] by (simp add: face_hashes_def)
      then have "face_hashes f \<noteq> []" by auto
      moreover have "\<forall>h \<in> set (face_hashes f). length h = 64" using certified_block[OF r] hex64_length by (auto simp: face_hashes_def)
      ultimately obtain q where "merkleRoot H (face_hashes f) = Some q \<and> length q = 64" using merkleRoot_64[OF assms(1)] by blast
      then show ?thesis by simp
    qed
    then show "\<forall>h \<in> set (sort (vf_faceRoots v)). length h = 64" using vf by auto
  qed
  ultimately show ?thesis using verifyCubeD[OF assms(2)] by (metis length_0_conv option.sel zero_neq_numeral)
qed

lemma adopt_grows:
  assumes "digest H" "verifyCube H D no_opts m i = Inr v" "i \<noteq> []" "held_rows_ok (sm_ledger sm)"
  shows "sync_grows H D (sm_ledger sm) (sm_ledger (adopt_cube H v (faces_of m) sm)) \<and> held_rows_ok (sm_ledger (adopt_cube H v (faces_of m) sm))"
proof (cases "planAdoption H v (faces_of m) (sync_ctx (sm_ledger sm)) = None \<or> \<not> lg_open (sm_ledger sm)")
  case True
  then have "adopt_cube H v (faces_of m) sm = sm" by (auto simp: adopt_cube_def split: option.split)
  then show ?thesis using assms(4) by (simp add: sync_grows_refl)
next
  case False
  then obtain a where a: "planAdoption H v (faces_of m) (sync_ctx (sm_ledger sm)) = Some a" "lg_open (sm_ledger sm)" by auto
  let ?lg = "sm_ledger sm"
  have id: "ad_id a = vf_id v" "ad_root a = vf_root v" "vf_id v \<notin> set (haveCubeIds (sync_ctx ?lg))"
    using a(1) by (auto simp: planAdoption_def Let_def split: if_splits)
  then have new: "ad_id a \<notin> set (jkeys (lg_cuberows ?lg))" using held_ids[OF assms(4) a(2)] by (simp add: sync_ctx_def)
  have i: "ad_id a = i" using verified_id[OF assms(2)] assms(3) id(1) by metis
  have ids: "getp (adopted_cube_row a) ''id'' = JStr (vf_id v)" "getp (adopted_cube_row a) ''merkleRoot'' = JStr (vf_root v)"
    by (simp_all add: adopted_cube_row_def id(1,2))
  have cert: "certified_row H D (ad_id a) (adopted_cube_row a)"
    unfolding certified_row_def i
    by (intro exI[of _ m] exI[of _ v] conjI) (rule assms(2) verified_certified[OF assms(2)] ids)+
  have s: "sm_ledger (adopt_cube H v (faces_of m) sm) = adopt_into a ?lg" using a by (simp add: adopt_cube_def)
  have rows: "lg_cuberows (adopt_into a ?lg) = jset (lg_cuberows ?lg) (ad_id a) (adopted_cube_row a)"
    by (simp add: adopt_into_def put_adopted_frame Let_def)
  have "jget (lg_cuberows ?lg) (ad_id a) = None" using new by (simp add: map_of_eq_None_iff)
  then have "sync_grows H D ?lg (adopt_into a ?lg)"
    using cert unfolding sync_grows_def rows jget_jset by (auto simp: adopt_into_def put_adopted_frame Let_def)
  moreover have "held_rows_ok (adopt_into a ?lg)"
    using assms(4) jset_new[of "lg_cuberows ?lg" "ad_id a"] new verified_ids[OF assms(1,2)] id unfolding held_rows_ok_def rows
    by (auto simp: jhas_iff adopted_cube_row_def)
  ultimately show ?thesis unfolding s by simp
qed

lemma sync_step_grows:
  assumes "sync_step H D sm sm'" "digest H" "held_rows_ok (sm_ledger sm)"
  shows "sync_grows H D (sm_ledger sm) (sm_ledger sm') \<and> held_rows_ok (sm_ledger sm')"
  using assms(1)
proof cases
  case (hears_cube m)
  have v: "\<exists>i. i \<noteq> [] \<and> verifyCube H D no_opts m i = Inr v" if "verify_claimed H D m = Inr v" "truthy (getp m ''id'')" for v
    using that by (auto simp: verify_claimed_def split: jsval.splits sum.splits)
  define sm1 where "sm1 = count_stat (\<lambda>s. s\<lparr>ss_cubesFetched := ss_cubesFetched s + 1\<rparr>) (forget_pending (getp m ''id'') sm)"
  have l: "sm_ledger sm1 = sm_ledger sm" by (simp add: sm1_def)
  consider "sm_ledger sm' = sm_ledger sm" | v where "truthy (getp m ''id'')" "verify_claimed H D m = Inr v" "sm' = adopt_cube H v (faces_of m) sm1"
  proof (cases "own_or_empty m sm \<or> asked_by_other m sm \<and> truthy (getp m ''id'') \<or> \<not> truthy (getp m ''id'') \<or> \<not> is_array (getp m ''faces'')")
    case True
    have "sm_ledger sm' = sm_ledger sm"
      using True unfolding hears_cube onCube_def by (auto simp only: if_True if_False simp_thms split: option.split) (simp_all split: option.split)
    then show thesis by (rule that(1))
  next
    case False
    then have e: "sm' = (case verify_claimed H D m of Inl Throws \<Rightarrow> sm1
        | Inl e \<Rightarrow> count_stat (\<lambda>s. s\<lparr>ss_rejected := ss_rejected s + 1\<rparr>) sm1 | Inr v \<Rightarrow> adopt_cube H v (faces_of m) sm1)"
      unfolding hears_cube onCube_def Let_def sm1_def by simp
    show thesis
    proof (cases "verify_claimed H D m")
      case (Inl x)
      then have "sm_ledger sm' = sm_ledger sm" using e l by (cases x) simp_all
      then show thesis by (rule that(1))
    next
      case (Inr v)
      then show thesis using that(2) e False by simp
    qed
  qed
  then show ?thesis
  proof cases
    case 1
    then show ?thesis using assms(3) by (simp add: sync_grows_refl)
  next
    case 2
    then show ?thesis using v adopt_grows[OF assms(2)] assms(3) l by metis
  qed
qed (use assms(3) in \<open>auto simp: sync_grows_refl advertise_def onDigest_def onList_def Let_def requests_frame split: jsval.splits\<close>)

lemma sync_reach_grows:
  "sync_reach H D sm sm' \<Longrightarrow> digest H \<Longrightarrow> held_rows_ok (sm_ledger sm) \<Longrightarrow>
   sync_grows H D (sm_ledger sm) (sm_ledger sm') \<and> held_rows_ok (sm_ledger sm')"
proof (induction rule: sync_reach.induct)
  case (later sm1 sm2)
  then show ?case using sync_step_grows sync_grows_trans by blast
qed (simp add: sync_grows_refl)

text \<open>C27: Whatever a node hears from its peers, in any order, every cube row it held stays as it was; every row it
  gains is for a cube that verified under that very id, so it is certified by its content; its candidate
  pool only shrinks; and the recursion into higher cubes, the cubes sealed locally and the events are
  untouched. The rows it starts from are as the ledger writes them: each under its own id and with a root.\<close>

theorem cubes_are_adopted_by_content:
  assumes "sync_reach H D sm sm'" "digest H" "held_rows_ok (sm_ledger sm)"
  shows "sync_grows H D (sm_ledger sm) (sm_ledger sm')"
  using sync_reach_grows[OF assms] by blast

definition toy_sync :: sync_manager where
  "toy_sync = new_sync_manager ''n1'' 4 90000 3 ((new_ledger True (miner0 1))\<lparr>lg_open := True\<rparr>)"

lemma cubes_are_adopted_by_content_witness:
  "sync_grows (lead 6) (\<lambda>s. None) (sm_ledger toy_sync)
     (sm_ledger (onCube (lead 6) (\<lambda>s. None) (JObj [(''nodeId'', JStr ''n2''), (''id'', JStr ''c''), (''faces'', JArr [])]) toy_sync))"
  by (rule cubes_are_adopted_by_content[OF later[OF here hears_cube] digest_lead])
    (simp add: toy_sync_def new_sync_manager_def new_ledger_def held_rows_ok_def)

section \<open>Requests\<close>

lemma request_keys: "set (jkeys (sm_pending (fold (request_one now) js sm))) = set (jkeys (sm_pending sm)) \<union> set js"
  by (induction js arbitrary: sm) (auto simp: request_one_def jset_keys[simplified] jhas_iff)

lemma request_length: "length (sm_pending (fold (request_one now) js sm)) \<le> length (sm_pending sm) + length js"
proof (induction js arbitrary: sm)
  case (Cons i js)
  have "length (sm_pending (request_one now i sm)) \<le> Suc (length (sm_pending sm))" by (simp add: request_one_def jset_length)
  then show ?case using Cons[of "request_one now i sm"] by simp
qed simp

lemma expire_keys: "set (jkeys (sm_pending (fold (expire_one now) xs sm))) \<subseteq> set (jkeys (sm_pending sm))"
proof (induction xs arbitrary: sm)
  case (Cons x xs)
  have "set (jkeys (sm_pending (expire_one now x sm))) \<subseteq> set (jkeys (sm_pending sm))"
    by (auto simp: expire_one_def jdel_set split: prod.split)
  then show ?case using Cons[of "expire_one now x sm"] unfolding fold.simps comp_def by blast
qed simp

lemma expire_length: "length (sm_pending (expirePending now sm)) \<le> length (sm_pending sm)"
proof -
  have "length (sm_pending (fold (expire_one now) xs sm)) \<le> length (sm_pending sm)" for xs
  proof (induction xs arbitrary: sm)
    case (Cons x xs)
    have "length (sm_pending (expire_one now x sm)) \<le> length (sm_pending sm)" by (simp add: expire_one_def jdel_length split: prod.split)
    then show ?case using Cons[of "expire_one now x sm"] by simp
  qed simp
  then show ?thesis by (simp add: expirePending_def)
qed

lemma wanted_spec:
  "i \<in> set (diffWanted ids0 peers n) \<Longrightarrow> i \<notin> set ids0 \<and> (\<exists>c \<in> set peers. id_text c = Some i)"
  using requests_bounded_and_missing[of ids0 peers n] by force

lemma pool_spec:
  "c \<in> set (request_pool (missing_cubes own cs) sm) \<Longrightarrow> 0 < sm_maxAttempts sm \<Longrightarrow>
   c \<in> set cs \<and> attempts_of (the (id_text c)) sm < sm_maxAttempts sm"
  by (auto simp: request_pool_def missing_cubes_def Let_def attempts_of_def jhas_def split: if_splits)

text \<open>A list from a peer makes a node ask only for cubes the peer offered and the node lacks, never for one
  that has gone unanswered the maximal number of times; and the number of requests in flight grows by no
  more than the free slots, or by one.\<close>

lemma requests_are_disciplined:
  assumes "0 < sm_maxAttempts sm"
  shows "(\<forall>i. i \<in> set (jkeys (sm_pending (onList now m sm))) \<longrightarrow> i \<notin> set (jkeys (sm_pending sm)) \<longrightarrow>
       i \<notin> set (map fst (localCubes (sm_ledger sm))) \<and> attempts_of i (expirePending now sm) < sm_maxAttempts sm
       \<and> (\<exists>cs c. getp m ''cubes'' = JArr cs \<and> c \<in> set cs \<and> id_text c = Some i))
   \<and> length (sm_pending (onList now m sm)) \<le> max (sm_maxInFlight sm) (length (sm_pending sm) + 1)"
proof (cases "own_or_empty m sm \<or> asked_by_other m sm \<or> \<not> is_array (getp m ''cubes'')")
  case True
  then have "sm_pending (onList now m sm) = sm_pending sm" by (cases "getp m ''cubes''") (auto simp: onList_def)
  then show ?thesis by simp
next
  case False
  then obtain cs where cs: "getp m ''cubes'' = JArr cs" by (cases "getp m ''cubes''") auto
  define sm1 where "sm1 = expirePending now sm"
  define own where "own = map fst (localCubes (sm_ledger sm))"
  define pool where "pool = request_pool (missing_cubes own cs) sm1"
  define wanted where "wanted = diffWanted own pool (sm_maxInFlight sm1 - length (sm_pending sm1))"
  have e: "onList now m sm = fold (request_one now) wanted sm1"
    using False cs by (simp add: onList_def Let_def wanted_def pool_def own_def sm1_def)
  have k: "set (jkeys (sm_pending sm1)) \<subseteq> set (jkeys (sm_pending sm))" unfolding sm1_def expirePending_def by (rule expire_keys)
  have w: "i \<notin> set own \<and> (\<exists>c \<in> set cs. id_text c = Some i) \<and> attempts_of i sm1 < sm_maxAttempts sm" if wi: "i \<in> set wanted" for i
  proof -
    obtain c where c: "c \<in> set pool" "id_text c = Some i" "i \<notin> set own" using wanted_spec wi unfolding wanted_def by blast
    have "c \<in> set cs \<and> attempts_of i sm1 < sm_maxAttempts sm"
      using pool_spec[of c own cs sm1] c assms unfolding pool_def by (simp add: sm1_def)
    then show ?thesis using c by blast
  qed
  have "length wanted \<le> max 1 (sm_maxInFlight sm - length (sm_pending sm1))"
    using requests_bounded_and_missing[of own pool] unfolding wanted_def sm1_def expire_frame by blast
  then have "length (sm_pending (onList now m sm)) \<le> max (sm_maxInFlight sm) (length (sm_pending sm) + 1)"
    using request_length[of now wanted sm1] expire_length[of now sm] unfolding e sm1_def by linarith
  then show ?thesis using w k cs unfolding e request_keys own_def[symmetric] sm1_def[symmetric] by blast
qed

lemma requests_are_disciplined_witness:
  "length (sm_pending (onList 5 (JObj [(''nodeId'', JStr ''n2''), (''cubes'', JArr [JObj [(''id'', JStr ''c'')]])]) toy_sync)) \<le> 4"
  using requests_are_disciplined[of toy_sync 5 "JObj [(''nodeId'', JStr ''n2''), (''cubes'', JArr [JObj [(''id'', JStr ''c'')]])]"]
  by (simp add: toy_sync_def new_sync_manager_def)

text \<open>The bound on requests in flight is not kept: peers that each offer one cube bring any number into flight,
  since a full node still takes one from every list.\<close>

definition offer :: "string \<Rightarrow> string \<Rightarrow> jsval" where
  "offer peer i = JObj [(''nodeId'', JStr peer), (''cubes'', JArr [JObj [(''id'', JStr i)]])]"

lemma expire_none:
  assumes "\<forall>(i, at) \<in> set (sm_pending sm). now - at < sm_pendingTtl sm"
  shows "expirePending now sm = sm"
proof -
  have "\<forall>(i, at) \<in> set xs. now - at < sm_pendingTtl sm \<Longrightarrow> fold (expire_one now) xs sm = sm" for xs
    by (induction xs) (auto simp: expire_one_def)
  then show ?thesis using assms by (simp add: expirePending_def)
qed

lemma offered_one:
  assumes "peer \<noteq> sm_node sm" "i \<notin> set (map fst (localCubes (sm_ledger sm)))" "\<not> jhas (sm_pending sm) i" "sm_unservable sm = []"
    "\<forall>(i, at) \<in> set (sm_pending sm). now - at < sm_pendingTtl sm"
  shows "sm_pending (onList now (offer peer i) sm) = sm_pending sm @ [(i, now)]"
proof -
  have g: "own_or_empty (offer peer i) sm = False" "asked_by_other (offer peer i) sm = False" "getp (offer peer i) ''cubes'' = JArr [JObj [(''id'', JStr i)]]"
    using assms(1) by (simp_all add: own_or_empty_def asked_by_other_def offer_def)
  have d: "diffWanted own [JObj [(''id'', JStr i)]] n = [i]" if "i \<notin> set own" for own n
    using that by (simp add: diffWanted_def id_text_def max_def)
  have p: "request_pool (missing_cubes (map fst (localCubes (sm_ledger sm))) [JObj [(''id'', JStr i)]]) sm = [JObj [(''id'', JStr i)]]"
    using assms(2,4) by (simp add: request_pool_def missing_cubes_def id_text_def jhas_def)
  show ?thesis
    by (simp add: onList_def g expire_none[OF assms(5)] p d[OF assms(2)] request_one_def assms(3) jset_new[OF assms(3)] del: set_map list.set_map)
qed

lemma offers_run:
  "distinct (jkeys (sm_pending sm) @ js) \<Longrightarrow> set js \<inter> set (map fst (localCubes (sm_ledger sm))) = {} \<Longrightarrow> peer \<noteq> sm_node sm \<Longrightarrow>
   sm_unservable sm = [] \<Longrightarrow> \<forall>(i, at) \<in> set (sm_pending sm). at = now \<Longrightarrow> 0 < sm_pendingTtl sm \<Longrightarrow>
   length (sm_pending (fold (\<lambda>i. onList now (offer peer i)) js sm)) = length (sm_pending sm) + length js"
proof (induction js arbitrary: sm)
  case (Cons i js)
  let ?sm = "onList now (offer peer i) sm"
  have l: "\<forall>(i, at) \<in> set (sm_pending sm). now - at < sm_pendingTtl sm" using Cons.prems(5,6) by auto
  have p: "sm_pending ?sm = sm_pending sm @ [(i, now)]"
    by (rule offered_one) (use Cons.prems l in \<open>auto simp: jhas_iff\<close>)
  have f: "sm_ledger ?sm = sm_ledger sm" "sm_unservable ?sm = []" "sm_node ?sm = sm_node sm" "sm_pendingTtl ?sm = sm_pendingTtl sm"
    using Cons.prems(4) expire_none[OF l] by (auto simp: onList_def Let_def requests_frame split: jsval.split)
  show ?case using Cons.IH[of ?sm] Cons.prems unfolding p f by simp
qed simp

lemma in_flight_bound_not_kept:
  assumes "distinct ids" "set ids \<inter> set (map fst (localCubes lg)) = {}" "peer \<noteq> node" "0 < ttl"
  shows "length (sm_pending (fold (\<lambda>i. onList now (offer peer i)) ids (new_sync_manager node inFlight ttl attempts lg))) = length ids"
  using offers_run[of "new_sync_manager node inFlight ttl attempts lg" ids peer now] assms by (simp add: new_sync_manager_def)

end
