(* ===== verification/CubeSyncServe.thy ===== *)
theory CubeSyncServe
  imports CubeSyncProps
begin

text \<open>
  A node that adopted a cube can serve it: the rows adoption wrote are grouped again into a payload that
  verifies, anywhere, under the same id and root.
\<close>

section \<open>A payload without claims\<close>

definition member_of :: "string \<Rightarrow> jsval \<Rightarrow> jsval" where
  "member_of h tx = JObj [(''hash'', JStr h), (''tx'', tx)]"

definition bare_face :: "jsval list \<Rightarrow> jsval" where
  "bare_face g = JObj [(''blocks'', JArr g)]"

lemma each_all: "\<forall>x \<in> set xs. f x = Inr (g x) \<Longrightarrow> each f xs = Inr (map g xs)"
  by (induction xs) simp_all

text \<open>Nine members, each its own hash and transaction, each of which passed where it came from.\<close>

definition good_group :: "(string \<Rightarrow> string) \<Rightarrow> (string \<Rightarrow> int option) \<Rightarrow> jsval list \<Rightarrow> bool" where
  "good_group H D g \<longleftrightarrow> length g = 9 \<and> distinct (map hash_of g)
     \<and> (\<forall>b \<in> set g. \<exists>h tx. b = member_of h tx \<and> check_member H D b = Inr h)"

definition group_root :: "(string \<Rightarrow> string) \<Rightarrow> jsval list \<Rightarrow> string" where
  "group_root H g = the (merkleRoot H (sort (map hash_of g)))"

lemma good_face:
  assumes "good_group H D g"
  shows "check_face H D (bare_face g) = Inr (group_root H g)"
proof -
  have "each (check_member H D) g = Inr (map hash_of g)"
    by (rule each_all) (use assms in \<open>fastforce simp: good_group_def hash_of_def member_of_def\<close>)
  then show ?thesis using assms
    by (simp add: check_face_def blocks_of_def bare_face_def good_group_def Let_def group_root_def sync_faceRootOf_def)
qed

lemma good_derives:
  assumes "good_group H D g"
  shows "\<exists>d. derive_face H n fi (bare_face g) = Inr d \<and> df_root d = group_root H g \<and> df_claimedIndex d = JUndef
    \<and> (\<forall>c \<in> set (df_blockFaceClaims d). c = JUndef)"
proof -
  have b: "block_key b = Some (hash_of b) \<and> position_claim b = JUndef \<and> getp (getp b ''location'') ''faceIndex'' = JUndef" if "b \<in> set g" for b
    using assms that by (fastforce simp: good_group_def member_of_def block_key_def hash_of_def position_claim_def)
  have k: "map (the \<circ> block_key) g = map hash_of g" using b by simp
  have l: "length g = face_size" "distinct (map hash_of g)" using assms by (simp_all add: good_group_def face_size_def)
  have "\<not> (\<exists>b \<in> set g. block_key b = None)" "\<not> (\<exists>b \<in> set g. \<not> claim_ok (position_claim b) (rank_of (map hash_of g) (the (block_key b))))"
    using b by (auto simp: claim_ok_def)
  moreover have "faceRootOf H (map hash_of g) = merkleRoot H (sort (map hash_of g))" using l by (simp add: faceRootOf_def)
  ultimately show ?thesis using l b
    by (auto simp: derive_face_def face_blocks_def bare_face_def k Let_def group_root_def image_iff)
qed

lemma goods_derive:
  "\<forall>g \<in> set gs. good_group H D g \<Longrightarrow> \<exists>ds. derive_faces H n fi (map bare_face gs) = Inr ds \<and> map df_root ds = map (group_root H) gs
    \<and> (\<forall>d \<in> set ds. df_claimedIndex d = JUndef \<and> (\<forall>c \<in> set (df_blockFaceClaims d). c = JUndef))"
proof (induction gs arbitrary: fi)
  case (Cons g gs)
  obtain d where d: "derive_face H n fi (bare_face g) = Inr d" "df_root d = group_root H g" "df_claimedIndex d = JUndef"
    "\<forall>c \<in> set (df_blockFaceClaims d). c = JUndef" using good_derives Cons.prems by (meson list.set_intros(1))
  obtain ds where "derive_faces H n (Suc fi) (map bare_face gs) = Inr ds" "map df_root ds = map (group_root H) gs"
    "\<forall>d \<in> set ds. df_claimedIndex d = JUndef \<and> (\<forall>c \<in> set (df_blockFaceClaims d). c = JUndef)" using Cons by fastforce
  then show ?case using d by simp
qed simp

lemma no_claims: "\<forall>d \<in> set ds. df_claimedIndex d = JUndef \<and> (\<forall>c \<in> set (df_blockFaceClaims d). c = JUndef) \<Longrightarrow> check_ranks roots fi ds = None"
  by (induction ds arbitrary: fi) (auto simp: claim_ok_def list_all_iff Let_def)

lemma goods_verify:
  assumes "\<forall>g \<in> set gs. good_group H D g" "length gs = 3" "distinct (map (group_root H) gs)"
    "getp p ''faces'' = JArr (map bare_face gs)" "is_object p" "getp p ''merkleRoot'' = JUndef" "i = sync_cubeIdOf H (map (group_root H) gs)"
  shows "verifyCube H D no_opts p i
     = Inr \<lparr>vf_id = i, vf_root = the (merkleRoot H (sort (map (group_root H) gs))), vf_faceRoots = map (group_root H) gs\<rparr>"
proof -
  have e: "each (check_face H D) (map bare_face gs) = Inr (map (group_root H) gs)"
    using each_all[of "map bare_face gs" "check_face H D" "\<lambda>f. group_root H (blocks_of f)"] good_face assms(1)
    by (auto simp: blocks_of_def bare_face_def comp_def)
  obtain ds where ds: "derive_faces H 3 0 (map bare_face gs) = Inr ds" "map df_root ds = map (group_root H) gs"
    "\<forall>d \<in> set ds. df_claimedIndex d = JUndef \<and> (\<forall>c \<in> set (df_blockFaceClaims d). c = JUndef)" using goods_derive[OF assms(1)] by blast
  have "\<exists>q. verifyPlacement H (JObj [(''faces'', JArr (map bare_face gs))]) = Inr q"
    using assms(2,3) ds(1) no_claims[OF ds(3)] by (auto simp: verifyPlacement_def cube_slots_def Let_def ds(2))
  then show ?thesis using assms(2,4-7) e by (auto simp: verifyCube_def Let_def no_opts_def opt_all_def)
qed

section \<open>The rows of a cube\<close>

definition located_rows :: "jsval \<Rightarrow> (string, jsval option) jmap \<Rightarrow> jsval list" where
  "located_rows cid m = filter (\<lambda>b. strict_eq (row_cube b) cid) (concat (map (\<lambda>r. case r of None \<Rightarrow> [] | Some b \<Rightarrow> [b]) (jvalues m)))"

lemma concat_map_mset: "mset (concat (map f xs)) = sum_mset (image_mset (\<lambda>x. mset (f x)) (mset xs))"
  by (induction xs) simp_all

lemma cube_rows_located: "mset (cube_rows_of cid lg) = mset (located_rows cid (lg_blockrows lg))"
  unfolding cube_rows_of_def located_rows_def mset_filter concat_map_mset mset_map by (simp only: mset_sort)

lemma located_jset:
  assumes "\<forall>r. jget m k = Some (Some r) \<longrightarrow> \<not> strict_eq (row_cube r) cid" "strict_eq (row_cube b) cid"
  shows "mset (located_rows cid (jset m k (Some b))) = add_mset b (mset (located_rows cid m))"
  using assms
proof (induction m)
  case (Cons x m)
  then show ?case by (cases x) (auto simp: located_rows_def split: option.splits if_splits)
qed (simp add: located_rows_def)

lemma put_adopted_rows:
  assumes "distinct (map (take 16 \<circ> ab_hash) bs)" "\<forall>b \<in> set bs. strict_eq (row_cube (adopted_block_row b)) cid"
    "\<forall>b \<in> set bs. \<forall>r. jget (lg_blockrows lg) (take 16 (ab_hash b)) = Some (Some r) \<longrightarrow> \<not> strict_eq (row_cube r) cid"
  shows "mset (located_rows cid (lg_blockrows (fold put_adopted bs lg))) = mset (map adopted_block_row bs) + mset (located_rows cid (lg_blockrows lg))"
  using assms
proof (induction bs arbitrary: lg)
  case (Cons b bs)
  have "mset (located_rows cid (lg_blockrows (put_adopted b lg))) = add_mset (adopted_block_row b) (mset (located_rows cid (lg_blockrows lg)))"
    using located_jset Cons.prems by (simp add: put_adopted_def)
  moreover have "mset (located_rows cid (lg_blockrows (fold put_adopted bs (put_adopted b lg))))
      = mset (map adopted_block_row bs) + mset (located_rows cid (lg_blockrows (put_adopted b lg)))"
  proof (rule Cons.IH)
    have "\<forall>c \<in> set bs. take 16 (ab_hash c) \<noteq> take 16 (ab_hash b)" using Cons.prems(1) by (simp add: image_iff) metis
    then show "\<forall>c \<in> set bs. \<forall>r. jget (lg_blockrows (put_adopted b lg)) (take 16 (ab_hash c)) = Some (Some r) \<longrightarrow> \<not> strict_eq (row_cube r) cid"
      using Cons.prems(3) by (simp add: put_adopted_def jget_jset)
  qed (use Cons.prems in simp_all)
  ultimately show ?case by simp
qed simp

section \<open>Grouping\<close>

lemma push_rows_get:
  "jget (fold push_row rs m) k = (let new = map row_member (filter (\<lambda>b. row_face b = k) rs) in
     if new = [] then jget m k else Some ((case jget m k of Some bs \<Rightarrow> bs | None \<Rightarrow> []) @ new))"
proof (induction rs arbitrary: m)
  case (Cons r rs)
  then show ?case by (auto simp: push_row_def jget_jset Let_def split: option.split)
qed simp

lemma push_rows_keys: "set (jkeys (fold push_row rs m)) = set (jkeys m) \<union> row_face ` set rs"
  by (induction rs arbitrary: m) (auto simp: push_row_def jset_keys[simplified])

lemma push_rows_ok: "jmap_ok m \<Longrightarrow> jmap_ok (fold push_row rs m)"
  by (induction rs arbitrary: m) (auto simp: push_row_def jmap_ok_jset)

lemma three_faces:
  assumes "distinct ks" "set ks = {JInt 0, JInt 1, JInt 2}"
  shows "sorted_faces ks = [JInt 0, JInt 1, JInt 2]"
proof -
  have f: "filter (\<lambda>k. k \<noteq> JUndef) ks = ks" "filter (\<lambda>k. k = JUndef) ks = []"
    using assms(2) by (auto simp: filter_id_conv filter_empty_conv)
  have "mset ks = mset [JInt 0, JInt 1, JInt 2]"
    using mset_set_set[OF assms(1)] mset_set_set[of "[JInt 0, JInt 1, JInt 2]"] by (simp add: assms(2))
  moreover have t: "show_int 0 = ''0''" "show_int 1 = ''1''" "show_int 2 = ''2''" by code_simp+
  have "inj_on js_string (set ks)" unfolding assms(2) by (simp add: inj_on_def t)
  ultimately have "sort_key js_string ks = sort_key js_string [JInt 0, JInt 1, JInt 2]" using sort_key_mset_cong by blast
  moreover have "sorted [''0'', ''1'', ''2'']" by code_simp
  then have "sort_key js_string [JInt 0, JInt 1, JInt 2] = [JInt 0, JInt 1, JInt 2]" by (intro sort_key_id_if_sorted) (simp add: t)
  ultimately show ?thesis unfolding sorted_faces_def f by simp
qed

section \<open>The rows an adoption writes\<close>

definition rank_in :: "(string \<Rightarrow> string) \<Rightarrow> verified \<Rightarrow> jsval \<Rightarrow> nat" where
  "rank_in H v f = rank_of (vf_faceRoots v) (the (merkleRoot H (face_hashes f)))"

lemma adopted_row_reads:
  assumes "json_norm (ab_tx b) = ab_tx b" "ab_tx b \<noteq> JUndef"
  shows "row_face (adopted_block_row b) = JInt (faceIndex (ab_location b))" "row_member (adopted_block_row b) = member_of (ab_hash b) (ab_tx b)"
    "row_cube (adopted_block_row b) = index_json (cubeIndex (ab_location b))"
  using assms by (simp_all add: adopted_block_row_def row_face_def row_member_def row_cube_def member_of_def loc_json_def index_json_def
      split: option.split index.split)

lemma adopt_face_where:
  "b \<in> set (adopt_face H v ctx bs) \<Longrightarrow> faceIndex (ab_location b) = int (rank_of (vf_faceRoots v) (the (merkleRoot H (sort (map hash_of bs)))))
     \<and> cubeIndex (ab_location b) = IText (vf_id v)
     \<and> (\<exists>c \<in> set bs. ab_hash b = hash_of c \<and> ab_tx b = getp c ''tx'')"
  by (auto simp: adopt_face_def Let_def sync_faceRootOf_def in_set_enumerate_eq image_iff) (metis length_sort nth_mem set_sort)

lemma filter_one_group:
  "f \<in> set fs \<Longrightarrow> distinct (map rk fs) \<Longrightarrow> \<forall>h \<in> set fs. \<forall>b \<in> set (g h). P b = (rk h = rk f) \<Longrightarrow> filter P (concat (map g fs)) = g f"
proof (induction fs)
  case (Cons h fs)
  have none: "filter P (concat (map g hs)) = []" if "rk f \<notin> rk ` set hs" "\<forall>h \<in> set hs. \<forall>b \<in> set (g h). P b = (rk h = rk f)" for hs
    using that by (induction hs) (auto simp: filter_empty_conv)
  show ?case
  proof (cases "rk h = rk f")
    case True
    then have "f = h" using Cons.prems(1,2) by (auto simp: image_iff)
    then show ?thesis using none[of fs] Cons.prems by (auto simp: filter_id_conv)
  next
    case False
    then have "f \<in> set fs" using Cons.prems(1) by auto
    then show ?thesis using Cons False by (auto simp: filter_empty_conv)
  qed
qed simp

lemma check_member_of:
  "check_member H D b = Inr h \<Longrightarrow> check_member H D (member_of h (getp b ''tx'')) = Inr h"
  using check_memberD[of H D b h] by (simp add: check_member_def member_of_def split: if_splits)

text \<open>The group regained for a face of the payload.\<close>

lemma regained_group:
  assumes "check_face H D f = Inr r" "mset g = mset (map (\<lambda>b. member_of (ab_hash b) (ab_tx b)) (adopt_face H v ctx (blocks_of f)))"
    "distinct (face_hashes f)"
  shows "good_group H D g \<and> group_root H g = the (merkleRoot H (face_hashes f))"
proof -
  have h: "hash_of (member_of x tx) = x" for x tx by (simp add: hash_of_def member_of_def)
  have "mset (map hash_of g) = image_mset hash_of (mset g)" by simp
  also have "\<dots> = mset (map ab_hash (adopt_face H v ctx (blocks_of f)))" unfolding assms(2) by (simp add: h multiset.map_comp comp_def)
  finally have m: "mset (map hash_of g) = mset (face_hashes f)" by (simp only: adopt_face_hashes face_hashes_def)
  then have "sort (map hash_of g) = sort (face_hashes f)" by (rule sort_mset_cong)
  then have r: "group_root H g = the (merkleRoot H (face_hashes f))" by (simp add: group_root_def face_hashes_def sorted_sort_id)
  have l: "length g = 9" using mset_eq_length[OF m] check_faceD[OF assms(1)] by (simp add: face_hashes_def)
  have d: "distinct (map hash_of g)" using mset_eq_imp_distinct_iff[OF m] assms(3) by blast
  have "\<exists>h tx. b = member_of h tx \<and> check_member H D b = Inr h" if "b \<in> set g" for b
  proof -
    have "b \<in> set (map (\<lambda>b. member_of (ab_hash b) (ab_tx b)) (adopt_face H v ctx (blocks_of f)))" using that mset_eq_setD[OF assms(2)] by blast
    then obtain a where a: "a \<in> set (adopt_face H v ctx (blocks_of f))" "b = member_of (ab_hash a) (ab_tx a)" by auto
    then obtain c where c: "c \<in> set (blocks_of f)" "ab_hash a = hash_of c" "ab_tx a = getp c ''tx''" using adopt_face_where by blast
    obtain k where k: "check_member H D c = Inr k" using each_set[OF _ c(1)] check_faceD[OF assms(1)] by blast
    moreover have "k = hash_of c" using check_memberD[OF k] by (simp add: hash_of_def)
    ultimately have "check_member H D b = Inr (hash_of c)" using check_member_of a(2) c by simp
    moreover have "b = member_of (hash_of c) (ab_tx a)" using a(2) c(2) by simp
    ultimately show "\<exists>h tx. b = member_of h tx \<and> check_member H D b = Inr h" by blast
  qed
  then show ?thesis using l d r by (simp add: good_group_def)
qed

text \<open>The three groups: the face of rank \<open>k\<close> of the payload comes back under the index \<open>k\<close>.\<close>

definition face_of_rank :: "(string \<Rightarrow> string) \<Rightarrow> verified \<Rightarrow> jsval \<Rightarrow> nat \<Rightarrow> jsval" where
  "face_of_rank H v m k = hd (filter (\<lambda>f. rank_in H v f = k) (faces_of m))"

lemma ranks_onto:
  assumes "verifyCube H D opts m i = Inr v"
  shows "distinct (map (rank_in H v) (faces_of m)) \<and> rank_in H v ` set (faces_of m) = {0, 1, 2}"
proof -
  note vf = verified_faces[OF assms]
  let ?r = "\<lambda>f. the (merkleRoot H (face_hashes f))"
  have d: "distinct (map (rank_in H v) (faces_of m))"
    using ranks_distinct[OF placed_roots_distinct[OF assms]] vf by (simp add: comp_def rank_in_def[abs_def])
  have "rank_in H v f < 3" if "f \<in> set (faces_of m)" for f
  proof -
    have "?r f \<in> set (vf_faceRoots v)" "length (vf_faceRoots v) = 3" using vf that by simp_all
    then show ?thesis using rank_nth by (metis rank_in_def)
  qed
  then have s: "rank_in H v ` set (faces_of m) \<subseteq> {0, 1, 2}" by force
  have "card (rank_in H v ` set (faces_of m)) = 3" using distinct_card[OF d] vf by simp
  then have "rank_in H v ` set (faces_of m) = {0, 1, 2}" by (intro card_subset_eq[OF _ s]) simp_all
  with d show ?thesis by blast
qed

lemma face_of_rank_in:
  assumes "verifyCube H D opts m i = Inr v" "k \<in> {0, 1, 2}"
  shows "face_of_rank H v m k \<in> set (faces_of m) \<and> rank_in H v (face_of_rank H v m k) = k"
proof -
  have "k \<in> rank_in H v ` set (faces_of m)" unfolding ranks_onto[OF assms(1), THEN conjunct2] by (rule assms(2))
  then obtain f where "f \<in> set (faces_of m)" "rank_in H v f = k" by (elim imageE) simp
  then have "filter (\<lambda>f. rank_in H v f = k) (faces_of m) \<noteq> []" by (auto simp: filter_empty_conv)
  then have "face_of_rank H v m k \<in> set (filter (\<lambda>f. rank_in H v f = k) (faces_of m))" unfolding face_of_rank_def by (rule hd_in_set)
  then show ?thesis by simp
qed

lemma regained_roots:
  assumes "verifyCube H D opts m i = Inr v"
  shows "mset (map (\<lambda>k. the (merkleRoot H (face_hashes (face_of_rank H v m k)))) [0, 1, 2]) = mset (vf_faceRoots v)
    \<and> distinct (map (\<lambda>k. the (merkleRoot H (face_hashes (face_of_rank H v m k)))) [0, 1, 2])"
proof -
  note vf = verified_faces[OF assms]
  let ?r = "\<lambda>f. the (merkleRoot H (face_hashes f))" and ?f = "face_of_rank H v m"
  have f: "?f k \<in> set (faces_of m) \<and> rank_in H v (?f k) = k" if "k \<in> {0, 1, 2}" for k by (rule face_of_rank_in[OF assms that])
  have rk: "rank_in H v g = rank_of (vf_faceRoots v) (?r g)" for g by (simp add: rank_in_def)
  have inj: "inj_on (\<lambda>k. ?r (?f k)) {0, 1, 2}" by (rule inj_onI) (metis f rk)
  then have d: "distinct (map (\<lambda>k. ?r (?f k)) [0, 1, 2])" by (simp add: distinct_map)
  have sub: "(\<lambda>k. ?r (?f k)) ` {0, 1, 2} \<subseteq> set (vf_faceRoots v)" using f vf by auto
  have "card ((\<lambda>k. ?r (?f k)) ` {0, 1, 2}) = 3" using card_image[OF inj] by simp
  moreover have "card (set (vf_faceRoots v)) = 3" using distinct_card[OF placed_roots_distinct[OF assms]] vf by simp
  ultimately have "(\<lambda>k. ?r (?f k)) ` {0, 1, 2} = set (vf_faceRoots v)" by (intro card_subset_eq[OF _ sub]) simp_all
  then have "set (map (\<lambda>k. ?r (?f k)) [0, 1, 2]) = set (vf_faceRoots v)" by simp
  then have "mset (map (\<lambda>k. ?r (?f k)) [0, 1, 2]) = mset (vf_faceRoots v)"
    using set_eq_iff_mset_eq_distinct[OF d placed_roots_distinct[OF assms]] by blast
  with d show ?thesis by blast
qed

section \<open>Served again\<close>

definition plain_blocks :: "adopted_block list \<Rightarrow> bool" where
  "plain_blocks bs \<longleftrightarrow> (\<forall>b \<in> set bs. json_norm (ab_tx b) = ab_tx b \<and> ab_tx b \<noteq> JUndef)"

lemma adopted_rows_are:
  assumes "distinct (map (take 16 \<circ> ab_hash) bs)" "\<forall>b \<in> set bs. cubeIndex (ab_location b) = IText i" "plain_blocks bs"
    "cube_rows_of (JStr i) lg = []"
  shows "mset (cube_rows_of (JStr i) (fold put_adopted bs lg)) = mset (map adopted_block_row bs)"
proof -
  have z: "mset (located_rows (JStr i) (lg_blockrows lg)) = {#}" using cube_rows_located[of "JStr i" lg] assms(4) by simp
  have n: "\<not> strict_eq (row_cube r) (JStr i)" if "jget (lg_blockrows lg) k = Some (Some r)" for k r
  proof
    assume "strict_eq (row_cube r) (JStr i)"
    then have "r \<in> set (located_rows (JStr i) (lg_blockrows lg))"
      using jget_in[OF that] by (force simp: located_rows_def)
    then show False using z by simp
  qed
  have "\<forall>b \<in> set bs. strict_eq (row_cube (adopted_block_row b)) (JStr i)"
    using assms(2,3) by (simp add: plain_blocks_def adopted_row_reads index_json_def strict_eq_def)
  then have "mset (located_rows (JStr i) (lg_blockrows (fold put_adopted bs lg))) = mset (map adopted_block_row bs)"
    using put_adopted_rows[OF assms(1), of "JStr i" lg] n z by simp
  then show ?thesis by (simp only: cube_rows_located)
qed

lemma group_of_rank:
  assumes "mset rows = mset (map adopted_block_row (concat (map (adopt_face H v ctx \<circ> blocks_of) (faces_of m))))"
    "plain_blocks (concat (map (adopt_face H v ctx \<circ> blocks_of) (faces_of m)))" "verifyCube H D opts m i = Inr v" "k \<in> {0, 1, 2}"
  shows "mset (map row_member (filter (\<lambda>b. row_face b = JInt (int k)) rows))
    = mset (map (\<lambda>b. member_of (ab_hash b) (ab_tx b)) (adopt_face H v ctx (blocks_of (face_of_rank H v m k))))"
proof -
  let ?bs = "concat (map (adopt_face H v ctx \<circ> blocks_of) (faces_of m))"
  have pl: "json_norm (ab_tx b) = ab_tx b" "ab_tx b \<noteq> JUndef" if "b \<in> set ?bs" for b using assms(2) that unfolding plain_blocks_def by blast+
  have f: "face_of_rank H v m k \<in> set (faces_of m)" "rank_in H v (face_of_rank H v m k) = k" using face_of_rank_in[OF assms(3,4)] by blast+
  have "filter (\<lambda>b. row_face (adopted_block_row b) = JInt (int k)) ?bs = filter (\<lambda>b. faceIndex (ab_location b) = int k) ?bs"
    by (rule filter_cong[OF refl]) (use pl adopted_row_reads(1) in simp)
  also have "\<dots> = (adopt_face H v ctx \<circ> blocks_of) (face_of_rank H v m k)"
    by (rule filter_one_group[OF f(1), of "rank_in H v"])
      (use ranks_onto[OF assms(3)] f(2) adopt_face_where in \<open>fastforce simp: rank_in_def face_hashes_def\<close>)+
  finally have fl: "filter (\<lambda>b. row_face (adopted_block_row b) = JInt (int k)) ?bs = adopt_face H v ctx (blocks_of (face_of_rank H v m k))" by simp
  have "mset (filter (\<lambda>b. row_face b = JInt (int k)) rows) = mset (filter (\<lambda>b. row_face b = JInt (int k)) (map adopted_block_row ?bs))"
    unfolding mset_filter assms(1) ..
  also have "\<dots> = mset (map adopted_block_row (adopt_face H v ctx (blocks_of (face_of_rank H v m k))))" unfolding filter_map using fl by (simp add: comp_def)
  finally have "mset (map row_member (filter (\<lambda>b. row_face b = JInt (int k)) rows))
      = mset (map row_member (map adopted_block_row (adopt_face H v ctx (blocks_of (face_of_rank H v m k)))))" by (simp only: mset_map)
  moreover have "map row_member (map adopted_block_row (adopt_face H v ctx (blocks_of (face_of_rank H v m k))))
      = map (\<lambda>b. member_of (ab_hash b) (ab_tx b)) (adopt_face H v ctx (blocks_of (face_of_rank H v m k)))"
    unfolding map_map by (rule map_cong[OF refl]) (use fl pl adopted_row_reads(2) in \<open>metis comp_apply filter_is_subset subsetD\<close>)
  ultimately show ?thesis by (simp only:)
qed

lemma built_from_groups:
  assumes "lg_open lg" "row_face ` set (cube_rows_of cid lg) = {JInt 0, JInt 1, JInt 2}"
    "\<forall>k \<in> {0, 1, 2}. length (filter (\<lambda>b. row_face b = JInt k) (cube_rows_of cid lg)) = 9"
  shows "buildPayload cid lg = Some (map (\<lambda>k. bare_face (map row_member (filter (\<lambda>b. row_face b = JInt k) (cube_rows_of cid lg)))) [0, 1, 2])"
proof -
  let ?m = "fold push_row (cube_rows_of cid lg) []" and ?g = "\<lambda>k. map row_member (filter (\<lambda>b. row_face b = JInt k) (cube_rows_of cid lg))"
  have ks: "set (jkeys ?m) = {JInt 0, JInt 1, JInt 2}" using push_rows_keys[of "cube_rows_of cid lg" "[]"] assms(2) by simp
  have d: "distinct (jkeys ?m)" using push_rows_ok[of "[]"] by (simp add: jmap_ok_def)
  have len: "length ?m = 3" using distinct_card[OF d] unfolding ks by simp
  have g: "jget ?m (JInt k) = Some (?g k)" if "k \<in> {0, 1, 2}" for k
  proof -
    have "length (?g k) = 9" unfolding length_map by (rule bspec[OF assms(3) that])
    then have "?g k \<noteq> []" by (metis list.size(3) zero_neq_numeral)
    then show ?thesis by (simp add: push_rows_get Let_def)
  qed
  have "map (\<lambda>k. the (jget ?m k)) (sorted_faces (jkeys ?m)) = map ?g [0, 1, 2]" unfolding three_faces[OF d ks] by (simp add: g)
  moreover have "\<not> (\<exists>x \<in> set (map ?g [0, 1, 2]). length x \<noteq> 9)" using assms(3) by simp
  ultimately show ?thesis using assms(1) len unfolding buildPayload_def Let_def by (simp add: bare_face_def)
qed

text \<open>The blocks adoption writes for a payload, and the group of one face among their rows.\<close>

definition written_blocks :: "(string \<Rightarrow> string) \<Rightarrow> verified \<Rightarrow> adopt_ctx \<Rightarrow> jsval \<Rightarrow> adopted_block list" where
  "written_blocks H v ctx m = concat (map (adopt_face H v ctx \<circ> blocks_of) (faces_of m))"

definition row_group :: "jsval list \<Rightarrow> nat \<Rightarrow> jsval list" where
  "row_group rows k = map row_member (filter (\<lambda>b. row_face b = JInt (int k)) rows)"

lemma regained_good:
  assumes "mset rows = mset (map adopted_block_row (written_blocks H v ctx m))" "plain_blocks (written_blocks H v ctx m)"
    "verifyCube H D opts m i = Inr v" "distinct (map (take 16 \<circ> ab_hash) (written_blocks H v ctx m))" "k \<in> {0, 1, 2}"
  shows "good_group H D (row_group rows k) \<and> group_root H (row_group rows k) = the (merkleRoot H (face_hashes (face_of_rank H v m k)))"
proof -
  let ?f = "face_of_rank H v m k"
  obtain r where r: "check_face H D ?f = Inr r" using verified_faces[OF assms(3)] face_of_rank_in[OF assms(3,5)] by blast
  have "distinct (map ab_hash (written_blocks H v ctx m))" using assms(4) by (metis distinct_map map_map)
  then have "distinct (map ab_hash (adopt_face H v ctx (blocks_of ?f)))"
    using face_of_rank_in[OF assms(3,5)] by (auto simp: written_blocks_def map_concat distinct_concat_iff)
  then have "distinct (face_hashes ?f)" by (simp only: adopt_face_hashes face_hashes_def)
  then show ?thesis
    using regained_group[OF r group_of_rank[OF assms(1,2)[unfolded written_blocks_def] assms(3,5)]] unfolding row_group_def by blast
qed

lemma regained_indices:
  assumes "mset rows = mset (map adopted_block_row (written_blocks H v ctx m))" "plain_blocks (written_blocks H v ctx m)"
    "verifyCube H D opts m i = Inr v" "\<forall>k \<in> {0, 1, 2}. length (row_group rows k) = 9"
  shows "row_face ` set rows = {JInt 0, JInt 1, JInt 2}"
proof -
  have "row_face ` set rows = row_face ` adopted_block_row ` set (written_blocks H v ctx m)" using mset_eq_setD[OF assms(1)] by simp
  also have "\<dots> = (\<lambda>b. JInt (faceIndex (ab_location b))) ` set (written_blocks H v ctx m)"
    unfolding image_image by (rule image_cong[OF refl]) (use assms(2) in \<open>simp add: plain_blocks_def adopted_row_reads(1)\<close>)
  also have "\<dots> \<subseteq> (\<lambda>k. JInt (int k)) ` rank_in H v ` set (faces_of m)"
    using adopt_face_where by (fastforce simp: rank_in_def face_hashes_def written_blocks_def)
  finally have "row_face ` set rows \<subseteq> {JInt 0, JInt 1, JInt 2}" using ranks_onto[OF assms(3)] by simp
  moreover have "JInt (int k) \<in> row_face ` set rows" if k: "k \<in> {0, 1, 2}" for k
  proof -
    have "length (row_group rows k) = 9" by (rule bspec[OF assms(4) k])
    then have "filter (\<lambda>b. row_face b = JInt (int k)) rows \<noteq> []" unfolding row_group_def by (metis length_map list.size(3) zero_neq_numeral)
    then show ?thesis by (force simp: filter_empty_conv)
  qed
  ultimately show ?thesis by force
qed

lemma adopted_cube_builds:
  assumes "verifyCube H D no_opts m i = Inr v" "i \<noteq> []" "lg_open lg" "planAdoption H v (faces_of m) (sync_ctx lg) = Some a"
    "distinct (map (take 16 \<circ> ab_hash) (ad_blocks a))" "plain_blocks (ad_blocks a)" "cube_rows_of (JStr i) lg = []"
  shows "\<exists>gs. buildPayload (JStr i) (adopt_into a lg) = Some (map bare_face gs) \<and> (\<forall>g \<in> set gs. good_group H D g) \<and> length gs = 3
    \<and> distinct (map (group_root H) gs) \<and> mset (map (group_root H) gs) = mset (vf_faceRoots v)"
proof -
  let ?f = "face_of_rank H v m"
  define lg' rows where "lg' = adopt_into a lg" and "rows = cube_rows_of (JStr i) lg'"
  have bs: "ad_blocks a = written_blocks H v (sync_ctx lg) m"
    using assms(4) by (auto simp: planAdoption_def written_blocks_def Let_def split: if_splits)
  have vi: "vf_id v = i" using verified_id[OF assms(1)] assms(2) by blast
  have ci: "\<forall>b \<in> set (ad_blocks a). cubeIndex (ab_location b) = IText i" unfolding bs written_blocks_def using adopt_face_where vi by fastforce
  have "mset (cube_rows_of (JStr i) (fold put_adopted (ad_blocks a) (lg\<lparr>lg_cuberows := jset (lg_cuberows lg) (ad_id a) (adopted_cube_row a)\<rparr>)))
      = mset (map adopted_block_row (ad_blocks a))"
    by (rule adopted_rows_are[OF assms(5) ci assms(6)]) (use assms(7) in \<open>simp add: cube_rows_of_def\<close>)
  then have rows: "mset rows = mset (map adopted_block_row (written_blocks H v (sync_ctx lg) m))"
    by (simp add: rows_def lg'_def adopt_into_def Let_def cube_rows_of_def bs)
  note gk = regained_good[OF rows assms(6)[unfolded bs] assms(1) assms(5)[unfolded bs]]
  have len: "\<forall>k \<in> {0, 1, 2}. length (row_group rows k) = 9" using gk by (simp add: good_group_def)
  have "buildPayload (JStr i) lg' = Some (map (\<lambda>k. bare_face (map row_member (filter (\<lambda>b. row_face b = JInt k) rows))) [0, 1, 2])"
    unfolding rows_def
  proof (rule built_from_groups)
    show "lg_open lg'" using assms(3) by (simp add: lg'_def adopt_into_def Let_def put_adopted_frame)
    show "row_face ` set (cube_rows_of (JStr i) lg') = {JInt 0, JInt 1, JInt 2}"
      using regained_indices[OF rows assms(6)[unfolded bs] assms(1) len] by (simp add: rows_def)
  qed (use len in \<open>simp add: rows_def row_group_def\<close>)
  then have "buildPayload (JStr i) lg' = Some (map bare_face (map (row_group rows) [0, 1, 2]))" by (simp add: row_group_def)
  moreover have "map (group_root H) (map (row_group rows) [0, 1, 2]) = map (\<lambda>k. the (merkleRoot H (face_hashes (?f k)))) [0, 1, 2]" using gk by simp
  ultimately show ?thesis using regained_roots[OF assms(1)] gk unfolding lg'_def
    by (intro exI[of _ "map (row_group rows) [0, 1, 2]"]) simp
qed

text \<open>C28: A node that adopted a cube passes it on. When the node has adopted a cube whose members' texts are those
  JSON gives back, whose blocks keep different keys and of which it had no row before, then a request for
  the cube makes it publish one message, and that message verifies, at whatever node hears it, under the
  same id and root.\<close>

theorem adopted_cube_is_served_on:
  assumes "verifyCube H D no_opts m i = Inr v" "i \<noteq> []" "lg_open (sm_ledger sm)" "sm_meshUp sm"
    "planAdoption H v (faces_of m) (sync_ctx (sm_ledger sm)) = Some a" "distinct (map (take 16 \<circ> ab_hash) (ad_blocks a))"
    "plain_blocks (ad_blocks a)" "cube_rows_of (JStr i) (sm_ledger sm) = []" "peer \<noteq> []" "peer \<noteq> sm_node sm"
  shows "\<exists>msg w. sm_out (onCube H D (JObj [(''req'', JStr peer), (''id'', JStr i)]) (adopt_cube H v (faces_of m) sm)) = sm_out sm @ [(TOPIC_CUBE, msg)]
    \<and> verify_claimed H D msg = Inr w \<and> vf_id w = vf_id v \<and> vf_root w = vf_root v"
proof -
  let ?sm = "adopt_cube H v (faces_of m) sm" and ?req = "JObj [(''req'', JStr peer), (''id'', JStr i)]"
  have s: "?sm = count_stat (\<lambda>s. s\<lparr>ss_adopted := ss_adopted s + 1\<rparr>) (sm\<lparr>sm_ledger := adopt_into a (sm_ledger sm)\<rparr>)"
    using assms(3,5) by (simp add: adopt_cube_def)
  obtain gs where gs: "buildPayload (JStr i) (adopt_into a (sm_ledger sm)) = Some (map bare_face gs)" "\<forall>g \<in> set gs. good_group H D g" "length gs = 3"
    "distinct (map (group_root H) gs)" "mset (map (group_root H) gs) = mset (vf_faceRoots v)"
    using adopted_cube_builds[OF assms(1-3,5-8)] by blast
  let ?msg = "JObj [(''nodeId'', JStr (sm_node sm)), (''id'', JStr i), (''faces'', JArr (map bare_face gs))]"
  have "own_or_empty ?req ?sm = False" "asked_by_other ?req ?sm = True" "truthy (JStr i)" "sm_ledger ?sm = adopt_into a (sm_ledger sm)"
    using assms(2,9,10) by (simp_all add: own_or_empty_def asked_by_other_def s)
  then have out: "sm_out (onCube H D ?req ?sm) = sm_out sm @ [(TOPIC_CUBE, ?msg)]"
    using assms(4) gs(1) by (simp add: onCube_def s count_stat_def sync_pub_def)
  have roots: "sort (map (group_root H) gs) = sort (vf_faceRoots v)" by (rule sort_mset_cong[OF gs(5)])
  have "vf_id v = sync_cubeIdOf H (vf_faceRoots v)" "vf_id v = i" using verified_id[OF assms(1)] assms(2) by blast+
  then have i: "i = sync_cubeIdOf H (map (group_root H) gs)" by (simp only: sync_cubeIdOf_def roots)
  have "vf_root v = the (merkleRoot H (sort (vf_faceRoots v)))" using verifyCubeD[OF assms(1)] by metis
  moreover have "verifyCube H D no_opts ?msg i
      = Inr \<lparr>vf_id = i, vf_root = the (merkleRoot H (sort (map (group_root H) gs))), vf_faceRoots = map (group_root H) gs\<rparr>"
    by (rule goods_verify[OF gs(2-4) _ _ _ i]) simp_all
  ultimately have "\<exists>w. verify_claimed H D ?msg = Inr w \<and> vf_id w = vf_id v \<and> vf_root w = vf_root v"
    using \<open>vf_id v = i\<close> roots by (simp add: verify_claimed_def)
  with out show ?thesis by blast
qed

end
