(* ===== verification/CubeSample.thy ===== *)
theory CubeSample
  imports CubeSyncServe
begin

text \<open>
  A concrete cube that verifies: 27 anchors with one xid and different events, three faces of nine, over a
  digest that keeps the front of what distinguishes its inputs. It is the input at which the theorem on
  serving an adopted cube is applied.
\<close>

section \<open>A digest and 27 anchors\<close>

definition tailed :: "string \<Rightarrow> string" where
  "tailed s = CHR 0x07 # take 31 (drop (if take 1 s = ''{'' then 26 else 2) s @ replicate 31 CHR ''0'')"

lemma digest_tailed: "digest tailed"
  by unfold_locales (simp add: tailed_def)

definition anchor_of :: "string \<Rightarrow> jsval" where
  "anchor_of e = JObj [(''type'', JStr ''anchor''), (''event'', JStr e), (''hash'', JStr ''h''), (''prior'', JStr ''p''),
     (''xid'', JStr ''0733613562323236383232356432633232363836663737323233613232363136''), (''nonce'', JInt 0)]"

definition anchor_hash :: "string \<Rightarrow> string" where
  "anchor_hash e = ''07'' @ hex_of e @ ''222c2268617368223a2268222c227473223a2230222c22786964223a22''"

definition face_events :: "char \<Rightarrow> string list" where
  "face_events c = map (\<lambda>d. [c, d]) ''123456789''"

definition sample_group :: "char \<Rightarrow> jsval list" where
  "sample_group c = map (\<lambda>e. member_of (anchor_hash e) (anchor_of e)) (face_events c)"

lemma anchor_validates0: "validateXid tailed (anchor_of []) = Inr True"
  by code_simp

lemma anchor_validates: "validateXid tailed (anchor_of e) = Inr True"
proof -
  have b: "micromineBody (anchor_of e) = micromineBody (anchor_of [])"
    by (simp add: micromineBody_def anchor_of_def type7PointerBody_def)
  have g: "getp (anchor_of e) ''type'' = getp (anchor_of []) ''type''" "getp (anchor_of e) ''xid'' = getp (anchor_of []) ''xid''"
    "getp (anchor_of e) ''nonce'' = getp (anchor_of []) ''nonce''" "getp (anchor_of e) ''prior'' = getp (anchor_of []) ''prior''"
    "is_object (anchor_of e) = is_object (anchor_of [])" by (simp_all add: anchor_of_def)
  have "validateXid tailed (anchor_of e) = validateXid tailed (anchor_of [])" unfolding validateXid_def b g ..
  then show ?thesis using anchor_validates0 by simp
qed

definition body_head :: string where "body_head = ''{\"type\":\"anchor\",\"event\":\"''"
definition body_tail :: string where
  "body_tail = ''\",\"hash\":\"h\",\"ts\":\"0\",\"xid\":\"0733613562323236383232356432633232363836663737323233613232363136\"}''"

lemma sample_body:
  assumes "concat (map json_char e) = e"
  shows "consensusBody (\<lambda>s. None) (anchor_of e) = Some (Some (body_head @ e @ body_tail))"
proof -
  have q: "json_quote e = CHR 0x22 # e @ [CHR 0x22]" using assms by (simp add: json_quote_def)
  have k: "json_quote ''type'' = ''\"type\"''" "json_quote ''anchor'' = ''\"anchor\"''" "json_quote ''event'' = ''\"event\"''"
    "json_quote ''hash'' = ''\"hash\"''" "json_quote ''h'' = ''\"h\"''" "json_quote ''ts'' = ''\"ts\"''" "json_quote ''xid'' = ''\"xid\"''"
    "show_int 0 = ''0''" "json_quote ''0'' = ''\"0\"''"
    "json_quote ''0733613562323236383232356432633232363836663737323233613232363136'' = ''\"0733613562323236383232356432633232363836663737323233613232363136\"''"
    "xid_re ''0733613562323236383232356432633232363836663737323233613232363136''"
    by code_simp+
  show ?thesis
    by (simp add: consensusBody_def anchor_of_def k(11) json_stringify_def anchorTimestampNanos_def k q body_head_def body_tail_def)
qed

lemma anchor_hashes:
  assumes "concat (map json_char e) = e" "length e = 2"
  shows "txHash tailed (\<lambda>s. None) (anchor_of e) = Some (Some (anchor_hash e))"
proof -
  have l: "length body_head = 26" "take 1 body_head = ''{''" by code_simp+
  have "drop 26 (body_head @ e @ body_tail @ replicate 31 CHR ''0'') = e @ body_tail @ replicate 31 CHR ''0''" using l by simp
  moreover have "take 1 (body_head @ e @ body_tail) = ''{''" using l by (simp add: take_append body_head_def)
  ultimately have "tailed (body_head @ e @ body_tail) = CHR 0x07 # take 31 (e @ body_tail @ replicate 31 CHR ''0'')"
    using l by (simp add: tailed_def)
  also have "\<dots> = CHR 0x07 # e @ take 29 body_tail"
    using assms(2) by (simp add: body_tail_def)
  finally have t: "tailed (body_head @ e @ body_tail) = [CHR 0x07] @ e @ take 29 body_tail" by simp
  have "hex_of (take 29 body_tail) = ''222c2268617368223a2268222c227473223a2230222c22786964223a22''" "hex_of [CHR 0x07] = ''07''" by code_simp+
  moreover have "hex_of ([CHR 0x07] @ e @ take 29 body_tail) = hex_of [CHR 0x07] @ hex_of e @ hex_of (take 29 body_tail)" by (simp add: hex_of_def)
  ultimately have "hex_of ([CHR 0x07] @ e @ take 29 body_tail) = anchor_hash e" unfolding anchor_hash_def by (simp only:)
  then show ?thesis by (simp add: txHash_def sample_body[OF assms(1)] sha256hex_def t anchor_hash_def)
qed

lemma sample_events: "list_all (\<lambda>e. concat (map json_char e) = e \<and> length e = 2 \<and> hex64 (anchor_hash e)) (concat (map face_events ''abc''))"
  by code_simp

lemma sample_pairs_a: "pair_up tailed (map anchor_hash (face_events CHR ''a'')) =
     [''0736313331323232633232363836313733363832323361323236383232326332'',
      ''0736313333323232633232363836313733363832323361323236383232326332'',
      ''0736313335323232633232363836313733363832323361323236383232326332'',
      ''0736313337323232633232363836313733363832323361323236383232326332'',
      ''0736313339323232633232363836313733363832323361323236383232326332'']"
  by code_simp

lemma sample_cube_root_a: "merkleRoot tailed
     [''0736313331323232633232363836313733363832323361323236383232326332'',
      ''0736313333323232633232363836313733363832323361323236383232326332'',
      ''0736313335323232633232363836313733363832323361323236383232326332'',
      ''0736313337323232633232363836313733363832323361323236383232326332'',
      ''0736313339323232633232363836313733363832323361323236383232326332'']
     = Some ''0733333333333333363333333333333331333333333333333333333333333333''"
  by code_simp

lemma sample_pairs_b: "pair_up tailed (map anchor_hash (face_events CHR ''b'')) =
     [''0736323331323232633232363836313733363832323361323236383232326332'',
      ''0736323333323232633232363836313733363832323361323236383232326332'',
      ''0736323335323232633232363836313733363832323361323236383232326332'',
      ''0736323337323232633232363836313733363832323361323236383232326332'',
      ''0736323339323232633232363836313733363832323361323236383232326332'']"
  by code_simp

lemma sample_cube_root_b: "merkleRoot tailed
     [''0736323331323232633232363836313733363832323361323236383232326332'',
      ''0736323333323232633232363836313733363832323361323236383232326332'',
      ''0736323335323232633232363836313733363832323361323236383232326332'',
      ''0736323337323232633232363836313733363832323361323236383232326332'',
      ''0736323339323232633232363836313733363832323361323236383232326332'']
     = Some ''0733333333333333363333333333333332333333333333333333333333333333''"
  by code_simp

lemma sample_pairs_c: "pair_up tailed (map anchor_hash (face_events CHR ''c'')) =
     [''0736333331323232633232363836313733363832323361323236383232326332'',
      ''0736333333323232633232363836313733363832323361323236383232326332'',
      ''0736333335323232633232363836313733363832323361323236383232326332'',
      ''0736333337323232633232363836313733363832323361323236383232326332'',
      ''0736333339323232633232363836313733363832323361323236383232326332'']"
  by code_simp

lemma sample_cube_root_c: "merkleRoot tailed
     [''0736333331323232633232363836313733363832323361323236383232326332'',
      ''0736333333323232633232363836313733363832323361323236383232326332'',
      ''0736333335323232633232363836313733363832323361323236383232326332'',
      ''0736333337323232633232363836313733363832323361323236383232326332'',
      ''0736333339323232633232363836313733363832323361323236383232326332'']
     = Some ''0733333333333333363333333333333333333333333333333333333333333333''"
  by code_simp

lemma sample_prefixes: "distinct (map (take 16 \<circ> anchor_hash) (concat (map face_events ''abc'')))"
  by code_simp

lemma sample_sorted: "list_all (\<lambda>c. sorted (map anchor_hash (face_events c))) ''abc''"
  by code_simp

section \<open>The cube\<close>

definition sample_cube_root :: "char \<Rightarrow> string" where
  "sample_cube_root c = (if c = CHR ''a'' then ''0733333333333333363333333333333331333333333333333333333333333333''
     else if c = CHR ''b'' then ''0733333333333333363333333333333332333333333333333333333333333333'' else ''0733333333333333363333333333333333333333333333333333333333333333'')"

lemma event_members: "c \<in> set ''abc'' \<Longrightarrow> e \<in> set (face_events c) \<Longrightarrow> concat (map json_char e) = e \<and> length e = 2 \<and> hex64 (anchor_hash e)"
  using sample_events by (simp only: list_all_iff set_concat set_map) blast

lemma sample_member:
  assumes "c \<in> set ''abc''" "e \<in> set (face_events c)"
  shows "check_member tailed (\<lambda>s. None) (member_of (anchor_hash e) (anchor_of e)) = Inr (anchor_hash e)"
proof -
  have "is_object (anchor_of e)" by (simp add: anchor_of_def)
  then show ?thesis using event_members[OF assms] anchor_hashes[of e] anchor_validates[of e] by (simp add: check_member_def member_of_def)
qed

lemma sample_group_hashes: "map hash_of (sample_group c) = map anchor_hash (face_events c)"
  by (simp add: sample_group_def hash_of_def member_of_def)

lemma sample_good:
  assumes "c \<in> set ''abc''"
  shows "good_group tailed (\<lambda>s. None) (sample_group c)"
proof -
  have "distinct (map (take 16) (map anchor_hash (face_events c)))"
    using sample_prefixes assms by (auto simp: map_concat distinct_concat_iff comp_def)
  then have "distinct (map hash_of (sample_group c))" unfolding sample_group_hashes by (simp only: distinct_map)
  moreover have "length (sample_group c) = 9" by (simp add: sample_group_def face_events_def)
  ultimately show ?thesis using sample_member[OF assms] by (auto simp: good_group_def sample_group_def)
qed

lemma sample_group_root:
  assumes "c \<in> set ''abc''"
  shows "group_root tailed (sample_group c) = sample_cube_root c"
proof -
  have "sort (map hash_of (sample_group c)) = map anchor_hash (face_events c)"
    unfolding sample_group_hashes using sample_sorted assms by (intro sorted_sort_id) (simp only: list_all_iff)
  moreover have "length (map anchor_hash (face_events c)) = 9" by (simp add: face_events_def)
  then have "merkleRoot tailed (map anchor_hash (face_events c)) = merkleRoot tailed (pair_up tailed (map anchor_hash (face_events c)))"
    by (subst merkleRoot.simps) auto
  ultimately have "group_root tailed (sample_group c) = the (merkleRoot tailed (pair_up tailed (map anchor_hash (face_events c))))"
    by (simp add: group_root_def)
  then show ?thesis using assms
    by (auto simp: sample_pairs_a sample_pairs_b sample_pairs_c sample_cube_root_a sample_cube_root_b sample_cube_root_c sample_cube_root_def)
qed

definition sample_groups :: "jsval list list" where
  "sample_groups = map sample_group ''abc''"

definition sample_cube_id :: string where
  "sample_cube_id = sync_cubeIdOf tailed (map (group_root tailed) sample_groups)"

definition sample_payload :: jsval where
  "sample_payload = JObj [(''nodeId'', JStr ''n2''), (''id'', JStr sample_cube_id), (''faces'', JArr (map bare_face sample_groups))]"

lemma sample_cube_verifies: "\<exists>v. verifyCube tailed (\<lambda>s. None) no_opts sample_payload sample_cube_id = Inr v"
proof -
  have "map (group_root tailed) sample_groups = map sample_cube_root ''abc''" using sample_group_root by (simp add: sample_groups_def)
  moreover have "distinct (map sample_cube_root ''abc'')" by code_simp
  ultimately have "distinct (map (group_root tailed) sample_groups)" by simp
  moreover have "\<forall>g \<in> set sample_groups. good_group tailed (\<lambda>s. None) g" using sample_good by (simp add: sample_groups_def)
  ultimately have "verifyCube tailed (\<lambda>s. None) no_opts sample_payload sample_cube_id = Inr \<lparr>vf_id = sample_cube_id,
      vf_root = the (merkleRoot tailed (sort (map (group_root tailed) sample_groups))), vf_faceRoots = map (group_root tailed) sample_groups\<rparr>"
    by (intro goods_verify) (simp_all add: sample_payload_def sample_cube_id_def, simp add: sample_groups_def)
  then show ?thesis by blast
qed

lemma sample_faces: "faces_of sample_payload = map bare_face sample_groups" "blocks_of (bare_face g) = g"
  by (simp_all add: faces_of_def sample_payload_def blocks_of_def bare_face_def)

lemma sample_written_hashes:
  "mset (map ab_hash (written_blocks H v ctx sample_payload)) = mset (map anchor_hash (concat (map face_events ''abc'')))"
proof -
  have "map ab_hash (written_blocks H v ctx sample_payload) = concat (map (\<lambda>g. sort (map hash_of g)) sample_groups)"
    unfolding written_blocks_def sample_faces(1) by (simp add: map_concat comp_def adopt_face_hashes sample_faces(2))
  then show ?thesis by (simp add: sample_groups_def sample_group_hashes)
qed

lemma sample_written_plain: "plain_blocks (written_blocks H v ctx sample_payload)"
proof -
  have "\<exists>e. ab_tx b = anchor_of e" if b: "b \<in> set (written_blocks H v ctx sample_payload)" for b
  proof -
    obtain g where g: "g \<in> set sample_groups" "b \<in> set (adopt_face H v ctx g)"
      using b by (auto simp: written_blocks_def sample_faces)
    then obtain c where "c \<in> set g" "ab_tx b = getp c ''tx''" using adopt_face_where by blast
    then show ?thesis using g(1) by (auto simp: sample_groups_def sample_group_def member_of_def) blast+
  qed
  moreover have "json_norm (anchor_of e) = anchor_of e \<and> anchor_of e \<noteq> JUndef" for e by (simp add: anchor_of_def)
  ultimately show ?thesis unfolding plain_blocks_def by metis
qed

lemma sample_written_distinct: "distinct (map (take 16 \<circ> ab_hash) (written_blocks H v ctx sample_payload))"
proof -
  have "mset (map (take 16 \<circ> ab_hash) (written_blocks H v ctx sample_payload)) = image_mset (take 16) (mset (map ab_hash (written_blocks H v ctx sample_payload)))"
    by (simp add: multiset.map_comp)
  also have "\<dots> = mset (map (take 16 \<circ> anchor_hash) (concat (map face_events ''abc'')))"
    unfolding sample_written_hashes by (simp only: mset_map multiset.map_comp)
  finally show ?thesis using sample_prefixes mset_eq_imp_distinct_iff by blast
qed

lemma sample_cube_id_text: "sample_cube_id \<noteq> []"
proof -
  have "length sample_cube_id = 16" using digest_tailed by (simp add: sample_cube_id_def sync_cubeIdOf_def sha256hex_def digest_def)
  then show ?thesis by auto
qed

text \<open>The theorem at the sample cube: a fresh node adopts it and serves it to another.\<close>

lemma adopted_cube_is_served_on_witness:
  "\<exists>v msg w. verifyCube tailed (\<lambda>s. None) no_opts sample_payload sample_cube_id = Inr v
     \<and> sm_out (onCube tailed (\<lambda>s. None) (JObj [(''req'', JStr ''n3''), (''id'', JStr sample_cube_id)])
         (adopt_cube tailed v (faces_of sample_payload) toy_sync)) = [(TOPIC_CUBE, msg)]
     \<and> verify_claimed tailed (\<lambda>s. None) msg = Inr w \<and> vf_id w = sample_cube_id"
proof -
  obtain v where v: "verifyCube tailed (\<lambda>s. None) no_opts sample_payload sample_cube_id = Inr v" using sample_cube_verifies by blast
  have vi: "vf_id v = sample_cube_id" using verified_id[OF v] sample_cube_id_text by blast
  have t: "lg_open (sm_ledger toy_sync)" "sm_meshUp toy_sync" "sm_out toy_sync = []" "sm_node toy_sync = ''n1''"
    "localCubes (sm_ledger toy_sync) = []" "cube_rows_of c (sm_ledger toy_sync) = []" for c
    by (simp_all add: toy_sync_def new_sync_manager_def new_ledger_def localCubes_def cube_rows_of_def)
  obtain a where a: "planAdoption tailed v (faces_of sample_payload) (sync_ctx (sm_ledger toy_sync)) = Some a"
    by (simp add: planAdoption_def sync_ctx_def t Let_def)
  have b: "ad_blocks a = written_blocks tailed v (sync_ctx (sm_ledger toy_sync)) sample_payload"
    using a by (auto simp: planAdoption_def written_blocks_def Let_def split: if_splits)
  have d: "distinct (map (take 16 \<circ> ab_hash) (ad_blocks a))" "plain_blocks (ad_blocks a)"
    unfolding b by (rule sample_written_distinct, rule sample_written_plain)
  obtain msg w where "sm_out (onCube tailed (\<lambda>s. None) (JObj [(''req'', JStr ''n3''), (''id'', JStr sample_cube_id)])
         (adopt_cube tailed v (faces_of sample_payload) toy_sync)) = sm_out toy_sync @ [(TOPIC_CUBE, msg)]"
      "verify_claimed tailed (\<lambda>s. None) msg = Inr w" "vf_id w = vf_id v"
    using adopted_cube_is_served_on[OF v sample_cube_id_text t(1,2) a d t(6), of "''n3''"] t(4)
    by auto
  then show ?thesis using v vi t(3) by auto
qed

end
