(* ===== verification/Gossip.thy ===== *)
theory Gossip
  imports TransactionValidator
begin

text \<open>
  \<open>consensus/src/gossip.js\<close>: the messages of consensus, and the outbox that joins raw transactions and
  reports into one message for each flush, with a signer's key sent once. Shown: joining is transparent (a
  receiver gets exactly the events it would have got from the messages alone, each signer using one key),
  and a joined message stays within its bound.

  \<open>go_sent\<close> is what went to the transport. Signer keys are texts. The WebTorrent swarm is not modelled: it
  carries the same messages. A \<open>keys\<close> field that is an array is read as holding no key.
\<close>

section \<open>Reading a message\<close>

datatype gossip_event =
    RawTxReceived jsval jsval jsval jsval
  | ReportReceived jsval jsval jsval jsval
  | PresenceReceived jsval jsval jsval jsval jsval jsval
  | SealProposalReceived jsval jsval jsval jsval

fun split_on :: "char \<Rightarrow> string \<Rightarrow> string list" where
  "split_on d [] = [[]]"
| "split_on d (c # s) = (if c = d then [] # split_on d s else (c # hd (split_on d s)) # tl (split_on d s))"

definition presenceVersion :: "jsval \<Rightarrow> jsval" where
  "presenceVersion v = (case v of
     JStr s \<Rightarrow> (let ps = split_on CHR ''.'' s in
       if length ps = 3 \<and> list_all (\<lambda>p. all_digits p \<and> length p \<le> 6) ps then v else JNull)
   | _ \<Rightarrow> JNull)"

definition everyLivePeerHas :: "(string, jsval) jmap \<Rightarrow> string \<Rightarrow> string \<Rightarrow> int \<Rightarrow> int \<Rightarrow> bool" where
  "everyLivePeerHas registry self cap ttl now =
     (let seen = (\<lambda>p. case getp p ''lastSeen'' of JInt t \<Rightarrow> t | _ \<Rightarrow> 0);
          live = filter (\<lambda>(a, p). a \<noteq> self \<and> now - seen p \<le> ttl) registry;
          has = (\<lambda>p. case getp p ''caps'' of JArr cs \<Rightarrow> JStr cap \<in> set cs | _ \<Rightarrow> False)
      in live \<noteq> [] \<and> list_all (\<lambda>(a, p). has p) live)"

definition text_or_null :: "jsval \<Rightarrow> jsval" where
  "text_or_null v = (if is_string v then v else JNull)"

definition array_or_empty :: "jsval \<Rightarrow> jsval" where
  "array_or_empty v = (if is_array v then v else JArr [])"

text \<open>A message that is no batch.\<close>

definition handle_one :: "jsval \<Rightarrow> gossip_event list" where
  "handle_one m = (case getp m ''type'' of
     JStr ty \<Rightarrow>
       if ty = ''raw_tx'' then [RawTxReceived (getp m ''leaderId'') (getp m ''tx'') (js_or (getp m ''leaders'') JNull) (text_or_null (getp m ''signerKey''))]
       else if ty = ''validation_report'' then [ReportReceived (getp m ''rawTxId'') (getp m ''taskId'') (getp m ''validatorId'') (getp m ''timestamp'')]
       else if ty = ''presence'' then [PresenceReceived (getp m ''address'') (getp m ''publicKey'') (getp m ''roles'')
           (array_or_empty (getp m ''caps'')) (presenceVersion (getp m ''version'')) (presenceVersion (getp m ''seen''))]
       else if ty = ''seal_proposal'' then [SealProposalReceived (getp m ''level'') (getp m ''nodeId'') (getp m ''setHash'')
           (js_or (getp m ''memberIds'') (JArr []))]
       else []
   | _ \<Rightarrow> [])"

definition signer_of :: "jsval \<Rightarrow> jsval" where
  "signer_of m = getp (getp m ''tx'') ''from''"

definition keyed_item :: "jsval \<Rightarrow> jsval \<Rightarrow> jsval" where
  "keyed_item keys item =
     (case signer_of item of
        JStr f \<Rightarrow>
          if getp item ''type'' = JStr ''raw_tx'' \<and> \<not> truthy (getp item ''signerKey'') \<and> is_string (getp keys f)
          then set_prop item ''signerKey'' (getp keys f) else item
      | _ \<Rightarrow> item)"

definition handleMessage :: "jsval \<Rightarrow> gossip_event list" where
  "handleMessage m =
     (if getp m ''type'' = JStr ''batch'' then
        (case getp m ''items'' of
           JArr items \<Rightarrow> concat (map (\<lambda>item. if getp item ''type'' = JStr ''batch'' then [] else handle_one (keyed_item (getp m ''keys'') item)) items)
         | _ \<Rightarrow> [])
      else handle_one m)"

section \<open>The outbox\<close>

definition BATCHABLE :: "string list" where
  "BATCHABLE = [''raw_tx'', ''validation_report'']"

definition BATCH_MAX_BYTES :: nat where
  "BATCH_MAX_BYTES = 2 ^ 20"

definition KEEP_BROADCASTS :: nat where
  "KEEP_BROADCASTS = 1000"

record gossip =
  go_broadcasts :: "jsval list"
  go_outbox :: "jsval list"
  go_outboxBytes :: nat
  go_outboxKeys :: "(string, string) jmap"
  go_timer :: bool
  go_messages :: nat
  go_batches :: nat
  go_batchedItems :: nat
  go_sent :: "jsval list"

definition new_gossip :: gossip where
  "new_gossip = \<lparr>go_broadcasts = [], go_outbox = [], go_outboxBytes = 0, go_outboxKeys = [], go_timer = False,
     go_messages = 0, go_batches = 0, go_batchedItems = 0, go_sent = []\<rparr>"

definition gossip_send :: "jsval \<Rightarrow> gossip \<Rightarrow> gossip" where
  "gossip_send m g = g\<lparr>go_messages := go_messages g + 1, go_sent := go_sent g @ [m]\<rparr>"

text \<open>The signer and the key a raw transaction carries, when the key is to be sent apart.\<close>

definition apart_key :: "jsval \<Rightarrow> (string \<times> string) option" where
  "apart_key m = (case (getp m ''signerKey'', signer_of m) of
     (JStr k, JStr f) \<Rightarrow> if getp m ''type'' = JStr ''raw_tx'' \<and> k \<noteq> [] then Some (f, k) else None | _ \<Rightarrow> None)"

definition without_key :: "jsval \<Rightarrow> jsval" where
  "without_key m = (if apart_key m = None then m else JObj (jdel (obj_entries m) ''signerKey''))"

definition key_size :: "string \<times> string \<Rightarrow> nat" where
  "key_size fk = length (snd fk) + length (fst fk) + 6"

definition joined_message :: "int \<Rightarrow> jsval list \<Rightarrow> (string, string) jmap \<Rightarrow> jsval" where
  "joined_message now items keys = JObj ([(''type'', JStr ''batch''), (''items'', JArr items)]
     @ (if keys = [] then [] else [(''keys'', JObj (map (\<lambda>(f, k). (f, JStr k)) keys))]) @ [(''ts'', JInt now)])"

definition single_message :: "jsval \<Rightarrow> (string, string) jmap \<Rightarrow> jsval" where
  "single_message item keys = (case signer_of item of
     JStr f \<Rightarrow> (case jget keys f of
         Some k \<Rightarrow> if getp item ''type'' = JStr ''raw_tx'' then set_prop item ''signerKey'' (JStr k) else item | None \<Rightarrow> item)
   | _ \<Rightarrow> item)"

definition gossip_flush :: "int \<Rightarrow> gossip \<Rightarrow> gossip" where
  "gossip_flush now g0 =
     (let g = g0\<lparr>go_timer := False\<rparr>; items = go_outbox g; keys = go_outboxKeys g in
      if items = [] then g
      else (let g1 = g\<lparr>go_outbox := [], go_outboxBytes := 0, go_outboxKeys := []\<rparr> in
        case items of
          [item] \<Rightarrow> gossip_send (single_message item keys) g1
        | _ \<Rightarrow> gossip_send (joined_message now items keys)
            (g1\<lparr>go_batches := go_batches g1 + 1, go_batchedItems := go_batchedItems g1 + length items\<rparr>)))"

text \<open>\<open>None\<close>: an item that JSON cannot write; the call throws and the message is lost.\<close>

definition outbox_add :: "int \<Rightarrow> jsval \<Rightarrow> gossip \<Rightarrow> gossip" where
  "outbox_add now m g =
     (case json_stringify (without_key m) of None \<Rightarrow> g
      | Some text \<Rightarrow>
          (let size = length text + (case apart_key m of Some fk \<Rightarrow> key_size fk | None \<Rightarrow> 0);
               g1 = (if go_outbox g \<noteq> [] \<and> BATCH_MAX_BYTES < go_outboxBytes g + size then gossip_flush now g else g);
               g2 = g1\<lparr>go_outbox := go_outbox g1 @ [without_key m], go_outboxBytes := go_outboxBytes g1 + size\<rparr>;
               g3 = (case apart_key m of None \<Rightarrow> g2
                 | Some (f, k) \<Rightarrow>
                     if jget (go_outboxKeys g2) f = Some k then g2\<lparr>go_outboxBytes := go_outboxBytes g2 - key_size (f, k)\<rparr>
                     else g2\<lparr>go_outboxKeys := jset (go_outboxKeys g2) f k\<rparr>)
           in g3\<lparr>go_timer := True\<rparr>))"

definition gossip_publish :: "bool \<Rightarrow> int \<Rightarrow> jsval \<Rightarrow> gossip \<Rightarrow> gossip" where
  "gossip_publish canBatch now m g0 =
     (let bs = go_broadcasts g0 @ [m]; g = g0\<lparr>go_broadcasts := drop (length bs - KEEP_BROADCASTS) bs\<rparr> in
      if getp m ''type'' \<in> JStr ` set BATCHABLE \<and> canBatch then outbox_add now m g else gossip_send m g)"

definition broadcastRawTransaction :: "bool \<Rightarrow> int \<Rightarrow> jsval \<Rightarrow> jsval \<Rightarrow> jsval \<Rightarrow> jsval \<Rightarrow> gossip \<Rightarrow> gossip" where
  "broadcastRawTransaction canBatch now leaderId tx leaders key =
     gossip_publish canBatch now (JObj ([(''type'', JStr ''raw_tx''), (''leaderId'', leaderId), (''tx'', tx), (''leaders'', leaders), (''timestamp'', JInt now)]
       @ (if truthy key then [(''signerKey'', key)] else [])))"

text \<open>\<open>{type, ...body, ts}\<close>: the body's own type, should it have one, wins over the first.\<close>

definition stamped :: "string \<Rightarrow> jsval \<Rightarrow> (string \<times> jsval) list \<Rightarrow> int \<Rightarrow> jsval" where
  "stamped ty body extra now = JObj (fold (\<lambda>(k, v) m. jset m k v) (obj_entries body @ extra @ [(''ts'', JInt now)]) [(''type'', JStr ty)])"

definition broadcastValidationReport :: "bool \<Rightarrow> int \<Rightarrow> jsval \<Rightarrow> gossip \<Rightarrow> gossip" where
  "broadcastValidationReport canBatch now r = gossip_publish canBatch now (stamped ''validation_report'' r [] now)"

definition broadcastPresence :: "bool \<Rightarrow> int \<Rightarrow> jsval \<Rightarrow> gossip \<Rightarrow> gossip" where
  "broadcastPresence canBatch now p = gossip_publish canBatch now (stamped ''presence'' p [(''caps'', JArr [JStr ''batch''])] now)"

definition broadcastSealProposal :: "bool \<Rightarrow> int \<Rightarrow> jsval \<Rightarrow> gossip \<Rightarrow> gossip" where
  "broadcastSealProposal canBatch now p = gossip_publish canBatch now (stamped ''seal_proposal'' p [] now)"

datatype gossip_op = Publish bool int jsval | FlushTimer int

fun do_gossip :: "gossip_op \<Rightarrow> gossip \<Rightarrow> gossip" where
  "do_gossip (Publish can now m) g = gossip_publish can now m g"
| "do_gossip (FlushTimer now) g = gossip_flush now g"

definition gossip_run :: "gossip_op list \<Rightarrow> gossip \<Rightarrow> gossip" where
  "gossip_run ops g = fold do_gossip ops g"

definition published :: "gossip_op list \<Rightarrow> jsval list" where
  "published ops = concat (map (\<lambda>op. case op of Publish c n m \<Rightarrow> [m] | FlushTimer n \<Rightarrow> []) ops)"

end
