(* ===== verification/GossipProps.thy ===== *)
theory GossipProps
  imports Gossip
begin

text \<open>
  Joining messages is transparent, and a joined message stays within its bound. The pending messages of the
  outbox are tracked beside it; the abstraction is the multiset of events a receiver gets.
\<close>

section \<open>An item keeps its events\<close>

text \<open>Each signer uses one key, or none.\<close>

definition one_key :: "(string \<Rightarrow> string option) \<Rightarrow> jsval \<Rightarrow> bool" where
  "one_key K m \<longleftrightarrow> getp m ''type'' = JStr ''raw_tx'' \<longrightarrow>
     (case signer_of m of JStr f \<Rightarrow>
        (case K f of Some k \<Rightarrow> k \<noteq> [] \<and> getp m ''signerKey'' = JStr k | None \<Rightarrow> \<not> truthy (getp m ''signerKey'')) | _ \<Rightarrow> True)"

lemma apart_keyD:
  assumes "apart_key m = Some (f, k)"
  shows "getp m ''type'' = JStr ''raw_tx'' \<and> getp m ''signerKey'' = JStr k \<and> signer_of m = JStr f \<and> k \<noteq> []"
  using assms by (auto simp: apart_key_def split: bool.splits jsval.splits if_splits)

lemma getp_without_key: "j \<noteq> ''signerKey'' \<Longrightarrow> getp (without_key m) j = getp m j"
  by (cases m) (auto simp: without_key_def jget_jdel apart_key_def)

lemma signer_without_key [simp]: "signer_of (without_key m) = signer_of m"
  by (simp add: signer_of_def getp_without_key)

lemma no_key_left: "apart_key m \<noteq> None \<Longrightarrow> getp (without_key m) ''signerKey'' = JUndef"
  by (simp add: without_key_def jget_jdel del: not_None_eq)

lemma without_key_object: "apart_key m \<noteq> None \<Longrightarrow> \<exists>kvs. without_key m = JObj kvs"
  by (simp add: without_key_def del: not_None_eq)

lemma handle_one_cong:
  assumes "\<And>j. j \<noteq> ''signerKey'' \<Longrightarrow> getp a j = getp b j" "getp a ''signerKey'' = getp b ''signerKey''"
  shows "handle_one a = handle_one b"
proof -
  have "getp a = getp b" using assms by (intro ext) metis
  then show ?thesis unfolding handle_one_def by (simp only:)
qed

text \<open>A key put back where it was taken from.\<close>

lemma put_back:
  assumes "apart_key m = Some (f, k)"
  shows "handle_one (set_prop (without_key m) ''signerKey'' (JStr k)) = handle_one m"
proof (rule handle_one_cong)
  obtain kvs where w: "without_key m = JObj kvs" using without_key_object[of m] assms by auto
  show "getp (set_prop (without_key m) ''signerKey'' (JStr k)) j = getp m j" if "j \<noteq> ''signerKey''" for j
    using getp_without_key[OF that, of m] that by (simp add: w jget_jset)
  show "getp (set_prop (without_key m) ''signerKey'' (JStr k)) ''signerKey'' = getp m ''signerKey''"
    using apart_keyD[OF assms] by (simp add: w jget_jset)
qed

definition keys_fit :: "(string \<Rightarrow> string option) \<Rightarrow> (string, string) jmap \<Rightarrow> jsval list \<Rightarrow> bool" where
  "keys_fit K ks ms \<longleftrightarrow> (\<forall>f k. jget ks f = Some k \<longrightarrow> K f = Some k)
     \<and> (\<forall>m \<in> set ms. \<forall>f k. apart_key m = Some (f, k) \<longrightarrow> jget ks f = Some k)"

lemma apart_none:
  assumes "one_key K m" "apart_key m = None" "getp m ''type'' = JStr ''raw_tx''" "signer_of m = JStr f"
  shows "K f = None"
  using assms by (auto simp: one_key_def apart_key_def split: option.splits if_splits)

lemma jget_keys: "jget (map (\<lambda>(f, k). (f, JStr k)) ks) f = map_option JStr (jget ks f)"
  by (induction ks) auto

lemma keyed_events:
  assumes "one_key K m" "keys_fit K ks ms" "m \<in> set ms"
  shows "handle_one (keyed_item (JObj (map (\<lambda>(f, k). (f, JStr k)) ks)) (without_key m)) = handle_one m"
proof (cases "apart_key m")
  case None
  then have w: "without_key m = m" by (simp add: without_key_def)
  have "jget ks f = None" if "getp m ''type'' = JStr ''raw_tx''" "signer_of m = JStr f" for f
    using apart_none[OF assms(1) None that] assms(2) by (cases "jget ks f") (auto simp: keys_fit_def)
  then have "keyed_item (JObj (map (\<lambda>(f, k). (f, JStr k)) ks)) m = m" by (auto simp: keyed_item_def jget_keys split: jsval.split option.split)
  then show ?thesis by (simp add: w)
next
  case (Some fk)
  obtain f k where a: "apart_key m = Some (f, k)" using Some by (cases fk) auto
  then have "jget ks f = Some k" using assms(2,3) by (auto simp: keys_fit_def)
  then have "keyed_item (JObj (map (\<lambda>(f, k). (f, JStr k)) ks)) (without_key m) = set_prop (without_key m) ''signerKey'' (JStr k)"
    using apart_keyD[OF a] no_key_left[of m] a by (simp add: keyed_item_def jget_keys getp_without_key)
  then show ?thesis using put_back[OF a] by simp
qed

lemma single_events:
  assumes "one_key K m" "keys_fit K ks [m]"
  shows "handle_one (single_message (without_key m) ks) = handle_one m"
proof (cases "apart_key m")
  case None
  then have w: "without_key m = m" by (simp add: without_key_def)
  have "jget ks f = None" if "getp m ''type'' = JStr ''raw_tx''" "signer_of m = JStr f" for f
    using apart_none[OF assms(1) None that] assms(2) by (cases "jget ks f") (auto simp: keys_fit_def)
  then have "single_message m ks = m" by (auto simp: single_message_def split: jsval.split option.split)
  then show ?thesis by (simp add: w)
next
  case (Some fk)
  obtain f k where a: "apart_key m = Some (f, k)" using Some by (cases fk) auto
  then have "jget ks f = Some k" using assms(2) by (auto simp: keys_fit_def)
  then have "single_message (without_key m) ks = set_prop (without_key m) ''signerKey'' (JStr k)"
    using apart_keyD[OF a] by (simp add: single_message_def getp_without_key)
  then show ?thesis using put_back[OF a] by simp
qed

section \<open>The outbox against what is pending\<close>

definition batchable :: "jsval \<Rightarrow> bool" where
  "batchable m \<longleftrightarrow> getp m ''type'' \<in> JStr ` set BATCHABLE"

definition holds_pending :: "(string \<Rightarrow> string option) \<Rightarrow> jsval list \<Rightarrow> gossip \<Rightarrow> bool" where
  "holds_pending K ms g \<longleftrightarrow> go_outbox g = map without_key ms \<and> keys_fit K (go_outboxKeys g) ms \<and> (\<forall>m \<in> set ms. one_key K m \<and> batchable m)"

definition events_of :: "jsval list \<Rightarrow> gossip_event list" where
  "events_of ms = concat (map handleMessage ms)"

lemma batchable_handled: "batchable m \<Longrightarrow> handleMessage m = handle_one m"
  by (auto simp: batchable_def BATCHABLE_def handleMessage_def)

lemma single_type: "getp (single_message (without_key m) ks) ''type'' = getp m ''type''"
proof -
  have "getp (set_prop (without_key m) ''signerKey'' v) ''type'' = getp m ''type''" if "getp m ''type'' \<noteq> JUndef" for v
    using that getp_without_key[of "''type''" m] by (cases "without_key m") (auto simp: jget_jset)
  then show ?thesis by (auto simp: single_message_def getp_without_key split: jsval.split option.split)
qed

lemma joined_events:
  assumes "holds_pending K ms g"
  shows "handleMessage (joined_message now (go_outbox g) (go_outboxKeys g)) = concat (map handle_one ms)"
proof -
  let ?ks = "JObj (map (\<lambda>(f, k). (f, JStr k)) (go_outboxKeys g))"
  have k: "keyed_item (getp (joined_message now (go_outbox g) (go_outboxKeys g)) ''keys'') = keyed_item ?ks"
    by (rule ext) (auto simp: joined_message_def keyed_item_def split: jsval.split)
  have t: "getp (without_key m) ''type'' \<noteq> JStr ''batch''" "handle_one (keyed_item ?ks (without_key m)) = handle_one m" if "m \<in> set ms" for m
    using assms that keyed_events[of K m "go_outboxKeys g" ms] by (auto simp: holds_pending_def batchable_def BATCHABLE_def getp_without_key)
  have "map (\<lambda>item. if getp item ''type'' = JStr ''batch'' then [] else handle_one (keyed_item ?ks item)) (go_outbox g) = map handle_one ms"
    using assms t by (simp add: holds_pending_def)
  moreover have "getp (joined_message now (go_outbox g) (go_outboxKeys g)) ''items'' = JArr (go_outbox g)"
    "getp (joined_message now (go_outbox g) (go_outboxKeys g)) ''type'' = JStr ''batch''" by (simp_all add: joined_message_def)
  ultimately show ?thesis unfolding handleMessage_def k by simp
qed

lemma flush_sends_pending:
  assumes "holds_pending K ms g"
  shows "events_of (go_sent (gossip_flush now g)) = events_of (go_sent g) @ events_of ms \<and> holds_pending K [] (gossip_flush now g)"
proof -
  have e: "events_of ms = concat (map handle_one ms)"
    using assms batchable_handled by (auto simp: events_of_def holds_pending_def intro: arg_cong[of _ _ concat])
  consider "ms = []" | m where "ms = [m]" | a b xs where "ms = a # b # xs" by (cases ms; cases "tl ms") auto
  then show ?thesis
  proof cases
    case 1
    then show ?thesis using assms by (simp add: gossip_flush_def holds_pending_def events_of_def keys_fit_def)
  next
    case 2
    then have m: "one_key K m" "batchable m" "keys_fit K (go_outboxKeys g) [m]" "go_outbox g = [without_key m]"
      using assms by (auto simp: holds_pending_def)
    have "handleMessage (single_message (without_key m) (go_outboxKeys g)) = handle_one m"
      using m(2) single_type[of m] single_events[OF m(1,3)] by (auto simp: handleMessage_def batchable_def BATCHABLE_def)
    then show ?thesis using m(4) batchable_handled[OF m(2)]
      by (simp add: gossip_flush_def 2 gossip_send_def events_of_def holds_pending_def keys_fit_def)
  next
    case 3
    have "go_outbox g = without_key a # without_key b # map without_key xs" using assms by (simp add: holds_pending_def 3)
    then show ?thesis using joined_events[OF assms, of now] e
      by (simp add: gossip_flush_def gossip_send_def Let_def events_of_def holds_pending_def keys_fit_def)
  qed
qed

lemma fit_new_key:
  assumes "keys_fit K ks ms" "one_key K m" "apart_key m = Some (f, k)"
  shows "keys_fit K (if jget ks f = Some k then ks else jset ks f k) (ms @ [m])"
proof -
  have K: "K f = Some k" using assms(2) apart_keyD[OF assms(3)] by (auto simp: one_key_def split: option.splits)
  then have "jget ks f = Some k \<or> jget ks f = None" using assms(1) by (cases "jget ks f") (auto simp: keys_fit_def)
  then show ?thesis using assms K by (auto simp: keys_fit_def jget_jset)
qed

lemma fit_no_key: "keys_fit K ks ms \<Longrightarrow> apart_key m = None \<Longrightarrow> keys_fit K ks (ms @ [m])"
  by (auto simp: keys_fit_def)

lemma outbox_add_pending:
  assumes "holds_pending K ms g" "one_key K m" "batchable m" "json_stringify (without_key m) \<noteq> None"
  shows "\<exists>ms'. holds_pending K ms' (outbox_add now m g) \<and> events_of (go_sent (outbox_add now m g)) @ events_of ms' = events_of (go_sent g) @ events_of ms @ handleMessage m"
proof -
  obtain s where t: "json_stringify (without_key m) = Some s" using assms(4) by auto
  define sz where "sz = length s + (case apart_key m of Some fk \<Rightarrow> key_size fk | None \<Rightarrow> 0)"
  define full where "full \<longleftrightarrow> go_outbox g \<noteq> [] \<and> BATCH_MAX_BYTES < go_outboxBytes g + sz"
  define g1 where "g1 = (if full then gossip_flush now g else g)"
  obtain ms1 where 1: "holds_pending K ms1 g1" "events_of (go_sent g1) @ events_of ms1 = events_of (go_sent g) @ events_of ms"
  proof (cases full)
    case True
    then show thesis using flush_sends_pending[OF assms(1), of now] that[of "[]"] by (simp add: g1_def events_of_def)
  next
    case False
    then show thesis using that[of ms] assms(1) by (simp add: g1_def)
  qed
  have o: "go_outbox (outbox_add now m g) = go_outbox g1 @ [without_key m]" "go_sent (outbox_add now m g) = go_sent g1"
    "go_outboxKeys (outbox_add now m g) = (case apart_key m of None \<Rightarrow> go_outboxKeys g1
      | Some (f, k) \<Rightarrow> if jget (go_outboxKeys g1) f = Some k then go_outboxKeys g1 else jset (go_outboxKeys g1) f k)"
    by (simp_all add: outbox_add_def t sz_def[symmetric] full_def[symmetric] g1_def Let_def split: option.split prod.split)
  have "keys_fit K (go_outboxKeys (outbox_add now m g)) (ms1 @ [m])"
    using 1(1) fit_new_key[OF _ assms(2)] fit_no_key unfolding o(3) holds_pending_def by (simp split: option.split prod.split)
  then have "holds_pending K (ms1 @ [m]) (outbox_add now m g)" using 1(1) assms(2,3) o(1) by (simp add: holds_pending_def)
  moreover have "events_of (ms1 @ [m]) = events_of ms1 @ handleMessage m" by (simp add: events_of_def)
  ultimately show ?thesis using 1(2) o(2) by (metis append_assoc)
qed

definition sendable :: "(string \<Rightarrow> string option) \<Rightarrow> jsval \<Rightarrow> bool" where
  "sendable K m \<longleftrightarrow> one_key K m \<and> json_stringify (without_key m) \<noteq> None"

lemma op_pending:
  assumes "holds_pending K ms g" "\<forall>m \<in> set (published [op]). sendable K m"
  shows "\<exists>ms'. holds_pending K ms' (do_gossip op g) \<and> mset (events_of (go_sent (do_gossip op g))) + mset (events_of ms')
    = mset (events_of (go_sent g)) + mset (events_of ms) + mset (events_of (published [op]))"
proof (cases op)
  case (FlushTimer now)
  then show ?thesis using flush_sends_pending[OF assms(1), of now] by (intro exI[of _ "[]"]) (simp add: events_of_def published_def)
next
  case (Publish can now m)
  define g0 where "g0 = g\<lparr>go_broadcasts := drop (length (go_broadcasts g @ [m]) - KEEP_BROADCASTS) (go_broadcasts g @ [m])\<rparr>"
  have h: "holds_pending K ms g0" "go_sent g0 = go_sent g" using assms(1) by (simp_all add: g0_def holds_pending_def)
  have p: "published [op] = [m]" by (simp add: published_def Publish)
  have m: "sendable K m" using assms(2) p by simp
  show ?thesis
  proof (cases "batchable m \<and> can")
    case True
    then have d: "do_gossip op g = outbox_add now m g0" by (simp add: Publish gossip_publish_def g0_def batchable_def Let_def)
    obtain ms' where "holds_pending K ms' (outbox_add now m g0)"
      "events_of (go_sent (outbox_add now m g0)) @ events_of ms' = events_of (go_sent g0) @ events_of ms @ handleMessage m"
      using outbox_add_pending[OF h(1)] True m by (auto simp: sendable_def)
    then show ?thesis using h(2) unfolding d p
      by (intro exI[of _ ms'] conjI) (simp, metis append_assoc concat.simps events_of_def list.simps(8,9) mset_append self_append_conv)
  next
    case False
    then have d: "do_gossip op g = gossip_send m g0" by (auto simp: Publish gossip_publish_def g0_def batchable_def Let_def)
    have "holds_pending K ms (gossip_send m g0)" using h(1) by (simp add: holds_pending_def gossip_send_def)
    moreover have "events_of (go_sent (gossip_send m g0)) = events_of (go_sent g) @ handleMessage m" using h(2) by (simp add: gossip_send_def events_of_def)
    ultimately show ?thesis unfolding d p by (intro exI[of _ ms]) (simp add: events_of_def)
  qed
qed

lemma run_pending:
  "holds_pending K ms g \<Longrightarrow> \<forall>m \<in> set (published ops). sendable K m \<Longrightarrow>
   \<exists>ms'. holds_pending K ms' (gossip_run ops g) \<and> mset (events_of (go_sent (gossip_run ops g))) + mset (events_of ms')
    = mset (events_of (go_sent g)) + mset (events_of ms) + mset (events_of (published ops))"
proof (induction ops arbitrary: g ms)
  case Nil
  then show ?case by (intro exI[of _ ms]) (simp add: gossip_run_def published_def events_of_def)
next
  case (Cons op ops)
  have p: "published (op # ops) = published [op] @ published ops" by (simp add: published_def)
  obtain ms1 where 1: "holds_pending K ms1 (do_gossip op g)" "mset (events_of (go_sent (do_gossip op g))) + mset (events_of ms1)
    = mset (events_of (go_sent g)) + mset (events_of ms) + mset (events_of (published [op]))"
    using op_pending[OF Cons.prems(1)] Cons.prems(2) unfolding p by auto
  then obtain ms2 where "holds_pending K ms2 (gossip_run ops (do_gossip op g))"
    "mset (events_of (go_sent (gossip_run ops (do_gossip op g)))) + mset (events_of ms2)
    = mset (events_of (go_sent (do_gossip op g))) + mset (events_of ms1) + mset (events_of (published ops))"
    using Cons.IH[OF 1(1)] Cons.prems(2) unfolding p by auto
  then show ?case using 1(2) unfolding p by (intro exI[of _ ms2]) (simp add: gossip_run_def events_of_def ac_simps)
qed

text \<open>C35: Joining messages is transparent: whatever a node publishes, whenever the peers read batches and whenever
  the timer fires, after the last flush the messages sent give a receiver exactly the events, each as often,
  that the published messages would have given alone; as long as each signer uses one key and JSON can
  write the messages.\<close>

theorem batching_is_transparent:
  assumes "\<forall>m \<in> set (published ops). sendable K m"
  shows "mset (concat (map handleMessage (go_sent (gossip_flush now (gossip_run ops new_gossip))))) = mset (concat (map handleMessage (published ops)))"
proof -
  have "holds_pending K [] new_gossip" by (simp add: holds_pending_def new_gossip_def keys_fit_def)
  then obtain ms where ms: "holds_pending K ms (gossip_run ops new_gossip)"
    "mset (events_of (go_sent (gossip_run ops new_gossip))) + mset (events_of ms) = mset (events_of (published ops))"
    using run_pending[OF _ assms] by (fastforce simp: new_gossip_def events_of_def)
  then show ?thesis using flush_sends_pending[OF ms(1), of now] by (simp add: events_of_def)
qed

definition sample_raw :: "string \<Rightarrow> string \<Rightarrow> jsval" where
  "sample_raw k x = JObj [(''type'', JStr ''raw_tx''), (''tx'', JObj [(''from'', JStr ''a''), (''xid'', JStr x)]), (''signerKey'', JStr k)]"

lemma batching_is_transparent_witness:
  "mset (concat (map handleMessage (go_sent (gossip_flush 9 (gossip_run [Publish True 1 (sample_raw ''k'' ''x''), Publish True 2 (sample_raw ''k'' ''y''), Publish False 3 (sample_raw ''k'' ''z'')] new_gossip)))))
    = mset (concat (map handleMessage [sample_raw ''k'' ''x'', sample_raw ''k'' ''y'', sample_raw ''k'' ''z'']))"
proof -
  have "sendable (\<lambda>f. if f = ''a'' then Some ''k'' else None) (sample_raw ''k'' x)" for x
    by (simp add: sendable_def one_key_def sample_raw_def signer_of_def without_key_def apart_key_def json_stringify_def)
  then show ?thesis
    using batching_is_transparent[of "[Publish True 1 (sample_raw ''k'' ''x''), Publish True 2 (sample_raw ''k'' ''y''), Publish False 3 (sample_raw ''k'' ''z'')]"
      "\<lambda>f. if f = ''a'' then Some ''k'' else None" 9] by (simp add: published_def)
qed

text \<open>Two keys of one signer in one flush are mixed up: the first transaction arrives under the second key.\<close>

lemma sample_raw_text:
  "json_stringify (without_key (sample_raw k x)) = Some (''{\"type\":\"raw_tx\",\"tx\":{\"from\":\"a\",\"xid\":'' @ json_quote x @ ''}}'')"
  if "k \<noteq> []"
proof -
  have "json_quote ''type'' = ''\"type\"''" "json_quote ''raw_tx'' = ''\"raw_tx\"''" "json_quote ''tx'' = ''\"tx\"''"
    "json_quote ''from'' = ''\"from\"''" "json_quote ''a'' = ''\"a\"''" "json_quote ''xid'' = ''\"xid\"''" by code_simp+
  then show ?thesis using that by (simp add: json_stringify_def without_key_def apart_key_def sample_raw_def signer_of_def)
qed

lemma sample_raw_simps:
  "getp (sample_raw k x) ''type'' = JStr ''raw_tx''"
  "k \<noteq> [] \<Longrightarrow> apart_key (sample_raw k x) = Some (''a'', k)"
  "k \<noteq> [] \<Longrightarrow> without_key (sample_raw k x) = JObj [(''type'', JStr ''raw_tx''), (''tx'', JObj [(''from'', JStr ''a''), (''xid'', JStr x)])]"
  by (simp_all add: sample_raw_def apart_key_def signer_of_def without_key_def)

lemma sample_add:
  assumes "k \<noteq> []" "length (json_quote x) = 3" "go_outboxBytes g + (52 + length k) \<le> BATCH_MAX_BYTES"
  shows "outbox_add n (sample_raw k x) g =
    (let g2 = g\<lparr>go_outbox := go_outbox g @ [without_key (sample_raw k x)], go_outboxBytes := go_outboxBytes g + (52 + length k)\<rparr>
     in (if jget (go_outboxKeys g) ''a'' = Some k then g2\<lparr>go_outboxBytes := go_outboxBytes g2 - key_size (''a'', k)\<rparr>
         else g2\<lparr>go_outboxKeys := jset (go_outboxKeys g) ''a'' k\<rparr>)\<lparr>go_timer := True\<rparr>)"
  using assms by (simp add: outbox_add_def sample_raw_text sample_raw_simps(2) Let_def key_size_def not_less)

lemma two_keys_are_mixed:
  "concat (map handleMessage (go_sent (gossip_flush 9 (gossip_run [Publish True 1 (sample_raw ''k'' ''x''), Publish True 2 (sample_raw ''l'' ''y'')] new_gossip))))
    = concat (map handleMessage [sample_raw ''l'' ''x'', sample_raw ''l'' ''y''])"
proof -
  have q: "length (json_quote ''x'') = 3" "length (json_quote ''y'') = 3" by code_simp+
  show ?thesis
    by (simp add: gossip_run_def gossip_publish_def sample_raw_simps BATCHABLE_def new_gossip_def Let_def sample_add q BATCH_MAX_BYTES_def
        gossip_flush_def gossip_send_def)
      (simp add: handleMessage_def joined_message_def keyed_item_def signer_of_def handle_one_def sample_raw_def text_or_null_def js_or_def)
qed

section \<open>The bound\<close>

definition item_size :: "jsval \<Rightarrow> nat" where
  "item_size item = length (the (json_stringify item))"

definition items_size :: "jsval list \<Rightarrow> nat" where
  "items_size items = sum_list (map item_size items)"

text \<open>A signer and its key in the JSON of a batch: four quotes, a colon and a comma beside the two texts.\<close>

definition keys_size :: "(string, string) jmap \<Rightarrow> nat" where
  "keys_size keys = sum_list (map (\<lambda>(f, k). length f + length k + 6) keys)"

definition plain_text :: "string \<Rightarrow> bool" where
  "plain_text s \<longleftrightarrow> json_quote s = CHR 0x22 # s @ [CHR 0x22]"

definition outbox_ok :: "gossip \<Rightarrow> bool" where
  "outbox_ok g \<longleftrightarrow> items_size (go_outbox g) + keys_size (go_outboxKeys g) \<le> go_outboxBytes g
     \<and> (length (go_outbox g) \<le> 1 \<or> go_outboxBytes g \<le> BATCH_MAX_BYTES)
     \<and> (go_outbox g = [] \<longrightarrow> go_outboxKeys g = [] \<and> go_outboxBytes g = 0)
     \<and> (\<forall>item \<in> set (go_outbox g). json_stringify item \<noteq> None) \<and> (\<forall>(f, k) \<in> set (go_outboxKeys g). plain_text f \<and> plain_text k)"

definition plain_keys :: "jsval \<Rightarrow> bool" where
  "plain_keys m \<longleftrightarrow> (case apart_key m of None \<Rightarrow> True | Some (f, k) \<Rightarrow> plain_text f \<and> plain_text k)"

lemma keys_size_jset: "keys_size (jset ks f k) \<le> keys_size ks + key_size (f, k)"
  by (induction ks) (auto simp: keys_size_def key_size_def)

lemma in_jset: "(a, b) \<in> set (jset ks f k) \<Longrightarrow> a = f \<and> b = k \<or> (a, b) \<in> set ks \<or> (\<exists>k'. a = f \<and> b = k \<and> (f, k') \<in> set ks)"
  by (induction ks) (auto split: if_splits)

lemma flush_ok: "outbox_ok g \<Longrightarrow> outbox_ok (gossip_flush now g) \<and> go_outbox (gossip_flush now g) = []"
  by (auto simp: outbox_ok_def items_size_def keys_size_def gossip_flush_def gossip_send_def Let_def split: list.split)

lemma outbox_add_ok:
  assumes "outbox_ok g" "plain_keys m"
  shows "outbox_ok (outbox_add now m g)"
proof (cases "json_stringify (without_key m)")
  case None
  then show ?thesis using assms by (simp add: outbox_add_def)
next
  case (Some s)
  define sz where "sz = length s + (case apart_key m of Some fk \<Rightarrow> key_size fk | None \<Rightarrow> 0)"
  define g1 where "g1 = (if go_outbox g \<noteq> [] \<and> BATCH_MAX_BYTES < go_outboxBytes g + sz then gossip_flush now g else g)"
  have 1: "outbox_ok g1" "go_outbox g1 = [] \<or> go_outboxBytes g1 + sz \<le> BATCH_MAX_BYTES"
    using assms(1) flush_ok[of g now] by (auto simp: g1_def)
  have i: "items_size (go_outbox g1 @ [without_key m]) = items_size (go_outbox g1) + length s"
    by (simp add: items_size_def item_size_def Some)
  note e = outbox_add_def[of now m g, unfolded Some option.case sz_def[symmetric] Let_def g1_def[symmetric]]
  show ?thesis
  proof (cases "apart_key m")
    case None
    then show ?thesis using 1 i Some by (auto simp: e outbox_ok_def sz_def)
  next
    case (Some fk)
    obtain f k where fk: "fk = (f, k)" by fastforce
    have p: "plain_text f" "plain_text k" using assms(2) Some fk by (simp_all add: plain_keys_def)
    have ks: "\<forall>(a, b) \<in> set (jset (go_outboxKeys g1) f k). plain_text a \<and> plain_text b"
      using 1(1) p in_jset[of _ _ f k "go_outboxKeys g1"] unfolding outbox_ok_def by fast
    show ?thesis
      using 1 i Some p ks keys_size_jset[of f k "go_outboxKeys g1"] \<open>json_stringify (without_key m) = Some s\<close>
      by (auto simp: e outbox_ok_def sz_def fk)
  qed
qed

lemma op_ok: "outbox_ok g \<Longrightarrow> \<forall>m \<in> set (published [op]). plain_keys m \<Longrightarrow> outbox_ok (do_gossip op g)"
proof (cases op)
  case (Publish can now m)
  assume g: "outbox_ok g" and m: "\<forall>m \<in> set (published [op]). plain_keys m"
  define g0 where "g0 = g\<lparr>go_broadcasts := drop (length (go_broadcasts g @ [m]) - KEEP_BROADCASTS) (go_broadcasts g @ [m])\<rparr>"
  have "outbox_ok g0" using g by (simp add: g0_def outbox_ok_def)
  moreover have "outbox_ok (gossip_send m g0)" using calculation by (simp add: outbox_ok_def gossip_send_def)
  moreover have "do_gossip op g = outbox_add now m g0 \<or> do_gossip op g = gossip_send m g0" by (simp add: Publish gossip_publish_def g0_def Let_def)
  moreover have "plain_keys m" using m by (simp add: Publish published_def)
  ultimately show ?thesis using outbox_add_ok by metis
qed (use flush_ok in simp)

lemma run_ok: "outbox_ok g \<Longrightarrow> \<forall>m \<in> set (published ops). plain_keys m \<Longrightarrow> outbox_ok (gossip_run ops g)"
proof (induction ops arbitrary: g)
  case (Cons op ops)
  have "published (op # ops) = published [op] @ published ops" by (simp add: published_def)
  then show ?case using Cons op_ok[of g op] by (simp add: gossip_run_def)
qed (simp add: gossip_run_def)

lemma join_length: "length (join '','' es) \<le> sum_list (map length es) + (length es - 1)"
  by (induction "'',''" es rule: join.induct) auto

lemma items_text:
  "\<forall>item \<in> set items. json_stringify item \<noteq> None \<Longrightarrow>
     \<exists>es. jstr_elems items = Some es \<and> sum_list (map length es) = items_size items \<and> length es = length items"
proof (induction items)
  case (Cons x items)
  then obtain s where s: "json_stringify x = Some s" by auto
  then have "jstr x = Some s" by (simp add: json_stringify_def split: if_splits)
  then show ?case using Cons s by (auto simp: items_size_def item_size_def)
qed (simp add: items_size_def)

lemma keys_text:
  "\<forall>(f, k) \<in> set keys. plain_text f \<and> plain_text k \<Longrightarrow>
     \<exists>es. jstr_props (map (\<lambda>(f, k). (f, JStr k)) keys) = Some es \<and> sum_list (map length es) + length keys = keys_size keys \<and> length es = length keys"
  by (induction keys) (auto simp: keys_size_def plain_text_def)

lemma joined_length:
  assumes "\<forall>item \<in> set items. json_stringify item \<noteq> None" "\<forall>(f, k) \<in> set keys. plain_text f \<and> plain_text k"
  shows "\<exists>t. json_stringify (joined_message now items keys) = Some t \<and>
    length t \<le> items_size items + keys_size keys + length items + length (show_int now) + 43"
proof -
  obtain es where es: "jstr_elems items = Some es" "sum_list (map length es) = items_size items" "length es = length items"
    using items_text[OF assms(1)] by blast
  obtain ks where ks: "jstr_props (map (\<lambda>(f, k). (f, JStr k)) keys) = Some ks" "sum_list (map length ks) + length keys = keys_size keys"
      "length ks = length keys"
    using keys_text[OF assms(2)] by blast
  have q: "json_quote ''type'' = ''\"type\"''" "json_quote ''batch'' = ''\"batch\"''" "json_quote ''items'' = ''\"items\"''"
    "json_quote ''keys'' = ''\"keys\"''" "json_quote ''ts'' = ''\"ts\"''" by code_simp+
  show ?thesis
    using join_length[of es] join_length[of ks] es(2,3) ks(2,3)
    by (cases "keys = []") (simp_all add: json_stringify_def joined_message_def es(1) ks(1) q)
qed

text \<open>C36: Whatever is published, whenever peers read batches and whenever the timer fires, what waits in the outbox
  is at most one item, or the one message the next flush sends in its place has a JSON text of at most
  2^20 characters and one for each item, beside the 43 of its frame and the digits of its time; and the
  counter the code keeps never falls below what the items and keys take in that text. The condition is
  that the signers and keys the messages carry need no escape in JSON (an address and a base64 key need
  none); the code counts their plain length.\<close>

theorem outbox_is_bounded:
  assumes "\<forall>m \<in> set (published ops). plain_keys m"
  shows "items_size (go_outbox (gossip_run ops new_gossip)) + keys_size (go_outboxKeys (gossip_run ops new_gossip))
      \<le> go_outboxBytes (gossip_run ops new_gossip) \<and>
    (length (go_outbox (gossip_run ops new_gossip)) \<le> 1 \<or>
     (\<exists>msg text. go_sent (gossip_flush now (gossip_run ops new_gossip)) = go_sent (gossip_run ops new_gossip) @ [msg] \<and>
        json_stringify msg = Some text \<and>
        length text \<le> 2 ^ 20 + length (go_outbox (gossip_run ops new_gossip)) + length (show_int now) + 43))"
proof -
  define g where "g = gossip_run ops new_gossip"
  have "outbox_ok new_gossip" by (simp add: outbox_ok_def items_size_def keys_size_def new_gossip_def)
  then have ok: "outbox_ok g" unfolding g_def using assms by (rule run_ok)
  show ?thesis
  proof (cases "length (go_outbox g) \<le> 1")
    case True
    then show ?thesis using ok unfolding outbox_ok_def g_def by blast
  next
    case False
    then have b: "items_size (go_outbox g) + keys_size (go_outboxKeys g) \<le> 2 ^ 20"
      using ok unfolding outbox_ok_def BATCH_MAX_BYTES_def by linarith
    obtain t where t: "json_stringify (joined_message now (go_outbox g) (go_outboxKeys g)) = Some t"
      "length t \<le> items_size (go_outbox g) + keys_size (go_outboxKeys g) + length (go_outbox g) + length (show_int now) + 43"
      using joined_length ok unfolding outbox_ok_def by blast
    obtain x y zs where "go_outbox g = x # y # zs" using False by (cases "go_outbox g"; cases "tl (go_outbox g)") auto
    then have "go_sent (gossip_flush now g) = go_sent g @ [joined_message now (go_outbox g) (go_outboxKeys g)]"
      by (simp add: gossip_flush_def gossip_send_def Let_def)
    moreover have "length t \<le> 2 ^ 20 + length (go_outbox g) + length (show_int now) + 43" using t(2) b by linarith
    ultimately show ?thesis using t(1) ok unfolding outbox_ok_def g_def by blast
  qed
qed

lemma outbox_is_bounded_witness:
  "\<exists>msg text. go_sent (gossip_flush 9 (gossip_run [Publish True 1 (sample_raw ''k'' ''x''), Publish True 2 (sample_raw ''k'' ''y'')] new_gossip)) = [msg] \<and>
     json_stringify msg = Some text \<and> length text \<le> 2 ^ 20 + 2 + length (show_int 9) + 43"
proof -
  let ?ops = "[Publish True 1 (sample_raw ''k'' ''x''), Publish True 2 (sample_raw ''k'' ''y'')]"
  have "json_quote ''a'' = ''\"a\"''" "json_quote ''k'' = ''\"k\"''" by code_simp+
  then have p: "\<forall>m \<in> set (published ?ops). plain_keys m"
    by (simp add: published_def plain_keys_def sample_raw_simps plain_text_def)
  have q: "length (json_quote ''x'') = 3" "length (json_quote ''y'') = 3" by code_simp+
  have "length (go_outbox (gossip_run ?ops new_gossip)) = 2" "go_sent (gossip_run ?ops new_gossip) = []"
    by (simp_all add: gossip_run_def gossip_publish_def sample_raw_simps BATCHABLE_def new_gossip_def Let_def sample_add q BATCH_MAX_BYTES_def)
  then show ?thesis using outbox_is_bounded[OF p, of 9] by auto
qed

end
