(* ===== verification/TxQueue.thy ===== *)
theory TxQueue
  imports JsValue
begin

text \<open>
  \<open>txqueue.js\<close>: the append-only anchoring queue, its replay after a restart and the drain. Shown: a
  drain submits every pending entry or gives up on it after the allowed attempts, marks exactly the
  submitted ones done and leaves exactly the failed ones pending; the replay depends only on the last
  event of each hash; and a torn line hides every event appended after it.

  The file is a list of lines. A line that \<open>JSON.parse\<close> refuses is \<open>Torn\<close>; \<open>ended\<close> tells whether
  the last line has its newline. An append to a file whose last line has none runs into that line,
  which then is no JSON text: two object texts, or a part of one and a whole one, in a row.
\<close>

section \<open>The file and its replay\<close>

datatype qstatus = Pending | Done

datatype qevent =
    Enqueue (ev_hash: string) (ev_payload: jsval) (ev_at: string)
  | DoneEv (ev_hash: string) (ev_at: string)

datatype qline = Event qevent | Torn | Blank

record qfile =
  qlines :: "qline list"
  ended :: bool

record qentry =
  q_payload :: "jsval option"
  q_status :: qstatus
  q_enqueued :: "string option"
  q_done :: "string option"

definition new_qfile :: qfile where
  "new_qfile = \<lparr>qlines = [], ended = True\<rparr>"

definition append_line :: "qevent \<Rightarrow> qfile \<Rightarrow> qfile" where
  "append_line e f =
     (if ended f \<or> qlines f = [] then \<lparr>qlines = qlines f @ [Event e], ended = True\<rparr>
      else \<lparr>qlines = butlast (qlines f) @ [Torn], ended = True\<rparr>)"

text \<open>A crash in the middle of an append: some of the line's text, without the newline, is in the file.\<close>

definition torn_append :: "qfile \<Rightarrow> qfile" where
  "torn_append f = (if ended f \<or> qlines f = [] then \<lparr>qlines = qlines f @ [Torn], ended = False\<rparr> else f)"

fun apply_event :: "qevent \<Rightarrow> (string, qentry) jmap \<Rightarrow> (string, qentry) jmap" where
  "apply_event (Enqueue h p t) m = jset m h \<lparr>q_payload = Some p, q_status = Pending, q_enqueued = Some t, q_done = None\<rparr>"
| "apply_event (DoneEv h t) m =
     (case jget m h of
        Some e \<Rightarrow> jset m h (e\<lparr>q_status := Done, q_done := Some t\<rparr>)
      | None \<Rightarrow> jset m h \<lparr>q_payload = None, q_status = Done, q_enqueued = None, q_done = Some t\<rparr>)"

fun replay_lines :: "qline list \<Rightarrow> (string, qentry) jmap \<Rightarrow> (string, qentry) jmap" where
  "replay_lines [] m = m"
| "replay_lines (Blank # ls) m = replay_lines ls m"
| "replay_lines (Torn # ls) m = m"
| "replay_lines (Event e # ls) m = replay_lines ls (apply_event e m)"

definition replay :: "qfile \<Rightarrow> (string, qentry) jmap" where
  "replay f = replay_lines (qlines f) []"

section \<open>The queue\<close>

definition enqueue :: "string \<Rightarrow> jsval \<Rightarrow> qfile \<Rightarrow> qfile option" where
  "enqueue now payload f =
     (case getp payload ''sha256_hex'' of
        JStr h \<Rightarrow> if h = [] then None else Some (append_line (Enqueue h payload now) f)
      | _ \<Rightarrow> None)"

definition markDone :: "string \<Rightarrow> string \<Rightarrow> qfile \<Rightarrow> qfile" where
  "markDone now h f = append_line (DoneEv h now) f"

record qpending =
  qp_hash :: string
  qp_payload :: "jsval option"
  qp_at :: "string option"

definition pending_of :: "(string, qentry) jmap \<Rightarrow> qpending list" where
  "pending_of m = sort_key (\<lambda>p. case qp_at p of Some t \<Rightarrow> t | None \<Rightarrow> [])
     (map (\<lambda>(h, e). \<lparr>qp_hash = h, qp_payload = q_payload e, qp_at = q_enqueued e\<rparr>) (filter (\<lambda>(h, e). q_status e = Pending) m))"

definition pending :: "qfile \<Rightarrow> qpending list" where
  "pending f = pending_of (replay f)"

definition doneCount :: "qfile \<Rightarrow> nat" where
  "doneCount f = length (filter (\<lambda>e. q_status e = Done) (jvalues (replay f)))"

section \<open>Draining\<close>

text \<open>
  \<open>submit h n\<close> tells whether the \<open>n\<close>-th attempt to submit the entry of hash \<open>h\<close> succeeds. The result is
  whether one did, the number of attempts made, and the pauses between them in milliseconds.
\<close>

function attempts :: "(nat \<Rightarrow> bool) \<Rightarrow> nat \<Rightarrow> nat \<Rightarrow> nat \<Rightarrow> bool \<times> nat \<times> nat list" where
  "attempts ok maxAttempts base n =
     (if maxAttempts < n then (False, n - 1, [])
      else if ok n then (True, n, [])
      else (let (b, k, ds) = attempts ok maxAttempts base (Suc n) in
        (b, k, (if n < maxAttempts then [base * 2 ^ (n - 1)] else []) @ ds)))"
  by pat_completeness auto
termination
  by (relation "measure (\<lambda>(ok, m, base, n). Suc m - n)") auto

declare attempts.simps [simp del]

record drain =
  dr_submitted :: "string list"
  dr_failed :: "string list"
  dr_calls :: nat
  dr_file :: qfile

definition drain_entry :: "(string \<Rightarrow> nat \<Rightarrow> bool) \<Rightarrow> nat \<Rightarrow> nat \<Rightarrow> string \<Rightarrow> string \<Rightarrow> drain \<Rightarrow> drain" where
  "drain_entry submit maxAttempts base now h d =
     (let (ok, k, ds) = attempts (submit h) maxAttempts base 1 in
      if ok then d\<lparr>dr_submitted := dr_submitted d @ [h], dr_calls := dr_calls d + k, dr_file := markDone now h (dr_file d)\<rparr>
      else d\<lparr>dr_failed := dr_failed d @ [h], dr_calls := dr_calls d + k\<rparr>)"

definition drainOnce :: "(string \<Rightarrow> nat \<Rightarrow> bool) \<Rightarrow> nat \<Rightarrow> nat \<Rightarrow> string \<Rightarrow> qfile \<Rightarrow> drain" where
  "drainOnce submit maxAttempts base now f =
     fold (drain_entry submit maxAttempts base now) (map qp_hash (pending f))
       \<lparr>dr_submitted = [], dr_failed = [], dr_calls = 0, dr_file = f\<rparr>"

section \<open>Attempts\<close>

lemma attempts_spec:
  "0 < n \<Longrightarrow> fst (attempts ok m base n) = (\<exists>i. n \<le> i \<and> i \<le> m \<and> ok i) \<and>
     fst (snd (attempts ok m base n)) \<le> max (n - 1) m"
proof (induction ok m base n rule: attempts.induct)
  case (1 ok m base n)
  show ?case
  proof (cases "m < n \<or> ok n")
    case True
    then show ?thesis using 1(2) by (auto simp: attempts.simps[of ok m base n])
  next
    case False
    have r: "fst (attempts ok m base n) = fst (attempts ok m base (Suc n))"
      "fst (snd (attempts ok m base n)) = fst (snd (attempts ok m base (Suc n)))"
      using False by (simp_all add: attempts.simps[of ok m base n] split_def Let_def)
    have "n \<le> i \<and> i \<le> m \<and> ok i \<longleftrightarrow> Suc n \<le> i \<and> i \<le> m \<and> ok i" for i using False by (cases "i = n") auto
    then have e: "(\<exists>i. n \<le> i \<and> i \<le> m \<and> ok i) = (\<exists>i. Suc n \<le> i \<and> i \<le> m \<and> ok i)" by (simp only:)
    have "fst (attempts ok m base (Suc n)) = (\<exists>i. Suc n \<le> i \<and> i \<le> m \<and> ok i)"
      "fst (snd (attempts ok m base (Suc n))) \<le> max n m" using 1(1) False by simp_all
    then show ?thesis using False unfolding r e by simp
  qed
qed

section \<open>The log\<close>

definition clean :: "qfile \<Rightarrow> bool" where
  "clean f \<longleftrightarrow> ended f \<and> Torn \<notin> set (qlines f)"

lemma replay_lines_append: "Torn \<notin> set ls \<Longrightarrow> replay_lines (ls @ ks) m = replay_lines ks (replay_lines ls m)"
  by (induction ls m rule: replay_lines.induct) auto

lemma replay_append: "clean f \<Longrightarrow> replay (append_line e f) = apply_event e (replay f)"
  by (simp add: clean_def replay_def append_line_def replay_lines_append)

lemma clean_append: "clean f \<Longrightarrow> clean (append_line e f)"
  by (simp add: clean_def append_line_def)

lemma apply_event_ok [wf_intros]: "jmap_ok m \<Longrightarrow> jmap_ok (apply_event e m)"
  by (cases e) (auto intro: wf_intros split: option.splits)

lemma replay_ok: "jmap_ok (replay f)"
proof -
  have "jmap_ok m \<Longrightarrow> jmap_ok (replay_lines ls m)" for ls m
    by (induction ls m rule: replay_lines.induct) (auto intro: apply_event_ok)
  then show ?thesis by (simp add: replay_def)
qed

text \<open>The status of a hash in the log, as the last event that names it.\<close>

fun last_status :: "qline list \<Rightarrow> string \<Rightarrow> qstatus option \<Rightarrow> qstatus option" where
  "last_status [] h s = s"
| "last_status (Event (Enqueue k p t) # ls) h s = last_status ls h (if k = h then Some Pending else s)"
| "last_status (Event (DoneEv k t) # ls) h s = last_status ls h (if k = h then Some Done else s)"
| "last_status (Blank # ls) h s = last_status ls h s"
| "last_status (Torn # ls) h s = s"

lemma status_event:
  "map_option q_status (jget (apply_event e m) h) =
     (if ev_hash e = h then Some (case e of Enqueue _ _ _ \<Rightarrow> Pending | DoneEv _ _ \<Rightarrow> Done)
      else map_option q_status (jget m h))"
  by (cases e) (auto simp: jmap_simps split: option.splits)

lemma last_status_replay: "map_option q_status (jget (replay_lines ls m) h) = last_status ls h (map_option q_status (jget m h))"
  by (induction ls h "map_option q_status (jget m h)" arbitrary: m rule: last_status.induct) (simp_all del: apply_event.simps add: status_event)

section \<open>What is pending\<close>

lemma pending_set: "set (map qp_hash (pending_of m)) = {h. \<exists>e. (h, e) \<in> set m \<and> q_status e = Pending}"
  by (force simp: pending_of_def)

lemma pending_status: "set (map qp_hash (pending f)) = {h. map_option q_status (jget (replay f) h) = Some Pending}"
  unfolding pending_def pending_set using replay_ok[of f] by (auto simp: jget_iff)

lemma pending_distinct: "distinct (map qp_hash (pending f))"
proof -
  have f: "map (qp_hash \<circ> (\<lambda>(h, e). \<lparr>qp_hash = h, qp_payload = q_payload e, qp_at = q_enqueued e\<rparr>)) xs = map fst xs" for xs
    by (induction xs) auto
  have "distinct (map qp_hash (map (\<lambda>(h, e). \<lparr>qp_hash = h, qp_payload = q_payload e, qp_at = q_enqueued e\<rparr>)
      (filter (\<lambda>(h, e). q_status e = Pending) (replay f))))"
    using replay_ok[of f] unfolding map_map f by (simp add: jmap_ok_def distinct_map_filter)
  then show ?thesis unfolding pending_def pending_of_def distinct_map_sort_key .
qed

definition drained :: "(string \<Rightarrow> nat \<Rightarrow> bool) \<Rightarrow> nat \<Rightarrow> string \<Rightarrow> bool" where
  "drained submit m h \<longleftrightarrow> (\<exists>i. 1 \<le> i \<and> i \<le> m \<and> submit h i)"

lemma drain_fold:
  assumes "clean (dr_file d)" "distinct hs"
  shows "let d' = fold (drain_entry submit m base now) hs d in
    clean (dr_file d') \<and> dr_submitted d' = dr_submitted d @ filter (drained submit m) hs \<and>
    dr_failed d' = dr_failed d @ filter (\<lambda>h. \<not> drained submit m h) hs \<and> dr_calls d' \<le> dr_calls d + m * length hs \<and>
    (\<forall>h. map_option q_status (jget (replay (dr_file d')) h) =
       (if h \<in> set hs \<and> drained submit m h then Some Done else map_option q_status (jget (replay (dr_file d)) h)))"
  using assms
proof (induction hs arbitrary: d)
  case (Cons h hs)
  obtain ok k ds where a: "attempts (submit h) m base (Suc 0) = (ok, k, ds)" by (metis prod_cases3)
  have ok: "ok = drained submit m h" "k \<le> m" using attempts_spec[of "Suc 0" "submit h" m base] unfolding a by (simp_all add: drained_def)
  let ?d = "drain_entry submit m base now h d"
  have "clean (dr_file ?d)" using Cons.prems(1) by (simp add: drain_entry_def a markDone_def clean_append)
  note IH = Cons.IH[OF this, unfolded Let_def]
  have st: "map_option q_status (jget (replay (dr_file ?d)) j) =
      (if j = h \<and> drained submit m h then Some Done else map_option q_status (jget (replay (dr_file d)) j))" for j
    using Cons.prems(1) ok by (simp add: drain_entry_def a markDone_def replay_append status_event del: apply_event.simps)
  have e: "dr_submitted ?d = dr_submitted d @ (if drained submit m h then [h] else [])"
    "dr_failed ?d = dr_failed d @ (if drained submit m h then [] else [h])" "dr_calls ?d \<le> dr_calls d + m"
    using ok by (simp_all add: drain_entry_def a)
  show ?case using IH Cons.prems(2) e unfolding Let_def by (auto simp: st)
qed simp

section \<open>Properties\<close>

text \<open>C34: One drain of an intact log: the submitted and the failed are the pending entries, in their order,
  split by whether one of the allowed attempts succeeded; afterwards exactly the failed are pending;
  and no more than \<open>maxAttempts\<close> calls are made for each.\<close>

theorem drain_marks_exactly_the_submitted:
  assumes "clean f"
  shows "let d = drainOnce submit m base now f; hs = map qp_hash (pending f) in
    dr_submitted d = filter (drained submit m) hs \<and> dr_failed d = filter (\<lambda>h. \<not> drained submit m h) hs \<and>
    set (map qp_hash (pending (dr_file d))) = set (dr_failed d) \<and> dr_calls d \<le> m * length hs"
proof -
  let ?hs = "map qp_hash (pending f)"
  let ?d0 = "\<lparr>dr_submitted = [], dr_failed = [], dr_calls = 0, dr_file = f\<rparr>"
  note D = drain_fold[of ?d0 ?hs submit m base now, unfolded Let_def drainOnce_def[symmetric]]
  have d: "dr_submitted (drainOnce submit m base now f) = filter (drained submit m) ?hs"
    "dr_failed (drainOnce submit m base now f) = filter (\<lambda>h. \<not> drained submit m h) ?hs"
    "dr_calls (drainOnce submit m base now f) \<le> m * length ?hs"
    using D assms pending_distinct by simp_all
  have "set (map qp_hash (pending (dr_file (drainOnce submit m base now f)))) = {h \<in> set ?hs. \<not> drained submit m h}"
    using D assms pending_distinct unfolding pending_status by (auto simp: pending_status)
  then show ?thesis using d unfolding Let_def by simp
qed

theorem drain_marks_exactly_the_submitted_witness:
  "let f = append_line (Enqueue ''b'' JNull ''2'') (append_line (Enqueue ''a'' JNull ''1'') new_qfile);
     d = drainOnce (\<lambda>h n. h = ''b'' \<and> n = 2) 2 100 ''3'' f in
   dr_submitted d = [''b''] \<and> dr_failed d = [''a''] \<and> set (map qp_hash (pending (dr_file d))) = {''a''}"
proof -
  let ?f = "append_line (Enqueue ''b'' JNull ''2'') (append_line (Enqueue ''a'' JNull ''1'') new_qfile)"
  have c: "clean ?f" by (intro clean_append) (simp add: clean_def new_qfile_def)
  have p: "map qp_hash (pending ?f) = [''a'', ''b'']" by code_simp
  have "drained (\<lambda>h n. h = ''b'' \<and> n = 2) 2 = (\<lambda>h. h = ''b'')" by (auto simp: drained_def fun_eq_iff)
  then show ?thesis
    using drain_marks_exactly_the_submitted[OF c, of "\<lambda>h n. h = ''b'' \<and> n = 2" 2 100 "''3''"] unfolding p by (simp add: Let_def)
qed

text \<open>After a crash in the middle of an append nothing appended later is ever read back, however many
  enqueue and done events the restarted process writes: the queue stays what it was before the crash.\<close>

lemma torn_line_hides_later_events:
  "replay (fold append_line es (torn_append (fold append_line ds new_qfile))) = replay (fold append_line ds new_qfile)"
proof -
  let ?f = "fold append_line ds new_qfile"
  have "clean g \<Longrightarrow> clean (fold append_line ds g)" for g
    by (induction ds arbitrary: g) (simp_all add: clean_append)
  then have c: "clean ?f" by (simp add: clean_def new_qfile_def)
  have cut: "Torn \<notin> set ls \<Longrightarrow> replay_lines (ls @ Torn # ks) m = replay_lines ls m" for ls ks m
    by (simp add: replay_lines_append)
  have grow: "ended g \<Longrightarrow> \<exists>ks. qlines (fold append_line es g) = qlines g @ ks" for es g
  proof (induction es arbitrary: g)
    case (Cons e es)
    have "ended (append_line e g)" "qlines (append_line e g) = qlines g @ [Event e]"
      using Cons.prems by (simp_all add: append_line_def)
    then show ?case using Cons.IH[of "append_line e g"] by auto
  qed simp
  have "\<exists>ks. qlines (fold append_line es (torn_append ?f)) = qlines ?f @ Torn # ks"
  proof (cases es)
    case Nil
    then show ?thesis using c by (simp add: torn_append_def clean_def)
  next
    case (Cons e es')
    have "ended (append_line e (torn_append ?f))" "qlines (append_line e (torn_append ?f)) = qlines ?f @ [Torn]"
      using c by (simp_all add: torn_append_def append_line_def clean_def)
    then show ?thesis using grow[of "append_line e (torn_append ?f)" es'] Cons by auto
  qed
  then show ?thesis using cut c by (auto simp: replay_def clean_def)
qed

end
