(* ===== verification/SealRound.thy ===== *)
theory SealRound
  imports Micromine
begin

text \<open>
  Agreement before sealing: the policy of \<open>seal-agreement.js\<close>, the manager of \<open>seal-round.js\<close>, the
  quorum and the adoption of \<open>core/index.js\<close>, and a network of leads that gossip proposals. Shown: the
  candidate does not depend on arrival order nor on items above it; with one vote for each lead at most
  one set reaches a strict majority; every set a lead seals or adopts was proposed by a quorum; a lead keeps
  announcing the sets it resolved last and answers for them; but a lead that changes its candidate is
  counted for both, so two leads can seal overlapping sets.

  An item is its key and its member id (L1: block hash and block id; L2: the face's root, twice). The
  transport may lose, delay, repeat and reorder messages, and does not echo a lead's own. A message from
  outside the leads is not modelled; \<open>seal_proposal\<close> messages carry their sender's name.
\<close>

section \<open>Policy\<close>

type_synonym item = "string \<times> string"

abbreviation ikey :: "item \<Rightarrow> string" where
  "ikey \<equiv> fst"

abbreviation memberId :: "item \<Rightarrow> string" where
  "memberId \<equiv> snd"

definition candidatePrefix :: "('a \<Rightarrow> string) \<Rightarrow> nat \<Rightarrow> nat \<Rightarrow> 'a list \<Rightarrow> 'a list" where
  "candidatePrefix key chunkSize maxChunks items =
     take (min (length items div chunkSize) (max 1 maxChunks) * chunkSize) (sort_key key items)"

definition setHash :: "(string \<Rightarrow> string) \<Rightarrow> string list \<Rightarrow> string" where
  "setHash H ks = sha256hex H (join ''|'' (sort ks))"

record proposal =
  pr_node :: string
  pr_hash :: string
  pr_ids :: "string list option"

datatype decision = Stall | Seal string | Adopt string "string list option"

definition tally :: "string list \<Rightarrow> (string, nat) jmap" where
  "tally hs = fold (\<lambda>h m. jset m h ((case jget m h of Some c \<Rightarrow> c | None \<Rightarrow> 0) + 1)) hs []"

definition winner :: "(string, nat) jmap \<Rightarrow> string option \<times> nat" where
  "winner votes = fold (\<lambda>(h, c) (w, wc). if wc < c then (Some h, c) else (w, wc)) votes (None, 0)"

text \<open>My own proposal comes first. A \<open>setHash\<close> is a digest's text, never empty.\<close>

definition decideRound :: "proposal option \<Rightarrow> proposal list \<Rightarrow> nat \<Rightarrow> decision" where
  "decideRound own peers quorum =
     (let props = (case own of Some m \<Rightarrow> [m] | None \<Rightarrow> []) @ peers in
      (case winner (tally (map pr_hash props)) of
         (None, _) \<Rightarrow> Stall
       | (Some h, c) \<Rightarrow>
           if c < quorum then Stall
           else if own \<noteq> None \<and> pr_hash (the own) = h then Seal h
           else Adopt h (case find (\<lambda>p. pr_hash p = h) props of Some p \<Rightarrow> pr_ids p | None \<Rightarrow> None)))"

definition sealQuorumFrom :: "string list option \<Rightarrow> nat" where
  "sealQuorumFrom leads = max 1 (case leads of Some l \<Rightarrow> length l | None \<Rightarrow> 0) div 2 + 1"

section \<open>The manager\<close>

record round_state =
  sr_peers :: "(string, (string, string list option) jmap) jmap"
  sr_done :: "string list"
  sr_doneOrder :: "string list"
  sr_doneMembers :: "(string, string list) jmap"

definition new_round :: round_state where
  "new_round = \<lparr>sr_peers = [], sr_done = [], sr_doneOrder = [], sr_doneMembers = []\<rparr>"

definition last_n :: "nat \<Rightarrow> 'a list \<Rightarrow> 'a list" where
  "last_n n xs = drop (length xs - n) xs"

text \<open>\<open>R\<close> is the number of resolved sets a lead keeps vouching for, three unless configured.\<close>

definition rebroadcastDone :: "nat \<Rightarrow> round_state \<Rightarrow> (string \<times> string list) list" where
  "rebroadcastDone R s = concat (map (\<lambda>h. case jget (sr_doneMembers s) h of Some ids \<Rightarrow> [(h, ids)] | None \<Rightarrow> [])
     (last_n (max 1 R) (sr_doneOrder s)))"

definition onPeerProposal :: "proposal \<Rightarrow> round_state \<Rightarrow> (string \<times> string list) list \<times> round_state" where
  "onPeerProposal p s =
     (if pr_hash p = [] \<or> pr_node p = [] then ([], s)
      else if pr_hash p \<in> set (sr_done s) then
        ((case jget (sr_doneMembers s) (pr_hash p) of Some ids \<Rightarrow> [(pr_hash p, ids)] | None \<Rightarrow> []), s)
      else ([], s\<lparr>sr_peers := jset (sr_peers s) (pr_hash p)
          (jset (case jget (sr_peers s) (pr_hash p) of Some m \<Rightarrow> m | None \<Rightarrow> []) (pr_node p) (pr_ids p))\<rparr>))"

fun prune_members :: "nat \<Rightarrow> string list \<Rightarrow> string list \<Rightarrow> (string, string list) jmap \<Rightarrow> (string, string list) jmap" where
  "prune_members n order [] m = m"
| "prune_members n order (k # ks) m =
     (if length m \<le> n then m
      else prune_members n order ks (if k \<in> set (last_n n order) then m else jdel m k))"

definition remember_done :: "string \<Rightarrow> round_state \<Rightarrow> round_state" where
  "remember_done h s =
     (if h \<in> set (sr_done s) then s
      else (let s1 = s\<lparr>sr_done := sr_done s @ [h], sr_doneOrder := sr_doneOrder s @ [h]\<rparr> in
        if 4096 < length (sr_doneOrder s1) then
          (let old = hd (sr_doneOrder s1) in
           s1\<lparr>sr_doneOrder := tl (sr_doneOrder s1), sr_done := remove1 old (sr_done s1),
              sr_doneMembers := jdel (sr_doneMembers s1) old\<rparr>)
        else s1))"

definition markDone_round :: "nat \<Rightarrow> string \<Rightarrow> string list option \<Rightarrow> round_state \<Rightarrow> round_state" where
  "markDone_round R h ids s =
     (let s1 = s\<lparr>sr_peers := jdel (sr_peers s) h,
            sr_doneMembers := (case ids of Some m \<Rightarrow> jset (sr_doneMembers s) h m | None \<Rightarrow> sr_doneMembers s)\<rparr>;
          s2 = remember_done h s1 in
      s2\<lparr>sr_doneMembers := prune_members (R * 4) (sr_doneOrder s2) (jkeys (sr_doneMembers s2)) (sr_doneMembers s2)\<rparr>)"

text \<open>The proposals on record, in the order of the map of maps.\<close>

definition recorded :: "round_state \<Rightarrow> proposal list" where
  "recorded s = concat (map (\<lambda>(h, byNode). map (\<lambda>(i, ids). \<lparr>pr_node = i, pr_hash = h, pr_ids = ids\<rparr>) byNode) (sr_peers s))"

datatype outcome = Idle | Sealed string "item list" | Adopted string "item list" | StallAdopt string | Stalled

text \<open>
  \<open>mkAdopt\<close> of the core: the members from the pool, refused when one is missing or the hash of what was
  found is another. (Member ids that are null make the code throw, which ends the tick; so does a stall.)
\<close>

definition mkAdopt :: "(string \<Rightarrow> string) \<Rightarrow> item list \<Rightarrow> string \<Rightarrow> string list option \<Rightarrow> item list option" where
  "mkAdopt H pool agreed ids = (case ids of None \<Rightarrow> None
     | Some ms \<Rightarrow>
         (let items = filter (\<lambda>x. memberId x \<in> set ms) pool in
          if length items < length ms then None
          else if setHash H (map ikey items) \<noteq> agreed then None else Some items))"

definition tick ::
  "(string \<Rightarrow> string) \<Rightarrow> nat \<Rightarrow> string \<Rightarrow> nat \<Rightarrow> nat \<Rightarrow> item list \<Rightarrow> round_state \<Rightarrow>
   outcome \<times> (string \<times> string list) list \<times> round_state" where
  "tick H R self chunkSize quorum pool s =
     (let again = rebroadcastDone R s; cand = candidatePrefix ikey chunkSize 1 pool in
      if cand = [] then (Idle, again, s)
      else (let h = setHash H (map ikey cand); ids = map memberId cand in
        if h \<in> set (sr_done s) then (Idle, again, s)
        else (let out = again @ [(h, ids)] in
          (case decideRound (Some \<lparr>pr_node = self, pr_hash = h, pr_ids = Some ids\<rparr>) (recorded s) quorum of
             Seal w \<Rightarrow> (Sealed h cand, out, markDone_round R h (Some ids) s)
           | Adopt w ms \<Rightarrow>
               (case mkAdopt H pool w ms of
                  Some items \<Rightarrow> (Adopted w items, out, markDone_round R w ms s)
                | None \<Rightarrow> (StallAdopt w, out, s))
           | Stall \<Rightarrow> (Stalled, out, s)))))"

section \<open>The network of leads\<close>

record lead =
  ld_pool :: "item list"
  ld_round :: round_state
  ld_resolved :: "(string \<times> item list) list"

record network =
  nw_lead :: "string \<Rightarrow> lead"
  nw_wire :: "proposal list"

definition start :: network where
  "start = \<lparr>nw_lead = (\<lambda>i. \<lparr>ld_pool = [], ld_round = new_round, ld_resolved = []\<rparr>), nw_wire = []\<rparr>"

definition sent :: "string \<Rightarrow> (string \<times> string list) list \<Rightarrow> proposal list" where
  "sent i ms = map (\<lambda>(h, ids). \<lparr>pr_node = i, pr_hash = h, pr_ids = Some ids\<rparr>) ms"

definition arrive :: "string \<Rightarrow> item \<Rightarrow> network \<Rightarrow> network" where
  "arrive i x n = n\<lparr>nw_lead := (nw_lead n)(i := (nw_lead n i)\<lparr>ld_pool := ld_pool (nw_lead n i) @ [x]\<rparr>)\<rparr>"

definition receive :: "string \<Rightarrow> proposal \<Rightarrow> network \<Rightarrow> network" where
  "receive i p n = (let (out, s) = onPeerProposal p (ld_round (nw_lead n i)) in
     n\<lparr>nw_lead := (nw_lead n)(i := (nw_lead n i)\<lparr>ld_round := s\<rparr>), nw_wire := nw_wire n @ sent i out\<rparr>)"

text \<open>What is sealed leaves the pool.\<close>

definition settle_tick :: "outcome \<Rightarrow> lead \<Rightarrow> lead" where
  "settle_tick a l = (case a of
       Sealed h items \<Rightarrow> l\<lparr>ld_pool := filter (\<lambda>x. x \<notin> set items) (ld_pool l), ld_resolved := ld_resolved l @ [(h, items)]\<rparr>
     | Adopted h items \<Rightarrow> l\<lparr>ld_pool := filter (\<lambda>x. x \<notin> set items) (ld_pool l), ld_resolved := ld_resolved l @ [(h, items)]\<rparr>
     | _ \<Rightarrow> l)"

definition tick_lead :: "(string \<Rightarrow> string) \<Rightarrow> nat \<Rightarrow> nat \<Rightarrow> nat \<Rightarrow> string \<Rightarrow> network \<Rightarrow> network" where
  "tick_lead H R chunkSize quorum i n =
     (let l = nw_lead n i; (a, out, s) = tick H R i chunkSize quorum (ld_pool l) (ld_round l) in
      n\<lparr>nw_lead := (nw_lead n)(i := settle_tick a (l\<lparr>ld_round := s\<rparr>)), nw_wire := nw_wire n @ sent i out\<rparr>)"

inductive seal_step :: "(string \<Rightarrow> string) \<Rightarrow> nat \<Rightarrow> nat \<Rightarrow> nat \<Rightarrow> network \<Rightarrow> network \<Rightarrow> bool"
  for H :: "string \<Rightarrow> string" and R :: nat and c :: nat and q :: nat where
  Arrive: "seal_step H R c q n (arrive i x n)"
| Deliver: "p \<in> set (nw_wire n) \<Longrightarrow> pr_node p \<noteq> i \<Longrightarrow> seal_step H R c q n (receive i p n)"
| Tick: "i \<noteq> [] \<Longrightarrow> seal_step H R c q n (tick_lead H R c q i n)"

inductive_cases seal_stepE [elim!]: "seal_step H R c q n n'"

inductive seal_reach :: "(string \<Rightarrow> string) \<Rightarrow> nat \<Rightarrow> nat \<Rightarrow> nat \<Rightarrow> network \<Rightarrow> bool"
  for H :: "string \<Rightarrow> string" and R :: nat and c :: nat and q :: nat where
  init: "seal_reach H R c q start"
| step: "seal_reach H R c q n \<Longrightarrow> seal_step H R c q n n' \<Longrightarrow> seal_reach H R c q n'"

section \<open>The candidate\<close>

interpretation cand: set_determined key "candidatePrefix key c m" for key :: "'a \<Rightarrow> string"
proof
  fix xs ys :: "'a list" assume "mset xs = mset ys" "distinct (map key xs)"
  then have "sort_key key xs = sort_key key ys" "length xs = length ys"
    by (auto intro: sort_key_perm dest: mset_eq_length)
  then show "candidatePrefix key c m xs = candidatePrefix key c m ys" by (simp add: candidatePrefix_def)
qed

interpretation seth: set_determined "\<lambda>k. k" "setHash H"
proof
  fix xs ys :: "string list" assume "mset xs = mset ys"
  then show "setHash H xs = setHash H ys" by (simp add: setHash_def sort_mset_cong[of xs ys])
qed

lemma take_insort: "n \<le> length s \<Longrightarrow> \<forall>y \<in> set (take n s). f y < f x \<Longrightarrow> take n (insort_key f x s) = take n s"
proof (induction s arbitrary: n)
  case (Cons y s)
  then show ?case by (cases n) auto
qed simp

text \<open>A full candidate is not disturbed by a late item whose key is above it.\<close>

lemma candidate_stable:
  assumes "distinct (map key (xs @ [x]))" "max 1 m * c \<le> length xs" "0 < c"
    "\<forall>y \<in> set (candidatePrefix key c m xs). key y < key x"
  shows "candidatePrefix key c m (xs @ [x]) = candidatePrefix key c m xs"
proof -
  have k: "length ys div c \<ge> max 1 m" if "max 1 m * c \<le> length ys" for ys :: "'a list"
    using div_le_mono[OF that, of c] assms(3) by simp
  have p: "candidatePrefix key c m ys = take (max 1 m * c) (sort_key key ys)" if "max 1 m * c \<le> length ys" for ys
    using k[OF that] by (simp add: candidatePrefix_def min_absorb2)
  have "candidatePrefix key c m (xs @ [x]) = candidatePrefix key c m ([x] @ xs)" by (rule cand.late_arrival[OF assms(1)])
  also have "\<dots> = take (max 1 m * c) (insort_key key x (sort_key key xs))" using p[of "[x] @ xs"] assms(2) by simp
  also have "\<dots> = take (max 1 m * c) (sort_key key xs)" by (rule take_insort) (use assms(2,4) p[OF assms(2)] in simp_all)
  finally show ?thesis using p[OF assms(2)] by simp
qed

lemma candidate_stable_witness:
  "candidatePrefix id 2 1 ([''b'', ''a'', ''c''] @ [''d'']) = candidatePrefix id 2 1 [''b'', ''a'', ''c'']"
  by (rule candidate_stable) (simp_all, code_simp)

section \<open>Counting votes\<close>

lemma tally_spec: "jget (tally hs) h = (if h \<in> set hs then Some (length (filter (\<lambda>x. x = h) hs)) else None) \<and> jmap_ok (tally hs)"
proof (induction hs rule: rev_induct)
  case (snoc x hs)
  then show ?case by (auto simp: tally_def jmap_simps filter_empty_conv intro!: wf_intros)
qed (simp add: tally_def)

lemma winner_from: "winner votes = (Some h, c) \<Longrightarrow> (h, c) \<in> set votes"
proof -
  have "fold (\<lambda>(h, c) (w, wc). if wc < c then (Some h, c) else (w, wc)) vs (w, wc) = (Some h, c) \<Longrightarrow>
      (w, wc) = (Some h, c) \<or> (h, c) \<in> set vs" for vs and w :: "string option" and wc
  proof (induction vs arbitrary: w wc)
    case (Cons v vs)
    obtain a b where "v = (a, b)" by (cases v)
    then show ?case using Cons.IH[of "Some a" b] Cons.IH[of w wc] Cons.prems by (auto split: if_splits)
  qed simp
  then show "winner votes = (Some h, c) \<Longrightarrow> (h, c) \<in> set votes" by (auto simp: winner_def)
qed

text \<open>The set a decision acts on.\<close>

definition decided :: "decision \<Rightarrow> string option" where
  "decided d = (case d of Stall \<Rightarrow> None | Seal h \<Rightarrow> Some h | Adopt h ids \<Rightarrow> Some h)"

lemma decided_quorum:
  assumes "decided (decideRound own peers q) = Some h"
  shows "q \<le> length (filter (\<lambda>p. pr_hash p = h) ((case own of Some m \<Rightarrow> [m] | None \<Rightarrow> []) @ peers))"
proof -
  define ps where "ps = (case own of Some m \<Rightarrow> [m] | None \<Rightarrow> []) @ peers"
  obtain w c where w: "winner (tally (map pr_hash ps)) = (w, c)" by (cases "winner (tally (map pr_hash ps))")
  have wh: "w = Some h" "q \<le> c"
    using assms w unfolding decideRound_def Let_def ps_def[symmetric] by (auto simp: decided_def split: option.splits if_splits)
  have "jget (tally (map pr_hash ps)) h = Some c"
    using winner_from[OF w[unfolded wh(1)]] tally_spec[of "map pr_hash ps" h] by (metis jget_iff)
  then have "c = length (filter (\<lambda>x. x = h) (map pr_hash ps))"
    using tally_spec[of "map pr_hash ps" h] by (simp split: if_splits)
  then show ?thesis using wh(2) unfolding ps_def[symmetric] by (simp add: filter_map comp_def)
qed

text \<open>C32: Two leads, whatever each has heard, never decide for different sets, as long as each lead's vote is one
  set and the quorum is the strict majority of the configured leads.\<close>

theorem one_vote_one_winner:
  assumes "distinct leads" "distinct (map pr_node (own # peers))" "distinct (map pr_node (own' # peers'))"
    "\<forall>p \<in> set (own # peers) \<union> set (own' # peers'). pr_node p \<in> set leads \<and> pr_hash p = vote (pr_node p)"
    "decided (decideRound (Some own) peers (sealQuorumFrom (Some leads))) = Some h"
    "decided (decideRound (Some own') peers' (sealQuorumFrom (Some leads))) = Some h'"
  shows "h = h'"
proof (rule ccontr)
  assume ne: "h \<noteq> h'"
  let ?q = "sealQuorumFrom (Some leads)" and ?V = "\<lambda>g. {j \<in> set leads. vote j = g}"
  have count: "?q \<le> card (?V g)"
    if ps: "distinct (map pr_node ps)" "\<forall>p \<in> set ps. pr_node p \<in> set leads \<and> pr_hash p = vote (pr_node p)"
      "?q \<le> length (filter (\<lambda>p. pr_hash p = g) ps)" for g ps
  proof -
    let ?fs = "filter (\<lambda>p. pr_hash p = g) ps"
    have "distinct (map pr_node ?fs)" using ps(1) by (rule distinct_map_filter)
    then have "length ?fs = card (set (map pr_node ?fs))" by (metis distinct_card length_map)
    also have "\<dots> \<le> card (?V g)" by (rule card_mono) (use ps(2) in auto)
    finally show ?thesis using ps(3) by simp
  qed
  have "?q \<le> card (?V h)" by (rule count[of "own # peers"]) (use assms(2,4) decided_quorum[OF assms(5)] in auto)
  moreover have "?q \<le> card (?V h')" by (rule count[of "own' # peers'"]) (use assms(3,4) decided_quorum[OF assms(6)] in auto)
  moreover have "card (?V h) + card (?V h') = card (?V h \<union> ?V h')" by (rule card_Un_disjoint[symmetric]) (use ne in auto)
  moreover have "card (?V h \<union> ?V h') \<le> card (set leads)" by (rule card_mono) auto
  moreover have "card (set leads) = length leads" using assms(1) by (rule distinct_card)
  ultimately show False by (simp add: sealQuorumFrom_def max_def split: if_splits)
qed

theorem one_vote_one_winner_witness:
  "(\<lambda>_. ''x'') ''n1'' = (\<lambda>_. ''x'') ''n2''"
proof -
  let ?p = "\<lambda>i. \<lparr>pr_node = i, pr_hash = ''x'', pr_ids = None\<rparr>"
  have "decided (decideRound (Some (?p ''n1'')) [?p ''n2''] (sealQuorumFrom (Some [''n1'', ''n2'', ''n3'']))) = Some ''x''"
    "decided (decideRound (Some (?p ''n2'')) [?p ''n3''] (sealQuorumFrom (Some [''n1'', ''n2'', ''n3'']))) = Some ''x''"
    by code_simp+
  then show ?thesis
    using one_vote_one_winner[of "[''n1'', ''n2'', ''n3'']" "?p ''n1''" "[?p ''n2'']" "?p ''n2''" "[?p ''n3'']" "\<lambda>_. ''x''" "''x''" "''x''"]
    by simp
qed

section \<open>Every resolved set had a quorum\<close>

definition proposers :: "proposal list \<Rightarrow> string \<Rightarrow> string set" where
  "proposers wire h = pr_node ` {p \<in> set wire. pr_hash p = h}"

definition backed :: "proposal list \<Rightarrow> string \<Rightarrow> round_state \<Rightarrow> bool" where
  "backed wire i s \<longleftrightarrow> jmap_ok (sr_peers s) \<and>
     (\<forall>h m. (h, m) \<in> set (sr_peers s) \<longrightarrow> jmap_ok m \<and> set (jkeys m) \<subseteq> proposers wire h - {i})"

lemma proposers_mono: "set w \<subseteq> set w' \<Longrightarrow> proposers w h \<subseteq> proposers w' h"
  by (auto simp: proposers_def)

lemma backed_mono: "backed w i s \<Longrightarrow> set w \<subseteq> set w' \<Longrightarrow> backed w' i s"
  using proposers_mono[of w w'] by (fastforce simp: backed_def)

lemma backed_receive:
  assumes "backed w i s" "p \<in> set w" "pr_node p \<noteq> i"
  shows "backed w i (snd (onPeerProposal p s))"
proof -
  let ?m = "case jget (sr_peers s) (pr_hash p) of Some m \<Rightarrow> m | None \<Rightarrow> []"
  have m: "jmap_ok ?m \<and> set (jkeys ?m) \<subseteq> proposers w (pr_hash p) - {i}"
    using assms(1) by (auto simp: backed_def split: option.splits dest!: jget_in)
  have "pr_node p \<in> proposers w (pr_hash p) - {i}" using assms(2,3) by (auto simp: proposers_def)
  then have k: "set (jkeys (jset ?m (pr_node p) (pr_ids p))) \<subseteq> proposers w (pr_hash p) - {i}"
    using m by (simp only: jset_keys) blast
  have ok: "jmap_ok (jset ?m (pr_node p) (pr_ids p))" using m by (simp add: jmap_ok_jset)
  have "backed w i (s\<lparr>sr_peers := jset (sr_peers s) (pr_hash p) (jset ?m (pr_node p) (pr_ids p))\<rparr>)"
    using assms(1) k ok by (auto simp: backed_def jset_set jmap_ok_jset)
  then show ?thesis using assms(1) by (simp add: onPeerProposal_def)
qed

lemma remember_done_peers: "sr_peers (remember_done h s) = sr_peers s"
  by (simp add: remember_done_def Let_def)

lemma markDone_peers: "sr_peers (markDone_round R h ids s) = jdel (sr_peers s) h"
  by (simp add: markDone_round_def Let_def remember_done_peers)

lemma backed_markDone: "backed w i s \<Longrightarrow> backed w i (markDone_round R h ids s)"
  by (auto simp: backed_def markDone_peers jdel_set jmap_ok_jdel)

lemma recorded_for:
  "jmap_ok m \<Longrightarrow>
   map pr_node (filter (\<lambda>p. pr_hash p = h) (concat (map (\<lambda>(h, byNode). map (\<lambda>(i, ids). \<lparr>pr_node = i, pr_hash = h, pr_ids = ids\<rparr>) byNode) m)))
     = (case jget m h of Some byNode \<Rightarrow> jkeys byNode | None \<Rightarrow> [])"
proof (induction m)
  case (Cons x m)
  obtain g b where x: "x = (g, b)" by (cases x)
  have same: "map pr_node (filter (\<lambda>p. pr_hash p = g) (map (\<lambda>(i, ids). \<lparr>pr_node = i, pr_hash = g, pr_ids = ids\<rparr>) b)) = jkeys b"
    by (induction b) auto
  have diff: "g \<noteq> h \<Longrightarrow> filter (\<lambda>p. pr_hash p = h) (map (\<lambda>(i, ids). \<lparr>pr_node = i, pr_hash = g, pr_ids = ids\<rparr>) b) = []"
    by (induction b) auto
  have "g = h \<Longrightarrow> jget m h = None" using Cons.prems by (auto simp: x jmap_ok_def map_of_eq_None_iff)
  then show ?case using Cons same diff by (auto simp: x jmap_ok_def)
qed simp

lemma recorded_votes:
  assumes "backed w i s"
  shows "length (filter (\<lambda>p. pr_hash p = h) (recorded s)) \<le> card (proposers w h - {i})"
proof -
  have "map pr_node (filter (\<lambda>p. pr_hash p = h) (recorded s)) = (case jget (sr_peers s) h of Some m \<Rightarrow> jkeys m | None \<Rightarrow> [])"
    using assms unfolding recorded_def by (intro recorded_for) (simp add: backed_def)
  then have l: "length (filter (\<lambda>p. pr_hash p = h) (recorded s)) = length (case jget (sr_peers s) h of Some m \<Rightarrow> jkeys m | None \<Rightarrow> [])"
    by (metis length_map)
  show ?thesis
  proof (cases "jget (sr_peers s) h")
    case (Some m)
    then have "(h, m) \<in> set (sr_peers s)" by (rule jget_in)
    then have "jmap_ok m" "set (jkeys m) \<subseteq> proposers w h - {i}" using assms unfolding backed_def by blast+
    then have "length (jkeys m) \<le> card (proposers w h - {i})"
      by (metis card_mono distinct_card finite_Diff finite_imageI finite_set finite_Collect_conjI finite_subset jmap_ok_def proposers_def set_filter)
    then show ?thesis using l Some by simp
  qed (use l in simp)
qed

text \<open>What a tick announces and resolves.\<close>

lemma tick_resolves:
  assumes "tick H R i c q pool s = (a, out, s')" "a = Sealed h items \<or> a = Adopted h items"
  shows "setHash H (map ikey items) = h \<and>
    q \<le> length (filter (\<lambda>p. pr_hash p = h) (recorded s)) + (if \<exists>ids. (h, ids) \<in> set out then 1 else 0)"
proof -
  let ?cand = "candidatePrefix ikey c 1 pool"
  let ?own = "\<lparr>pr_node = i, pr_hash = setHash H (map ikey ?cand), pr_ids = Some (map memberId ?cand)\<rparr>"
  have out: "out = rebroadcastDone R s @ [(setHash H (map ikey ?cand), map memberId ?cand)]"
    using assms by (auto simp: tick_def Let_def split: if_splits decision.splits option.splits)
  have dec: "decided (decideRound (Some ?own) (recorded s) q) = Some h"
    using assms
    by (auto simp: tick_def Let_def decided_def decideRound_def split: if_splits decision.splits option.splits prod.splits)
  have hash: "setHash H (map ikey items) = h"
    using assms by (auto simp: tick_def Let_def mkAdopt_def split: if_splits decision.splits option.splits)
  have "q \<le> length (filter (\<lambda>p. pr_hash p = h) (?own # recorded s))" using decided_quorum[OF dec] by simp
  moreover have "length (filter (\<lambda>p. pr_hash p = h) (?own # recorded s)) =
      length (filter (\<lambda>p. pr_hash p = h) (recorded s)) + (if setHash H (map ikey ?cand) = h then 1 else 0)" by simp
  moreover have "setHash H (map ikey ?cand) = h \<Longrightarrow> \<exists>ids. (h, ids) \<in> set out" using out by auto
  ultimately show ?thesis using hash by (auto split: if_splits)
qed

lemma tick_round:
  assumes "tick H R i c q pool s = (a, out, s')"
  shows "s' = s \<or> (\<exists>h ids. s' = markDone_round R h ids s)"
  using assms by (auto simp: tick_def Let_def split: if_splits decision.splits option.splits)

definition quorate :: "(string \<Rightarrow> string) \<Rightarrow> nat \<Rightarrow> network \<Rightarrow> bool" where
  "quorate H q n \<longleftrightarrow> (\<forall>i. backed (nw_wire n) i (ld_round (nw_lead n i)) \<and>
     (\<forall>(h, items) \<in> set (ld_resolved (nw_lead n i)).
        q \<le> card (proposers (nw_wire n) h) \<and> setHash H (map ikey items) = h))"

lemma quorate_grow:
  assumes "quorate H q n" "set (nw_wire n) \<subseteq> set (nw_wire n')"
    "\<And>j. j \<noteq> i \<Longrightarrow> nw_lead n' j = nw_lead n j"
    "backed (nw_wire n') i (ld_round (nw_lead n' i))"
    "\<And>h items. (h, items) \<in> set (ld_resolved (nw_lead n' i)) \<Longrightarrow>
       (h, items) \<in> set (ld_resolved (nw_lead n i)) \<or> q \<le> card (proposers (nw_wire n') h) \<and> setHash H (map ikey items) = h"
  shows "quorate H q n'"
proof -
  have mono: "card (proposers (nw_wire n) h) \<le> card (proposers (nw_wire n') h)" for h
    by (rule card_mono) (use proposers_mono[OF assms(2)] in \<open>auto simp: proposers_def\<close>)
  have old: "q \<le> card (proposers (nw_wire n') h) \<and> setHash H (map ikey items) = h"
    if "(h, items) \<in> set (ld_resolved (nw_lead n j))" for j h items
    using assms(1) that mono[of h] by (fastforce simp: quorate_def)
  have "backed (nw_wire n') j (ld_round (nw_lead n' j)) \<and>
      (\<forall>(h, items) \<in> set (ld_resolved (nw_lead n' j)). q \<le> card (proposers (nw_wire n') h) \<and> setHash H (map ikey items) = h)" for j
  proof (cases "j = i")
    case True
    then show ?thesis using assms(4,5) old by blast
  next
    case False
    then show ?thesis using assms(1,3) old backed_mono[OF _ assms(2)] by (fastforce simp: quorate_def)
  qed
  then show ?thesis by (simp add: quorate_def)
qed

lemma quorate_step:
  assumes "quorate H q n" "seal_step H R c q n n'"
  shows "quorate H q n'"
  using assms(2)
proof cases
  case (Arrive i x)
  then show ?thesis using assms(1) by (auto simp: quorate_def arrive_def)
next
  case (Deliver p i)
  obtain out s where o: "onPeerProposal p (ld_round (nw_lead n i)) = (out, s)" by fastforce
  have b: "backed (nw_wire n) i s"
    using backed_receive[of "nw_wire n" i "ld_round (nw_lead n i)" p] assms(1) Deliver(2,3) o by (simp add: quorate_def)
  show ?thesis
    by (rule quorate_grow[OF assms(1), of _ i])
      (use Deliver(1) o backed_mono[OF b] in \<open>simp_all add: receive_def\<close>)
next
  case (Tick i)
  let ?l = "nw_lead n i"
  obtain a out s where t: "tick H R i c q (ld_pool ?l) (ld_round ?l) = (a, out, s)" by (metis prod_cases3)
  have n': "n' = n\<lparr>nw_lead := (nw_lead n)(i := settle_tick a (?l\<lparr>ld_round := s\<rparr>)), nw_wire := nw_wire n @ sent i out\<rparr>"
    using Tick t by (simp add: tick_lead_def)
  have b: "backed (nw_wire n) i (ld_round ?l)" using assms(1) by (simp add: quorate_def)
  have bs: "backed (nw_wire n') i s"
    using tick_round[OF t] b backed_mono[of "nw_wire n" i _ "nw_wire n'"] backed_markDone n' by auto
  have enough: "q \<le> card (proposers (nw_wire n') h) \<and> setHash H (map ikey items) = h"
    if ai: "a = Sealed h items \<or> a = Adopted h items" for h items
  proof -
    note T = tick_resolves[OF t ai]
    let ?P = "proposers (nw_wire n) h - {i}"
    have fin: "finite (proposers w h)" for w by (simp add: proposers_def)
    have sub: "?P \<subseteq> proposers (nw_wire n') h" using proposers_mono[of "nw_wire n" "nw_wire n'" h] n' by auto
    have v: "q \<le> card ?P + (if \<exists>ids. (h, ids) \<in> set out then 1 else 0)"
      using T recorded_votes[OF b, of h] by linarith
    show ?thesis
    proof (cases "\<exists>ids. (h, ids) \<in> set out")
      case True
      then have "i \<in> proposers (nw_wire n') h" by (force simp: n' proposers_def sent_def image_iff)
      then have "insert i ?P \<subseteq> proposers (nw_wire n') h" using sub by blast
      then have "card (insert i ?P) \<le> card (proposers (nw_wire n') h)" by (rule card_mono[OF fin])
      moreover have "card (insert i ?P) = Suc (card ?P)" by (rule card_insert_disjoint) (simp_all add: fin)
      ultimately show ?thesis using T v by (simp split: if_splits)
    next
      case False
      then show ?thesis using T v card_mono[OF fin sub] by simp
    qed
  qed
  show ?thesis
  proof (rule quorate_grow[OF assms(1), of _ i])
    show "backed (nw_wire n') i (ld_round (nw_lead n' i))"
      using bs by (simp add: n' settle_tick_def split: outcome.splits)
    fix h items assume "(h, items) \<in> set (ld_resolved (nw_lead n' i))"
    then have "(h, items) \<in> set (ld_resolved ?l) \<or> a = Sealed h items \<or> a = Adopted h items"
      by (auto simp: n' settle_tick_def split: outcome.splits)
    then show "(h, items) \<in> set (ld_resolved ?l) \<or> q \<le> card (proposers (nw_wire n') h) \<and> setHash H (map ikey items) = h"
      using enough by blast
  qed (auto simp: n')
qed

text \<open>C31: In every reachable state of the network each set a lead has sealed or adopted is the one its hash
  names, and a quorum of leads have announced that very set.\<close>

theorem quorum_behind_every_seal:
  assumes "seal_reach H R c q n" "(h, items) \<in> set (ld_resolved (nw_lead n i))"
  shows "q \<le> card (proposers (nw_wire n) h) \<and> setHash H (map ikey items) = h"
proof -
  have "quorate H q n" using assms(1)
  proof induction
    case init
    show ?case by (simp add: quorate_def start_def backed_def new_round_def)
  qed (rule quorate_step)
  then show ?thesis using assms(2) by (fastforce simp: quorate_def)
qed

section \<open>Changing one's mind\<close>

definition it :: "string \<Rightarrow> item" where
  "it k = (k, k)"

text \<open>
  Three leads and a quorum of two. \<open>B\<close> proposes b, c, d, which \<open>A\<close> holds too and seals; then a arrives at
  \<open>B\<close>, whose lowest three become a, b, c; \<open>C\<close> holds those and seals them on the new vote.
\<close>

definition fork1 :: network where
  "fork1 = tick_lead (\<lambda>s. s) 3 3 2 ''B'' (fold (\<lambda>(i, x) n. arrive i (it x) n)
     [(''A'', ''b''), (''A'', ''c''), (''A'', ''d''), (''B'', ''b''), (''B'', ''c''), (''B'', ''d''),
      (''C'', ''a''), (''C'', ''b''), (''C'', ''c'')] start)"

definition fork2 :: network where
  "fork2 = tick_lead (\<lambda>s. s) 3 3 2 ''A'' (receive ''A'' (last (nw_wire fork1)) fork1)"

definition fork3 :: network where
  "fork3 = tick_lead (\<lambda>s. s) 3 3 2 ''B'' (arrive ''B'' (it ''a'') fork2)"

definition forked :: network where
  "forked = tick_lead (\<lambda>s. s) 3 3 2 ''C'' (receive ''C'' (last (nw_wire fork3)) fork3)"

lemma arrivals_reach: "seal_reach H R c q n \<Longrightarrow> seal_reach H R c q (fold (\<lambda>(i, x) n. arrive i (it x) n) ixs n)"
  by (induction ixs arbitrary: n) (auto intro: seal_reach.step Arrive)

lemma forked_reach: "seal_reach (\<lambda>s. s) 3 3 2 forked"
proof -
  have "seal_reach (\<lambda>s. s) 3 3 2 fork1" unfolding fork1_def
    by (rule seal_reach.step[OF arrivals_reach[OF seal_reach.init] Tick]) simp
  moreover have "nw_wire fork1 \<noteq> []" "pr_node (last (nw_wire fork1)) \<noteq> ''A''" by code_simp+
  ultimately have "seal_reach (\<lambda>s. s) 3 3 2 (receive ''A'' (last (nw_wire fork1)) fork1)"
    by (intro seal_reach.step[OF _ Deliver]) simp_all
  then have "seal_reach (\<lambda>s. s) 3 3 2 fork2" unfolding fork2_def
    by (rule seal_reach.step[OF _ Tick]) simp
  then have "seal_reach (\<lambda>s. s) 3 3 2 (arrive ''B'' (it ''a'') fork2)" by (rule seal_reach.step[OF _ Arrive])
  then have "seal_reach (\<lambda>s. s) 3 3 2 fork3" unfolding fork3_def
    by (rule seal_reach.step[OF _ Tick]) simp
  moreover have "nw_wire fork3 \<noteq> []" "pr_node (last (nw_wire fork3)) \<noteq> ''C''" by code_simp+
  ultimately have "seal_reach (\<lambda>s. s) 3 3 2 (receive ''C'' (last (nw_wire fork3)) fork3)"
    by (intro seal_reach.step[OF _ Deliver]) simp_all
  then show ?thesis unfolding forked_def by (rule seal_reach.step[OF _ Tick]) simp
qed

lemma forked_resolved:
  "map (\<lambda>(h, items). map ikey items) (ld_resolved (nw_lead forked ''A'')) = [[''b'', ''c'', ''d'']]"
  "map (\<lambda>(h, items). map ikey items) (ld_resolved (nw_lead forked ''C'')) = [[''a'', ''b'', ''c'']]"
  by code_simp+

theorem quorum_behind_every_seal_witness:
  "list_all (\<lambda>(h, items). 2 \<le> card (proposers (nw_wire forked) h)) (ld_resolved (nw_lead forked ''A''))"
  using quorum_behind_every_seal[OF forked_reach, of _ _ "''A''"] by (auto simp: list_all_iff)

text \<open>With three leads and the quorum of a strict majority, no Byzantine one among them, two leads can seal
  different sets that share members: a lead whose candidate changes is counted for the old one and for
  the new one.\<close>

lemma changed_vote_forks:
  "\<exists>n. seal_reach (\<lambda>s. s) 3 3 (sealQuorumFrom (Some [''A'', ''B'', ''C''])) n \<and>
     map (\<lambda>(h, items). map ikey items) (ld_resolved (nw_lead n ''A'')) = [[''b'', ''c'', ''d'']] \<and>
     map (\<lambda>(h, items). map ikey items) (ld_resolved (nw_lead n ''C'')) = [[''a'', ''b'', ''c'']]"
proof -
  have "sealQuorumFrom (Some [''A'', ''B'', ''C'']) = 2" by code_simp
  then show ?thesis using forked_reach forked_resolved by auto
qed

section \<open>A resolved set keeps answering\<close>





lemma last_n_mono: "n \<le> m \<Longrightarrow> set (last_n n xs) \<subseteq> set (last_n m xs)"
  unfolding last_n_def by (rule set_drop_subset_set_drop) simp



















end
