(* ===== verification/Mempool.thy ===== *)
theory Mempool
  imports Micromine
begin

text \<open>
  \<open>mempool.js\<close>: the five tiers of the consensus mempool with their LevelDB rows, the bounds on the raw
  tier and the restore after a restart. Shown: no submitter ever holds more than its share of the pool;
  an admission removes only transactions past the abandon age and never renews an age; the restore is
  bounded whatever is on disk; the sweep of finalized transactions leaves none past its time.

  An \<open>await\<close> on the store is taken as done at once. The store holds values, not text: a row is written
  only when \<open>JSON.stringify\<close> accepts it (no BigInt), and reads back as what JSON keeps of it. A clock
  reading is an argument, in milliseconds, the same one for all readings of one operation. Environment
  variables are \<open>None\<close> when unset or not a number. \<open>mp_removed\<close> records the calls of \<open>onRawTxRemoved\<close>,
  which the workflow answers. Console output and events are not modelled.
\<close>

section \<open>Configuration\<close>

record env =
  env_max :: "int option"
  env_lite :: bool
  env_peer :: "int option"
  env_abandon :: "int option"
  env_sweep :: "int option"
  env_count_ttl :: "int option"
  env_tombs :: "int option"
  env_tx_ttl :: "int option"

text \<open>\<open>Number(v) || d\<close>.\<close>

definition num_or :: "int option \<Rightarrow> int \<Rightarrow> int" where
  "num_or v d = (case v of Some n \<Rightarrow> if n = 0 then d else n | None \<Rightarrow> d)"

definition pool_max :: "env \<Rightarrow> int" where
  "pool_max e = max 100 (num_or (env_max e) (if env_lite e then 1000 else 5000))"

definition peer_max :: "env \<Rightarrow> int" where
  "peer_max e = max 50 (num_or (env_peer e) (pool_max e div 4))"

definition abandon_ms :: "env \<Rightarrow> int" where
  "abandon_ms e = max 1000 (num_or (env_abandon e) 300000)"

definition tx_ttl :: "env \<Rightarrow> int" where
  "tx_ttl e = max 1000 (num_or (env_tx_ttl e) 60000)"

section \<open>State\<close>

record raw_entry =
  re_txData :: jsval
  re_stamps :: "(string \<times> jsval) list"
  re_at :: "int option"
  re_leaders :: "string list option"

record task =
  tk_task :: string
  tk_complete :: bool
  tk_leader :: string

record processing =
  pe_rawTxId :: string
  pe_timestamp :: int
  pe_txData :: jsval
  pe_leader :: "string option"
  pe_stamps :: "(string \<times> jsval) list"

record disk =
  dk_raw :: "(string, raw_entry) jmap"
  dk_processing :: "(string, processing) jmap"
  dk_tx :: "(string, jsval) jmap"
  dk_tasks :: "(string, task list) jmap"
  dk_locked :: "jsval list option"

record mempool =
  mp_raw :: "(string, (string, raw_entry) jmap) jmap"
  mp_tasks :: "(string, task list) jmap"
  mp_locked :: "jsval list"
  mp_processing :: "(string, processing) jmap"
  mp_tx :: "(string, jsval) jmap"
  mp_txAt :: "(string, int) jmap"
  mp_tombs :: "string list"
  mp_tombHits :: nat
  mp_refusals :: "(string, nat) jmap"
  mp_rawCount :: "int option"
  mp_rawCountAt :: int
  mp_lastSweep :: int
  mp_open :: bool
  mp_disk :: disk
  mp_removed :: "(string \<times> string) list"

definition empty_disk :: disk where
  "empty_disk = \<lparr>dk_raw = [], dk_processing = [], dk_tx = [], dk_tasks = [], dk_locked = None\<rparr>"

definition new_mempool :: "bool \<Rightarrow> disk \<Rightarrow> mempool" where
  "new_mempool open d = \<lparr>mp_raw = [], mp_tasks = [], mp_locked = [], mp_processing = [], mp_tx = [], mp_txAt = [],
     mp_tombs = [], mp_tombHits = 0, mp_refusals = [], mp_rawCount = None, mp_rawCountAt = 0, mp_lastSweep = 0,
     mp_open = open, mp_disk = d, mp_removed = []\<rparr>"

section \<open>Hashing\<close>

fun serializeBigInts :: "jsval \<Rightarrow> jsval" and serialize_elems :: "jsval list \<Rightarrow> jsval list"
  and serialize_props :: "(string \<times> jsval) list \<Rightarrow> (string \<times> jsval) list" where
  "serializeBigInts (JBig n) = JStr (show_int n)"
| "serializeBigInts (JArr xs) = JArr (serialize_elems xs)"
| "serializeBigInts (JObj kvs) = JObj (serialize_props kvs)"
| "serializeBigInts v = v"
| "serialize_elems [] = []"
| "serialize_elems (v # vs) = serializeBigInts v # serialize_elems vs"
| "serialize_props [] = []"
| "serialize_props ((k, v) # kvs) = (k, serializeBigInts v) # serialize_props kvs"

definition hashTransaction :: "(string \<Rightarrow> string) \<Rightarrow> jsval \<Rightarrow> string option" where
  "hashTransaction H tx = map_option (sha256hex H) (json_stringify (serializeBigInts tx))"

section \<open>Rows\<close>

definition row_key :: "string \<Rightarrow> string \<Rightarrow> string" where
  "row_key a b = a @ '':'' @ b"

definition on_disk :: "(disk \<Rightarrow> disk) \<Rightarrow> mempool \<Rightarrow> mempool" where
  "on_disk f m = (if mp_open m then m\<lparr>mp_disk := f (mp_disk m)\<rparr> else m)"

definition entry_json :: "raw_entry \<Rightarrow> bool" where
  "entry_json d \<longleftrightarrow> no_big (re_txData d) \<and> list_all (no_big \<circ> snd) (re_stamps d)"

definition saveRawTx :: "string \<Rightarrow> string \<Rightarrow> raw_entry \<Rightarrow> mempool \<Rightarrow> mempool" where
  "saveRawTx leader i d m =
     (if entry_json d then on_disk (\<lambda>k. k\<lparr>dk_raw := jset (dk_raw k) (row_key leader i) (d\<lparr>re_txData := json_norm (re_txData d)\<rparr>)\<rparr>) m
      else m)"

text \<open>The row carries the validator clock as a BigInt, so \<open>JSON.stringify\<close> throws and nothing is written.\<close>

definition saveProcessingTx :: "string \<Rightarrow> processing \<Rightarrow> mempool \<Rightarrow> mempool" where
  "saveProcessingTx h p m = m"

definition saveTx :: "string \<Rightarrow> jsval \<Rightarrow> mempool \<Rightarrow> mempool" where
  "saveTx h tx m = (if no_big tx then on_disk (\<lambda>k. k\<lparr>dk_tx := jset (dk_tx k) h (json_norm tx)\<rparr>) m else m)"

definition saveValidationTasks :: "string \<Rightarrow> string \<Rightarrow> task list \<Rightarrow> mempool \<Rightarrow> mempool" where
  "saveValidationTasks leader i ts m =
     on_disk (\<lambda>k. k\<lparr>dk_tasks := (if ts = [] then jdel (dk_tasks k) (row_key leader i) else jset (dk_tasks k) (row_key leader i) ts)\<rparr>) m"

definition setValidationTasksFor :: "string \<Rightarrow> string \<Rightarrow> task list \<Rightarrow> task list option \<Rightarrow> mempool \<Rightarrow> mempool" where
  "setValidationTasksFor leader i ts whole m =
     saveValidationTasks leader i ts (case whole of None \<Rightarrow> m | Some w \<Rightarrow> m\<lparr>mp_tasks := jset (mp_tasks m) leader w\<rparr>)"

definition getValidationTasks :: "string \<Rightarrow> mempool \<Rightarrow> task list" where
  "getValidationTasks leader m = (case jget (mp_tasks m) leader of Some ts \<Rightarrow> ts | None \<Rightarrow> [])"

definition clearValidationTasks :: "string \<Rightarrow> mempool \<Rightarrow> mempool" where
  "clearValidationTasks leader m =
     on_disk (\<lambda>k. k\<lparr>dk_tasks := jdel (dk_tasks k) leader\<rparr>) (m\<lparr>mp_tasks := jdel (mp_tasks m) leader\<rparr>)"

definition clearValidationTasksFor :: "string \<Rightarrow> string \<Rightarrow> mempool \<Rightarrow> mempool" where
  "clearValidationTasksFor leader i m = on_disk (\<lambda>k. k\<lparr>dk_tasks := jdel (dk_tasks k) (row_key leader i)\<rparr>) m"

definition saveLockedUtxos :: "mempool \<Rightarrow> mempool" where
  "saveLockedUtxos m =
     (if list_all no_big (mp_locked m) then on_disk (\<lambda>k. k\<lparr>dk_locked := Some (map json_norm (mp_locked m))\<rparr>) m else m)"

definition lockUtxos :: "jsval list \<Rightarrow> mempool \<Rightarrow> mempool" where
  "lockUtxos us m = saveLockedUtxos (m\<lparr>mp_locked := fold (\<lambda>u s. if u \<in> set s then s else s @ [u]) us (mp_locked m)\<rparr>)"

definition unlockUtxos :: "jsval list \<Rightarrow> mempool \<Rightarrow> mempool" where
  "unlockUtxos us m = saveLockedUtxos (m\<lparr>mp_locked := filter (\<lambda>u. u \<notin> set us) (mp_locked m)\<rparr>)"

definition deleteRawTx :: "string \<Rightarrow> string \<Rightarrow> mempool \<Rightarrow> mempool" where
  "deleteRawTx leader i m =
     on_disk (\<lambda>k. k\<lparr>dk_raw := jdel (dk_raw k) (row_key leader i)\<rparr>) (m\<lparr>mp_removed := mp_removed m @ [(leader, i)]\<rparr>)"

section \<open>The raw tier and its bounds\<close>

definition pool_of :: "string \<Rightarrow> mempool \<Rightarrow> (string, raw_entry) jmap" where
  "pool_of leader m = (case jget (mp_raw m) leader of Some p \<Rightarrow> p | None \<Rightarrow> [])"

definition recount :: "mempool \<Rightarrow> int" where
  "recount m = int (sum_list (map (\<lambda>(l, p). length p) (mp_raw m)))"

definition rawCount :: "env \<Rightarrow> int \<Rightarrow> mempool \<Rightarrow> int \<times> mempool" where
  "rawCount e now m =
     (if mp_rawCount m = None \<or> max 0 (num_or (env_count_ttl e) 250) \<le> now - mp_rawCountAt m
      then (recount m, m\<lparr>mp_rawCount := Some (recount m), mp_rawCountAt := now\<rparr>)
      else (the (mp_rawCount m), m))"

definition drop_pooled :: "string \<Rightarrow> string \<Rightarrow> mempool \<Rightarrow> mempool" where
  "drop_pooled leader i m =
     (case jget (mp_raw m) leader of Some p \<Rightarrow> m\<lparr>mp_raw := jset (mp_raw m) leader (jdel p i)\<rparr> | None \<Rightarrow> m)"

definition abandoned :: "env \<Rightarrow> int \<Rightarrow> raw_entry \<Rightarrow> bool" where
  "abandoned e now d \<longleftrightarrow> (case re_at d of Some ts \<Rightarrow> abandon_ms e < now - ts | None \<Rightarrow> False)"

definition evictable :: "env \<Rightarrow> int \<Rightarrow> int \<Rightarrow> mempool \<Rightarrow> (string \<times> string) list" where
  "evictable e overBy now m = take (max 1 (nat overBy))
     (concat (map (\<lambda>(l, p). map (\<lambda>(i, d). (l, i)) (filter (\<lambda>(i, d). abandoned e now d) p)) (mp_raw m)))"

definition tombstone :: "env \<Rightarrow> string \<Rightarrow> mempool \<Rightarrow> mempool" where
  "tombstone e i m =
     (if i \<in> set (mp_tombs m) then m
      else (let maxT = nat (max 1000 (num_or (env_tombs e) 50000)); order = mp_tombs m @ [i] in
        m\<lparr>mp_tombs := drop (length order - maxT) order\<rparr>))"

definition isTombstoned :: "string \<Rightarrow> mempool \<Rightarrow> bool" where
  "isTombstoned i m \<longleftrightarrow> i \<in> set (mp_tombs m)"

definition evict_victims :: "string \<Rightarrow> (string \<times> string) list \<Rightarrow> mempool \<Rightarrow> mempool" where
  "evict_victims keep vs m = fold (\<lambda>(l, i) m. if i = keep then m else deleteRawTx l i (drop_pooled l i m)) vs m"

definition bound_sweep :: "env \<Rightarrow> int \<Rightarrow> string \<Rightarrow> mempool \<Rightarrow> mempool" where
  "bound_sweep e now keep m =
     (let (n, m1) = rawCount e now m in
      if pool_max e < n \<and> max 0 (num_or (env_sweep e) 1000) \<le> now - mp_lastSweep m1 then
        (let (n2, m2) = rawCount e now (m1\<lparr>mp_lastSweep := now\<rparr>);
             vs = evictable e (n2 - pool_max e) now m2;
             m3 = (evict_victims keep vs m2)\<lparr>mp_rawCountAt := 0\<rparr> in
         if vs = [] then m3 else snd (rawCount e now m3))
      else m1)"

definition open_pool :: "string \<Rightarrow> mempool \<Rightarrow> mempool" where
  "open_pool leader m = (if jhas (mp_raw m) leader then m else m\<lparr>mp_raw := jset (mp_raw m) leader []\<rparr>)"

definition pool_entry :: "int \<Rightarrow> (string, raw_entry) jmap \<Rightarrow> string \<Rightarrow> jsval \<Rightarrow> raw_entry" where
  "pool_entry now own i tx = \<lparr>re_txData = tx, re_stamps = [],
     re_at = Some (case jget own i of Some d \<Rightarrow> (case re_at d of Some t \<Rightarrow> t | None \<Rightarrow> now) | None \<Rightarrow> now),
     re_leaders = None\<rparr>"

definition addRawTransaction :: "(string \<Rightarrow> string) \<Rightarrow> env \<Rightarrow> int \<Rightarrow> string \<Rightarrow> jsval \<Rightarrow> mempool \<Rightarrow> string option \<times> mempool" where
  "addRawTransaction H e now leader tx m =
     (case hashTransaction H tx of
        None \<Rightarrow> (None, m)
      | Some i \<Rightarrow>
          if isTombstoned i m \<and> \<not> jhas (pool_of leader m) i then (Some i, m\<lparr>mp_tombHits := mp_tombHits m + 1\<rparr>)
          else (let m1 = open_pool leader m;
                    own = pool_of leader m1 in
            if peer_max e \<le> int (length own) \<and> \<not> jhas own i then
              (Some i, m1\<lparr>mp_refusals := jset (mp_refusals m1) leader ((case jget (mp_refusals m1) leader of Some n \<Rightarrow> n | None \<Rightarrow> 0) + 1)\<rparr>)
            else (let entry = pool_entry now own i tx;
                      m2 = saveRawTx leader i entry (m1\<lparr>mp_raw := jset (mp_raw m1) leader (jset own i entry)\<rparr>) in
              (Some i, bound_sweep e now i m2))))"

section \<open>The finalized tier\<close>

definition sweep_row :: "env \<Rightarrow> int \<Rightarrow> string \<times> int \<Rightarrow> nat \<times> mempool \<Rightarrow> nat \<times> mempool" where
  "sweep_row e now ia nm = (case (ia, nm) of ((i, t), (n, m)) \<Rightarrow>
     if now - t \<le> tx_ttl e then (n, m)
     else (n + 1, on_disk (\<lambda>k. k\<lparr>dk_tx := jdel (dk_tx k) i\<rparr>) (m\<lparr>mp_tx := jdel (mp_tx m) i, mp_txAt := jdel (mp_txAt m) i\<rparr>)))"

definition sweepFinalizedTx :: "env \<Rightarrow> int \<Rightarrow> mempool \<Rightarrow> nat \<times> mempool" where
  "sweepFinalizedTx e now m =
     (let (n, m1) = fold (sweep_row e now) (mp_txAt m) (0, m) in
      (n, m1\<lparr>mp_txAt := fold (\<lambda>i a. if jhas a i then a else jset a i now) (jkeys (mp_tx m1)) (mp_txAt m1)\<rparr>))"

section \<open>The restore\<close>

text \<open>LevelDB iterates in key order.\<close>

definition in_order :: "(string, 'v) jmap \<Rightarrow> (string \<times> 'v) list" where
  "in_order m = sort_key fst m"

definition part :: "nat \<Rightarrow> string \<Rightarrow> string" where
  "part n s = (if n = 0 then takeWhile (\<lambda>c. c \<noteq> CHR '':'') s
     else takeWhile (\<lambda>c. c \<noteq> CHR '':'') (tl (dropWhile (\<lambda>c. c \<noteq> CHR '':'') s)))"

definition load_raw :: "string \<times> raw_entry \<Rightarrow> mempool \<Rightarrow> mempool" where
  "load_raw kd m = (let l = part 0 (fst kd); i = part 1 (fst kd) in
     m\<lparr>mp_raw := jset (mp_raw m) l (jset (pool_of l m) i (snd kd))\<rparr>)"

definition load_tasks :: "string \<times> task list \<Rightarrow> mempool \<Rightarrow> mempool" where
  "load_tasks kt m =
     (if CHR '':'' \<notin> set (fst kt) then m
      else (let l = part 0 (fst kt) in m\<lparr>mp_tasks := jset (mp_tasks m) l (getValidationTasks l m @ snd kt)\<rparr>))"

definition restored :: "disk \<Rightarrow> (string \<times> string \<times> int) list" where
  "restored d = map (\<lambda>(k, r). (part 0 k, part 1 k, case re_at r of Some t \<Rightarrow> t | None \<Rightarrow> 0)) (in_order (dk_raw d))"

definition forget :: "string \<times> string \<times> int \<Rightarrow> mempool \<Rightarrow> mempool" where
  "forget lit m = (case lit of (l, i, t) \<Rightarrow> let m' = drop_pooled l i m in
     m'\<lparr>mp_disk := (mp_disk m')\<lparr>dk_raw := jdel (dk_raw (mp_disk m')) (row_key l i)\<rparr>\<rparr>)"

definition prune_restored :: "env \<Rightarrow> int \<Rightarrow> (string \<times> string \<times> int) list \<Rightarrow> mempool \<Rightarrow> mempool" where
  "prune_restored e now rs m =
     (if pool_max e < int (length rs) then
        (let m1 = fold forget (drop (nat (pool_max e)) (sort_key (\<lambda>(l, i, t). - t) rs)) m in
         snd (rawCount e now (m1\<lparr>mp_rawCountAt := 0\<rparr>)))
      else m)"

definition restoreState :: "env \<Rightarrow> int \<Rightarrow> mempool \<Rightarrow> mempool" where
  "restoreState e now m =
     (if \<not> mp_open m then m
      else (let d = mp_disk m;
            m1 = fold load_raw (in_order (dk_raw d)) m;
            m2 = m1\<lparr>mp_processing := fold (\<lambda>(h, p) s. jset s h p) (in_order (dk_processing d)) (mp_processing m1),
                    mp_tx := fold (\<lambda>(h, t) s. jset s h t) (in_order (dk_tx d)) (mp_tx m1),
                    mp_txAt := fold (\<lambda>(h, t) s. jset s h now) (in_order (dk_tx d)) (mp_txAt m1)\<rparr>;
            m3 = fold load_tasks (in_order (dk_tasks d)) m2;
            m4 = m3\<lparr>mp_disk := (mp_disk m3)\<lparr>dk_tasks := filter (\<lambda>(k, t). CHR '':'' \<in> set k) (dk_tasks (mp_disk m3))\<rparr>,
                    mp_locked := (case dk_locked d of Some us \<Rightarrow> remdups us | None \<Rightarrow> mp_locked m3)\<rparr> in
          prune_restored e now (restored d) m4))"

definition initDb :: "env \<Rightarrow> int \<Rightarrow> disk option \<Rightarrow> mempool" where
  "initDb e now d = (case d of None \<Rightarrow> new_mempool False empty_disk | Some k \<Rightarrow> restoreState e now (new_mempool True k))"

section \<open>What the helpers leave alone\<close>

lemma on_disk_frame [step_simps]:
  "mp_raw (on_disk f m) = mp_raw m" "mp_tx (on_disk f m) = mp_tx m" "mp_txAt (on_disk f m) = mp_txAt m"
  "mp_locked (on_disk f m) = mp_locked m" "mp_processing (on_disk f m) = mp_processing m" "mp_open (on_disk f m) = mp_open m"
  "mp_tasks (on_disk f m) = mp_tasks m" "mp_removed (on_disk f m) = mp_removed m"
  by (simp_all add: on_disk_def)

lemma raw_frame [step_simps]:
  "mp_raw (saveRawTx l i d m) = mp_raw m" "mp_raw (deleteRawTx l i m) = mp_raw m" "mp_raw (snd (rawCount e now m)) = mp_raw m"
  by (simp_all add: saveRawTx_def deleteRawTx_def rawCount_def step_simps)

lemma drop_pooled_of: "pool_of l (drop_pooled l' i m) = (if l = l' then jdel (pool_of l m) i else pool_of l m)"
  by (auto simp: drop_pooled_def pool_of_def jmap_simps split: option.splits)

section \<open>Well-formed pools\<close>

definition pools_ok :: "mempool \<Rightarrow> bool" where
  "pools_ok m \<longleftrightarrow> jmap_ok (mp_raw m) \<and> (\<forall>lp \<in> set (mp_raw m). jmap_ok (snd lp))"

definition share_ok :: "int \<Rightarrow> mempool \<Rightarrow> bool" where
  "share_ok n m \<longleftrightarrow> (\<forall>lp \<in> set (mp_raw m). int (length (snd lp)) \<le> n)"

lemma set_jset: "set (jset m k v) \<subseteq> insert (k, v) (set m)"
  by (induction m) auto

lemma pools_ok_jset:
  "pools_ok m \<Longrightarrow> jmap_ok p \<Longrightarrow> mp_raw m' = jset (mp_raw m) l p \<Longrightarrow> pools_ok m'"
  using set_jset[of l p "mp_raw m"] by (fastforce simp: pools_ok_def jmap_ok_jset)

lemma share_ok_jset: "share_ok n m \<Longrightarrow> int (length p) \<le> n \<Longrightarrow> mp_raw m' = jset (mp_raw m) l p \<Longrightarrow> share_ok n m'"
  using set_jset[of l p "mp_raw m"] by (fastforce simp: share_ok_def)

lemma pool_of_in: "jget (mp_raw m) l = Some p \<Longrightarrow> (l, p) \<in> set (mp_raw m) \<and> pool_of l m = p"
  by (simp add: pool_of_def jget_in)

lemma pool_of_ok: "pools_ok m \<Longrightarrow> jmap_ok (pool_of l m)"
  by (auto simp: pools_ok_def pool_of_def split: option.splits dest!: jget_in)

lemma pool_of_share: "share_ok n m \<Longrightarrow> 0 \<le> n \<Longrightarrow> int (length (pool_of l m)) \<le> n"
  by (auto simp: share_ok_def pool_of_def split: option.splits dest!: jget_in)

lemma drop_pooled_ok:
  "pools_ok m \<Longrightarrow> pools_ok (drop_pooled l i m)" "share_ok n m \<Longrightarrow> share_ok n (drop_pooled l i m)"
proof -
  show "pools_ok m \<Longrightarrow> pools_ok (drop_pooled l i m)"
  proof (cases "jget (mp_raw m) l")
    case (Some p)
    assume "pools_ok m"
    moreover then have "jmap_ok (jdel p i)" using pool_of_ok[of m l] pool_of_in[OF Some] by (simp add: jmap_ok_jdel)
    ultimately show ?thesis by (rule pools_ok_jset[of m "jdel p i" _ l]) (simp add: drop_pooled_def Some)
  qed (simp add: drop_pooled_def)
  show "share_ok n m \<Longrightarrow> share_ok n (drop_pooled l i m)"
  proof (cases "jget (mp_raw m) l")
    case (Some p)
    assume s: "share_ok n m"
    then have "int (length p) \<le> n" using pool_of_in[OF Some] by (fastforce simp: share_ok_def)
    then have "int (length (jdel p i)) \<le> n" using jdel_length[of i p] by linarith
    then show ?thesis by (rule share_ok_jset[OF s, of "jdel p i" _ l]) (simp add: drop_pooled_def Some)
  qed (simp add: drop_pooled_def)
qed

lemma pools_raw: "mp_raw m' = mp_raw m \<Longrightarrow> pools_ok m' = pools_ok m" "mp_raw m' = mp_raw m \<Longrightarrow> share_ok n m' = share_ok n m"
  "mp_raw m' = mp_raw m \<Longrightarrow> pool_of l m' = pool_of l m"
  by (simp_all add: pools_ok_def share_ok_def pool_of_def)

text \<open>A predicate that only the raw tier decides, and that dropping a transaction keeps, survives the sweep.\<close>

lemma sweep_keeps:
  assumes raw: "\<And>m m'. mp_raw m' = mp_raw m \<Longrightarrow> P m' = P m" and drop: "\<And>l i m. P m \<Longrightarrow> P (drop_pooled l i m)" and "P m"
  shows "P (bound_sweep e now keep m)"
proof -
  have ev: "P m \<Longrightarrow> P (evict_victims keep vs m)" for vs m
  proof (induction vs arbitrary: m)
    case (Cons v vs)
    obtain l i where v: "v = (l, i)" by (cases v)
    have "P (if i = keep then m else deleteRawTx l i (drop_pooled l i m))"
      using Cons.prems drop raw[of "deleteRawTx l i (drop_pooled l i m)" "drop_pooled l i m"] by (simp add: step_simps)
    then show ?case using Cons.IH by (simp add: evict_victims_def v)
  qed (simp add: evict_victims_def)
  have rc: "P m \<Longrightarrow> P (snd (rawCount e now m))" for m using raw[of "snd (rawCount e now m)" m] by (simp add: step_simps)
  obtain n m1 where r: "rawCount e now m = (n, m1)" by (cases "rawCount e now m")
  obtain n2 m2 where r2: "rawCount e now (m1\<lparr>mp_lastSweep := now\<rparr>) = (n2, m2)" by (cases "rawCount e now (m1\<lparr>mp_lastSweep := now\<rparr>)")
  have "P m1" using rc[OF assms(3)] r by simp
  then have "P m2" using rc[of "m1\<lparr>mp_lastSweep := now\<rparr>"] raw[of "m1\<lparr>mp_lastSweep := now\<rparr>" m1] r2 by simp
  then have ev2: "P ((evict_victims keep vs m2)\<lparr>mp_rawCountAt := 0\<rparr>)" for vs
    using ev[of m2 vs] raw[of "(evict_victims keep vs m2)\<lparr>mp_rawCountAt := 0\<rparr>" "evict_victims keep vs m2"] by simp
  show ?thesis unfolding bound_sweep_def Let_def r r2 using \<open>P m1\<close> ev2 rc[OF ev2] by (simp add: r2)
qed

lemma peer_max_pos: "0 < peer_max e"
  by (simp add: peer_max_def)

lemma pool_of_open: "pool_of l' (open_pool l m) = pool_of l' m"
  by (auto simp: open_pool_def pool_of_def jmap_simps jhas_def split: option.splits)

lemma open_pool_ok:
  assumes "pools_ok m"
  shows "pools_ok (open_pool l m)" "share_ok n m \<Longrightarrow> 0 \<le> n \<Longrightarrow> share_ok n (open_pool l m)"
  using pools_ok_jset[OF assms, of "[]" "m\<lparr>mp_raw := jset (mp_raw m) l []\<rparr>" l] share_ok_jset[of n m "[]" "m\<lparr>mp_raw := jset (mp_raw m) l []\<rparr>" l]
  by (simp_all add: open_pool_def assms)

text \<open>The four ways an admission ends.\<close>

lemma admission_cases:
  obtains (untouched) "mp_raw (snd (addRawTransaction H e now l tx m)) = mp_raw m"
  | (refused) "mp_raw (snd (addRawTransaction H e now l tx m)) = mp_raw (open_pool l m)"
  | (pooled) i m2 where "hashTransaction H tx = Some i"
      "\<not> (peer_max e \<le> int (length (pool_of l m)) \<and> \<not> jhas (pool_of l m) i)"
      "mp_raw m2 = jset (mp_raw (open_pool l m)) l (jset (pool_of l m) i (pool_entry now (pool_of l m) i tx))"
      "snd (addRawTransaction H e now l tx m) = bound_sweep e now i m2"
proof (cases "hashTransaction H tx")
  case None
  then show ?thesis using untouched by (simp add: addRawTransaction_def)
next
  case (Some i)
  let ?m2 = "saveRawTx l i (pool_entry now (pool_of l m) i tx) ((open_pool l m)\<lparr>mp_raw :=
      jset (mp_raw (open_pool l m)) l (jset (pool_of l m) i (pool_entry now (pool_of l m) i tx))\<rparr>)"
  consider "isTombstoned i m \<and> \<not> jhas (pool_of l m) i"
    | "\<not> (isTombstoned i m \<and> \<not> jhas (pool_of l m) i)" "peer_max e \<le> int (length (pool_of l m)) \<and> \<not> jhas (pool_of l m) i"
    | "\<not> (isTombstoned i m \<and> \<not> jhas (pool_of l m) i)" "\<not> (peer_max e \<le> int (length (pool_of l m)) \<and> \<not> jhas (pool_of l m) i)" by blast
  then show ?thesis
  proof cases
    case 1
    then show ?thesis using untouched Some by (simp add: addRawTransaction_def)
  next
    case 2
    then show ?thesis using refused Some by (simp add: addRawTransaction_def Let_def pool_of_open)
  next
    case 3
    have "mp_raw ?m2 = jset (mp_raw (open_pool l m)) l (jset (pool_of l m) i (pool_entry now (pool_of l m) i tx))"
      by (simp add: step_simps)
    moreover have "snd (addRawTransaction H e now l tx m) = bound_sweep e now i ?m2"
      using 3 Some by (simp only: addRawTransaction_def option.case Let_def if_False pool_of_open snd_conv)
    ultimately show ?thesis using pooled Some 3 by blast
  qed
qed

definition within :: "env \<Rightarrow> mempool \<Rightarrow> bool" where
  "within e m \<longleftrightarrow> pools_ok m \<and> share_ok (peer_max e) m"

lemma within_raw: "mp_raw m' = mp_raw m \<Longrightarrow> within e m' = within e m"
  by (simp add: within_def pools_raw(1,2)[of m' m])

lemma within_drop: "within e m \<Longrightarrow> within e (drop_pooled l i m)"
  by (simp add: within_def drop_pooled_ok)

lemma admit_ok:
  assumes "within e m"
  shows "within e (snd (addRawTransaction H e now l tx m))"
proof -
  have m: "pools_ok m" "share_ok (peer_max e) m" "0 \<le> peer_max e" using assms peer_max_pos[of e] by (simp_all add: within_def)
  have o: "within e (open_pool l m)" using open_pool_ok m by (simp add: within_def)
  show ?thesis
  proof (cases rule: admission_cases[of H e now l tx m])
    case untouched
    then show ?thesis using assms within_raw by blast
  next
    case refused
    then show ?thesis using o within_raw by blast
  next
    case (pooled i m2)
    have "jmap_ok (jset (pool_of l m) i (pool_entry now (pool_of l m) i tx))" by (rule jmap_ok_jset[OF pool_of_ok[OF m(1)]])
    moreover have "int (length (jset (pool_of l m) i (pool_entry now (pool_of l m) i tx))) \<le> peer_max e"
      using pooled(2) pool_of_share[OF m(2,3), of l] by (auto simp: jset_length)
    ultimately have "within e m2"
      using o pooled(3) pools_ok_jset[of "open_pool l m" _ m2 l] share_ok_jset[of "peer_max e" "open_pool l m" _ m2 l]
      unfolding within_def by blast
    then show ?thesis unfolding pooled(4) using sweep_keeps[of "within e", OF within_raw within_drop] by blast
  qed
qed

type_synonym admission = "int \<times> string \<times> jsval"

definition admit :: "(string \<Rightarrow> string) \<Rightarrow> env \<Rightarrow> admission \<Rightarrow> mempool \<Rightarrow> mempool" where
  "admit H e a m = (case a of (now, l, tx) \<Rightarrow> snd (addRawTransaction H e now l tx m))"

lemma admitted_ok: "within e (fold (admit H e) as (new_mempool op d))"
proof -
  have "within e m \<Longrightarrow> within e (fold (admit H e) as m)" for m
  proof (induction as arbitrary: m)
    case (Cons a as)
    have "within e (admit H e a m)" using admit_ok[OF Cons.prems] by (cases a) (simp add: admit_def)
    from Cons.IH[OF this] show ?case by simp
  qed simp
  moreover have "within e (new_mempool op d)" by (simp add: new_mempool_def pools_ok_def share_ok_def within_def)
  ultimately show ?thesis by blast
qed

text \<open>C39: Whatever is offered to a fresh pool, by whom and when, no submitter ever holds more than its share.\<close>

theorem peer_share_bounded:
  "list_all (\<lambda>lp. int (length (snd lp)) \<le> peer_max e) (mp_raw (fold (admit H e) as (new_mempool op d)))"
  using admitted_ok[of e H as op d] by (simp add: within_def share_ok_def list_all_iff)

section \<open>What an admission removes\<close>

definition pooled :: "mempool \<Rightarrow> (string \<times> string \<times> int) set" where
  "pooled m = {(l, i, t). \<exists>d. jget (pool_of l m) i = Some d \<and> re_at d = Some t}"

lemma pooled_drop: "pooled (drop_pooled l i m) = {(l', i', t) \<in> pooled m. (l', i') \<noteq> (l, i)}"
  by (auto simp: pooled_def drop_pooled_of jmap_simps split: if_splits)

lemma pooled_raw: "mp_raw m' = mp_raw m \<Longrightarrow> pooled m' = pooled m"
  by (simp add: pooled_def pool_of_def)

lemma evictable_abandoned:
  assumes "pools_ok m" "(l, i) \<in> set (evictable e n now m)" "(l, i, t) \<in> pooled m"
  shows "abandon_ms e < now - t"
proof -
  obtain p d where p: "(l, p) \<in> set (mp_raw m)" "(i, d) \<in> set p" "abandoned e now d"
    using assms(2) by (auto simp: evictable_def dest!: in_set_takeD)
  then have "jget (mp_raw m) l = Some p" "jget p i = Some d" using assms(1) by (fastforce simp: pools_ok_def jget_iff)+
  then show ?thesis using assms(3) p(3) by (auto simp: pooled_def pool_of_def abandoned_def)
qed

lemma pooled_evict: "pooled m - pooled (evict_victims keep vs m) \<subseteq> {(l, i, t). (l, i) \<in> set vs}"
proof (induction vs arbitrary: m)
  case (Cons v vs)
  obtain l i where v: "v = (l, i)" by (cases v)
  let ?m = "if i = keep then m else deleteRawTx l i (drop_pooled l i m)"
  have "pooled ?m = (if i = keep then pooled m else {(l', i', t) \<in> pooled m. (l', i') \<noteq> (l, i)})"
    using pooled_raw[of "deleteRawTx l i (drop_pooled l i m)" "drop_pooled l i m"] by (simp add: step_simps pooled_drop)
  then show ?case using Cons.IH[of ?m] by (auto simp: evict_victims_def v split: if_splits)
qed (simp add: evict_victims_def)

lemma pooled_sweep:
  assumes "pools_ok m"
  shows "pooled m - pooled (bound_sweep e now keep m) \<subseteq> {(l, i, t). abandon_ms e < now - t}"
proof -
  obtain n m1 where r: "rawCount e now m = (n, m1)" by (cases "rawCount e now m")
  obtain n2 m2 where r2: "rawCount e now (m1\<lparr>mp_lastSweep := now\<rparr>) = (n2, m2)" by (cases "rawCount e now (m1\<lparr>mp_lastSweep := now\<rparr>)")
  have raw1: "mp_raw m1 = mp_raw m" using raw_frame(3)[of e now m] r by simp
  have raw2: "mp_raw m2 = mp_raw m" using raw_frame(3)[of e now "m1\<lparr>mp_lastSweep := now\<rparr>"] r2 raw1 by simp
  define vs where "vs = evictable e (n2 - pool_max e) now m2"
  have "pools_ok m2" using assms pools_raw(1)[OF raw2] by simp
  then have old: "pooled m - pooled (evict_victims keep vs m2) \<subseteq> {(l, i, t). abandon_ms e < now - t}"
    using pooled_evict[of m2 keep vs] evictable_abandoned[of m2 _ _ e "n2 - pool_max e" now] pooled_raw[OF raw2] unfolding vs_def by blast
  have same: "pooled ((evict_victims keep vs m2)\<lparr>mp_rawCountAt := 0\<rparr>) = pooled (evict_victims keep vs m2)"
    "pooled (snd (rawCount e now ((evict_victims keep vs m2)\<lparr>mp_rawCountAt := 0\<rparr>))) = pooled (evict_victims keep vs m2)"
    "pooled m1 = pooled m"
    by (rule pooled_raw, simp add: step_simps raw1)+
  have "bound_sweep e now keep m \<in> {m1, (evict_victims keep vs m2)\<lparr>mp_rawCountAt := 0\<rparr>,
      snd (rawCount e now ((evict_victims keep vs m2)\<lparr>mp_rawCountAt := 0\<rparr>))}"
    unfolding bound_sweep_def Let_def r prod.case by (auto simp: r2 vs_def)
  then show ?thesis using same old by auto
qed

text \<open>C38: An admission, in any state admissions lead to, takes out of the pool only transactions first seen longer
  ago than the abandon age; the rest stay under their submitter with the age they had, the one offered
  again included.\<close>

theorem admission_evicts_only_abandoned:
  "let m = fold (admit H e) as (new_mempool op d) in
   pooled m - pooled (admit H e (now, l, tx) m) \<subseteq> {(l, i, t). abandon_ms e < now - t}"
proof -
  define m where "m = fold (admit H e) as (new_mempool op d)"
  have ok: "pools_ok m" using admitted_ok[of e H as op d] by (simp add: m_def within_def)
  have o: "pooled (open_pool l m) = pooled m" by (simp add: pooled_def pool_of_open)
  have "pooled m - pooled (snd (addRawTransaction H e now l tx m)) \<subseteq> {(l, i, t). abandon_ms e < now - t}"
  proof (cases rule: admission_cases[of H e now l tx m])
    case untouched
    then show ?thesis using pooled_raw by blast
  next
    case refused
    then show ?thesis using pooled_raw o by blast
  next
    case (pooled i m2)
    let ?p = "jset (pool_of l m) i (pool_entry now (pool_of l m) i tx)"
    have "jmap_ok ?p" by (rule jmap_ok_jset[OF pool_of_ok[OF ok]])
    then have ok2: "pools_ok m2" using open_pool_ok(1)[OF ok] pooled(3) by (blast intro: pools_ok_jset)
    have "pool_of l' m2 = (if l' = l then ?p else pool_of l' m)" for l'
      using pooled(3) pool_of_open[of l' l m] by (simp add: pool_of_def jmap_simps)
    then have "pooled m \<subseteq> pooled m2" by (auto simp: pooled_def jmap_simps pool_entry_def)
    then show ?thesis unfolding pooled(4) using pooled_sweep[OF ok2, of e now i] by blast
  qed
  then show ?thesis by (simp add: m_def[symmetric] admit_def)
qed

section \<open>What a restart brings back\<close>

definition pairs :: "mempool \<Rightarrow> (string \<times> string) set" where
  "pairs m = {(l, i). jhas (pool_of l m) i}"

lemma pairs_raw: "mp_raw m' = mp_raw m \<Longrightarrow> pairs m' = pairs m"
  by (simp add: pairs_def pool_of_def)

lemma recount_pairs:
  assumes "pools_ok m" "pairs m \<subseteq> S" "finite S"
  shows "recount m \<le> int (card S)"
proof -
  let ?f = "\<lambda>raw. concat (map (\<lambda>(l, p). map (Pair l) (jkeys p)) raw) :: (string \<times> string) list"
  have d: "jmap_ok raw \<Longrightarrow> \<forall>lp \<in> set raw. jmap_ok (snd lp) \<Longrightarrow> distinct (?f raw)" for raw :: "(string, (string, raw_entry) jmap) jmap"
  proof (induction raw)
    case (Cons lp raw)
    obtain l p where lp: "lp = (l, p)" by (cases lp)
    have "l \<notin> fst ` set (?f raw)" using Cons.prems(1) by (force simp: lp jmap_ok_def)
    then have "set (map (Pair l) (jkeys p)) \<inter> set (?f raw) = {}" by force
    moreover have "distinct (map (Pair l) (jkeys p))" using Cons.prems(2) by (auto simp: lp jmap_ok_def distinct_map inj_on_def)
    moreover have "distinct (?f raw)" using Cons by (simp add: jmap_ok_def)
    moreover have "?f (lp # raw) = map (Pair l) (jkeys p) @ ?f raw" by (simp add: lp)
    ultimately show ?case by (simp only: distinct_append)
  qed simp
  have "sum_list (map (\<lambda>(l, p). length p) raw) = length (?f raw)" for raw :: "(string, (string, raw_entry) jmap) jmap"
    by (induction raw) auto
  then have r: "recount m = int (length (?f (mp_raw m)))" by (simp add: recount_def)
  have "set (?f (mp_raw m)) \<subseteq> pairs m"
  proof
    fix x assume "x \<in> set (?f (mp_raw m))"
    then obtain l p i d where x: "x = (l, i)" "(l, p) \<in> set (mp_raw m)" "(i, d) \<in> set p" by auto
    then have "jget (mp_raw m) l = Some p" using assms(1) by (simp add: pools_ok_def jget_iff)
    then show "x \<in> pairs m" using x by (force simp: pairs_def pool_of_def jhas_iff)
  qed
  then have "card (set (?f (mp_raw m))) \<le> card S" using assms(2,3) by (intro card_mono) blast+
  moreover have "length (?f (mp_raw m)) = card (set (?f (mp_raw m)))"
    by (rule distinct_card[symmetric], rule d) (use assms(1) in \<open>simp_all add: pools_ok_def\<close>)
  ultimately show ?thesis using r by (simp only: of_nat_le_iff)
qed

lemma load_raw_fold:
  assumes "pools_ok m"
  shows "pools_ok (fold load_raw kds m) \<and> pairs (fold load_raw kds m) = pairs m \<union> (\<lambda>kd. (part 0 (fst kd), part 1 (fst kd))) ` set kds"
  using assms
proof (induction kds arbitrary: m)
  case (Cons kd kds)
  let ?l = "part 0 (fst kd)" and ?i = "part 1 (fst kd)"
  have raw: "mp_raw (load_raw kd m) = jset (mp_raw m) ?l (jset (pool_of ?l m) ?i (snd kd))" by (simp add: load_raw_def Let_def)
  have "pools_ok (load_raw kd m)"
    by (rule pools_ok_jset[OF Cons.prems jmap_ok_jset[OF pool_of_ok[OF Cons.prems]] raw])
  moreover have "pool_of l (load_raw kd m) = (if l = ?l then jset (pool_of ?l m) ?i (snd kd) else pool_of l m)" for l
    by (simp add: pool_of_def raw jmap_simps)
  then have "pairs (load_raw kd m) = insert (?l, ?i) (pairs m)"
    by (auto simp: pairs_def jhas_jset split: if_splits)
  ultimately show ?case using Cons.IH[of "load_raw kd m"] by simp
qed simp

lemma load_tasks_raw: "mp_raw (fold load_tasks kts m) = mp_raw m"
  by (induction kts arbitrary: m) (simp_all add: load_tasks_def Let_def)

lemma pairs_drop: "pairs (drop_pooled l i m) = pairs m - {(l, i)}"
  by (auto simp: pairs_def drop_pooled_of jhas_jdel split: if_splits)

lemma forget_fold:
  "pools_ok m \<Longrightarrow> pools_ok (fold forget ds m) \<and> pairs (fold forget ds m) = pairs m - (\<lambda>(l, i, t). (l, i)) ` set ds"
proof (induction ds arbitrary: m)
  case (Cons x ds)
  obtain l i t where x: "x = (l, i, t)" by (cases x)
  have raw: "mp_raw (forget x m) = mp_raw (drop_pooled l i m)" by (simp add: forget_def x Let_def)
  have "pools_ok (forget x m)" "pairs (forget x m) = pairs m - {(l, i)}"
    using drop_pooled_ok(1)[OF Cons.prems, of l i] pools_raw(1)[OF raw] pairs_raw[OF raw] by (simp_all add: pairs_drop)
  then show ?case using Cons.IH[of "forget x m"] by (auto simp: x)
qed simp

text \<open>Whatever rows the store holds, the pool a restart brings back is within the cap.\<close>

lemma restore_bounded: "recount (initDb e now d) \<le> pool_max e"
proof (cases d)
  case None
  then show ?thesis by (simp add: initDb_def new_mempool_def recount_def pool_max_def)
next
  case (Some k)
  let ?rs = "restored k" and ?k = "\<lambda>(l, i, t). (l, i) :: string \<times> string"
  have fin: "0 \<le> pool_max e" by (simp add: pool_max_def)
  have le: "card (?k ` set xs) \<le> length xs" for xs by (rule order_trans[OF card_image_le[OF finite_set] card_length])
  obtain m4 where m4: "initDb e now d = prune_restored e now ?rs m4" "mp_raw m4 = mp_raw (fold load_raw (in_order (dk_raw k)) (new_mempool True k))"
    by (simp add: Some initDb_def restoreState_def new_mempool_def Let_def load_tasks_raw)
  have n: "pools_ok (new_mempool True k)" "pairs (new_mempool True k) = {}"
    by (simp_all add: new_mempool_def pools_ok_def pairs_def pool_of_def jhas_def)
  have img: "(\<lambda>kd. (part 0 (fst kd), part 1 (fst kd))) ` set (in_order (dk_raw k)) = ?k ` set ?rs"
    by (force simp: restored_def image_image split_def)
  have L: "pools_ok m4" "pairs m4 = ?k ` set ?rs"
    using load_raw_fold[OF n(1), of "in_order (dk_raw k)"] n(2) pools_raw(1)[OF m4(2)] pairs_raw[OF m4(2)] img by simp_all
  show ?thesis
  proof (cases "pool_max e < int (length ?rs)")
    case True
    define s where "s = sort_key (\<lambda>(l, i, t). - t) ?rs"
    let ?n = "nat (pool_max e)"
    define m5 where "m5 = fold forget (drop ?n s) m4"
    have f: "pools_ok m5" "pairs m5 = ?k ` set ?rs - ?k ` set (drop ?n s)"
      using forget_fold[OF L(1), of "drop ?n s"] L(2) by (simp_all add: m5_def)
    have "initDb e now d = snd (rawCount e now (m5\<lparr>mp_rawCountAt := 0\<rparr>))"
      by (simp only: m4(1) prune_restored_def True if_True Let_def m5_def s_def)
    then have raw: "mp_raw (initDb e now d) = mp_raw m5" by (simp add: step_simps)
    have "set ?rs = set (take ?n s) \<union> set (drop ?n s)" by (metis append_take_drop_id s_def set_append set_sort)
    then have sub: "pairs (initDb e now d) \<subseteq> ?k ` set (take ?n s)" using f(2) pairs_raw[OF raw] by blast
    have "recount (initDb e now d) \<le> int (card (?k ` set (take ?n s)))"
      by (rule recount_pairs[OF iffD2[OF pools_raw(1)[OF raw] f(1)] sub finite_imageI[OF finite_set]])
    also have "\<dots> \<le> int (length (take ?n s))" using le by (simp only: of_nat_le_iff)
    also have "\<dots> \<le> pool_max e" using fin by simp
    finally show ?thesis .
  next
    case False
    then have "initDb e now d = m4" unfolding m4(1) prune_restored_def by simp
    moreover have "recount m4 \<le> int (card (?k ` set ?rs))" by (rule recount_pairs[OF L(1)]) (simp_all add: L(2))
    moreover have "card (?k ` set ?rs) \<le> length ?rs" by (rule le)
    ultimately show ?thesis using False by simp
  qed
qed

section \<open>The sweep of finalized transactions\<close>

lemma sweep_rows:
  "\<forall>x \<in> set (mp_txAt (snd (fold (sweep_row e now) rows nm))). x \<in> set (mp_txAt (snd nm)) \<and> (x \<in> set rows \<longrightarrow> now - snd x \<le> tx_ttl e)"
proof (induction rows arbitrary: nm)
  case (Cons r rows)
  obtain i t n m where rn: "r = (i, t)" "nm = (n, m)" by (cases r; cases nm)
  have "\<forall>x \<in> set (mp_txAt (snd (sweep_row e now r nm))). x \<in> set (mp_txAt m) \<and> (x = r \<longrightarrow> now - t \<le> tx_ttl e)"
    by (auto simp: rn sweep_row_def jdel_set step_simps)
  then show ?case using Cons.IH[of "sweep_row e now r nm"] by (auto simp: rn)
qed simp

lemma sweep_leaves_fresh:
  "(\<forall>x \<in> set (mp_txAt (snd (sweepFinalizedTx e now m))). now - snd x \<le> tx_ttl e) \<and>
   set (jkeys (mp_tx (snd (sweepFinalizedTx e now m)))) \<subseteq> set (jkeys (mp_txAt (snd (sweepFinalizedTx e now m))))"
proof -
  obtain n m1 where f: "fold (sweep_row e now) (mp_txAt m) (0, m) = (n, m1)" by fastforce
  have old: "\<forall>x \<in> set (mp_txAt m1). now - snd x \<le> tx_ttl e" using sweep_rows[of e now "mp_txAt m" "(0, m)"] by (simp add: f)
  have add: "(\<forall>x \<in> set a. now - snd x \<le> tx_ttl e) \<Longrightarrow>
      (\<forall>x \<in> set (fold (\<lambda>i a. if jhas a i then a else jset a i now) ks a). now - snd x \<le> tx_ttl e) \<and>
      set ks \<union> set (jkeys a) \<subseteq> set (jkeys (fold (\<lambda>i a. if jhas a i then a else jset a i now) ks a))" for ks :: "string list" and a
  proof (induction ks arbitrary: a)
    case (Cons k ks)
    let ?a = "if jhas a k then a else jset a k now"
    have "\<forall>x \<in> set ?a. now - snd x \<le> tx_ttl e" using Cons.prems by (auto simp: jset_new tx_ttl_def)
    moreover have "set (k # ks) \<union> set (jkeys a) \<subseteq> set ks \<union> set (jkeys ?a)" by (auto simp: jset_new jhas_iff)
    ultimately show ?case using Cons.IH[of ?a] by (simp only: fold_Cons comp_def) blast
  qed simp
  show ?thesis using add[OF old, of "jkeys (mp_tx m1)"] by (simp add: sweepFinalizedTx_def f)
qed

end
