(* ===== verification/ValidationTasks.thy ===== *)
theory ValidationTasks
  imports Mempool
begin

text \<open>
  \<open>validation-tasks.js\<close>: the validation tasks of each leader, indexed by transaction, written through to
  the mempool's store. Shown: the two indexes agree after every operation, assigning twice is assigning
  once, and clearing a transaction leaves no leader a task for it.

  The code's two indexes share task objects; here the index by transaction holds the ids, and a task's
  flag lives with its leader.
\<close>

section \<open>Definitions\<close>

record task_manager =
  tm_tasks :: "(string, (string, task) jmap) jmap"
  tm_byTx :: "(string, (string, string list) jmap) jmap"

definition new_tasks :: task_manager where
  "new_tasks = \<lparr>tm_tasks = [], tm_byTx = []\<rparr>"

definition rawTxIdOf :: "string \<Rightarrow> string" where
  "rawTxIdOf taskId = takeWhile (\<lambda>c. c \<noteq> CHR '':'') taskId"

definition tasks_of :: "string \<Rightarrow> task_manager \<Rightarrow> (string, task) jmap" where
  "tasks_of leader tm = (case jget (tm_tasks tm) leader of Some ts \<Rightarrow> ts | None \<Rightarrow> [])"

definition ids_of :: "string \<Rightarrow> string \<Rightarrow> task_manager \<Rightarrow> string list" where
  "ids_of i leader tm = (case jget (tm_byTx tm) i of None \<Rightarrow> []
     | Some by \<Rightarrow> (case jget by leader of Some ids \<Rightarrow> ids | None \<Rightarrow> []))"

definition index_task :: "string \<Rightarrow> task \<Rightarrow> task_manager \<Rightarrow> bool \<times> task_manager" where
  "index_task leader t tm =
     (let tm1 = (if jhas (tm_tasks tm) leader then tm else tm\<lparr>tm_tasks := jset (tm_tasks tm) leader []\<rparr>);
          own = tasks_of leader tm1; i = rawTxIdOf (tk_task t) in
      if jhas own (tk_task t) then (False, tm1)
      else (True, tm1\<lparr>tm_tasks := jset (tm_tasks tm1) leader (jset own (tk_task t) t),
          tm_byTx := jset (tm_byTx tm1) i
            (jset (case jget (tm_byTx tm1) i of Some by \<Rightarrow> by | None \<Rightarrow> []) leader (ids_of i leader tm1 @ [tk_task t]))\<rparr>))"

definition tasksOf :: "string \<Rightarrow> string \<Rightarrow> task_manager \<Rightarrow> task list" where
  "tasksOf leader i tm = map the (filter (\<lambda>t. t \<noteq> None) (map (jget (tasks_of leader tm)) (ids_of i leader tm)))"

definition persist :: "string \<Rightarrow> string \<Rightarrow> task_manager \<Rightarrow> mempool \<Rightarrow> mempool" where
  "persist leader i tm m = setValidationTasksFor leader i (tasksOf leader i tm) None m"

definition createTasks :: "string \<Rightarrow> string list \<Rightarrow> task list" where
  "createTasks i leaders = map (\<lambda>l. \<lparr>tk_task = i @ '':'' @ l @ '':validate'', tk_complete = False, tk_leader = l\<rparr>) leaders"

definition assignTasks :: "string \<Rightarrow> task list \<Rightarrow> task_manager \<times> mempool \<Rightarrow> task_manager \<times> mempool" where
  "assignTasks i ts s =
     (let tm = fold (\<lambda>t tm. snd (index_task (tk_leader t) t tm)) ts (fst s);
          touched = rev (remdups (rev (map tk_leader ts))) in
      (tm, fold (\<lambda>l m. persist l i tm m) touched (snd s)))"

definition completeTask :: "string \<Rightarrow> string \<Rightarrow> task_manager \<times> mempool \<Rightarrow> task_manager \<times> mempool" where
  "completeTask leader taskId s =
     (case jget (tasks_of leader (fst s)) taskId of
        Some t \<Rightarrow>
          if tk_complete t then s
          else (let tm = (fst s)\<lparr>tm_tasks := jset (tm_tasks (fst s)) leader (jset (tasks_of leader (fst s)) taskId (t\<lparr>tk_complete := True\<rparr>))\<rparr> in
            (tm, persist leader (rawTxIdOf taskId) tm (snd s)))
      | None \<Rightarrow> s)"

definition getTasksForLeader :: "string \<Rightarrow> task_manager \<Rightarrow> task list" where
  "getTasksForLeader leader tm = jvalues (tasks_of leader tm)"

definition getTask :: "string \<Rightarrow> string \<Rightarrow> task_manager \<Rightarrow> task option" where
  "getTask leader taskId tm = jget (tasks_of leader tm) taskId"

definition leadersHolding :: "string \<Rightarrow> task_manager \<Rightarrow> string list" where
  "leadersHolding i tm = (case jget (tm_byTx tm) i of Some by \<Rightarrow> jkeys by | None \<Rightarrow> [])"

definition getKnownLeaderIds :: "task_manager \<Rightarrow> string list" where
  "getKnownLeaderIds tm = jkeys (tm_tasks tm)"

definition tasks_size :: "task_manager \<Rightarrow> nat \<times> nat" where
  "tasks_size tm = (sum_list (map length (jvalues (tm_tasks tm))), length (tm_byTx tm))"

definition clear_leader :: "string \<Rightarrow> string \<times> string list \<Rightarrow> task_manager \<times> mempool \<Rightarrow> task_manager \<times> mempool" where
  "clear_leader i lids s = (case (lids, s) of ((leader, ids), (tm, m)) \<Rightarrow>
     (let m1 = clearValidationTasksFor leader i m in
      (case jget (tm_tasks tm) leader of
         None \<Rightarrow> (tm, m1)
       | Some own \<Rightarrow>
           (let own' = filter (\<lambda>(k, t). k \<notin> set ids) own in
            if own' = [] then (tm\<lparr>tm_tasks := jdel (tm_tasks tm) leader\<rparr>, clearValidationTasks leader m1)
            else (tm\<lparr>tm_tasks := jset (tm_tasks tm) leader own'\<rparr>, m1)))))"

definition clearTasksForRawTx :: "string \<Rightarrow> task_manager \<times> mempool \<Rightarrow> task_manager \<times> mempool" where
  "clearTasksForRawTx i s =
     (case jget (tm_byTx (fst s)) i of
        None \<Rightarrow> s
      | Some by \<Rightarrow> fold (clear_leader i) by ((fst s)\<lparr>tm_byTx := jdel (tm_byTx (fst s)) i\<rparr>, snd s))"

text \<open>The boot: the persisted tasks of the transactions still wanted; the rest leave the store.\<close>

definition hydrate_leader :: "(string \<Rightarrow> bool) \<Rightarrow> string \<times> task list \<Rightarrow> nat \<times> (string \<times> string) list \<times> task_manager \<Rightarrow> nat \<times> (string \<times> string) list \<times> task_manager" where
  "hydrate_leader keep lts s = (case lts of (leader, ts) \<Rightarrow>
     fold (\<lambda>t (n, dropped, tm).
       if \<not> keep (rawTxIdOf (tk_task t)) then (n, List.insert (leader, rawTxIdOf (tk_task t)) dropped, tm)
       else (let (b, tm') = index_task leader t tm in (if b then n + 1 else n, dropped, tm'))) ts s)"

definition hydrate :: "(string \<Rightarrow> bool) \<Rightarrow> task_manager \<times> mempool \<Rightarrow> nat \<times> task_manager \<times> mempool" where
  "hydrate keep s =
     (let (n, dropped, tm) = fold (hydrate_leader keep) (mp_tasks (snd s)) (0, [], fst s);
          m = fold (\<lambda>(l, i) m. clearValidationTasksFor l i m) dropped (snd s) in
      (n, tm, m\<lparr>mp_tasks := []\<rparr>))"

section \<open>The indexes agree\<close>

definition tasks_ok :: "task_manager \<Rightarrow> bool" where
  "tasks_ok tm \<longleftrightarrow> (\<forall>l k t. jget (tasks_of l tm) k = Some t \<longrightarrow> k \<in> set (ids_of (rawTxIdOf k) l tm)) \<and>
     (\<forall>i l k. k \<in> set (ids_of i l tm) \<longrightarrow> rawTxIdOf k = i \<and> jhas (tasks_of l tm) k)"

lemma tasks_ok_new: "tasks_ok new_tasks"
  by (simp add: tasks_ok_def new_tasks_def tasks_of_def ids_of_def)

lemma index_fields:
  "tasks_of l (snd (index_task leader t tm)) =
     (if l = leader \<and> \<not> jhas (tasks_of leader tm) (tk_task t) then jset (tasks_of leader tm) (tk_task t) t else tasks_of l tm)"
  "ids_of i l (snd (index_task leader t tm)) =
     (if l = leader \<and> i = rawTxIdOf (tk_task t) \<and> \<not> jhas (tasks_of leader tm) (tk_task t)
      then ids_of i l tm @ [tk_task t] else ids_of i l tm)"
proof -
  let ?tm1 = "if jhas (tm_tasks tm) leader then tm else tm\<lparr>tm_tasks := jset (tm_tasks tm) leader []\<rparr>"
  have f: "tasks_of l ?tm1 = tasks_of l tm" for l by (auto simp: tasks_of_def jhas_def jmap_simps split: option.splits)
  have g: "ids_of i l ?tm1 = ids_of i l tm" for i l by (simp add: ids_of_def)
  have "index_task leader t tm = (if jhas (tasks_of leader tm) (tk_task t) then (False, ?tm1)
      else (True, ?tm1\<lparr>tm_tasks := jset (tm_tasks ?tm1) leader (jset (tasks_of leader tm) (tk_task t) t),
          tm_byTx := jset (tm_byTx ?tm1) (rawTxIdOf (tk_task t))
            (jset (case jget (tm_byTx ?tm1) (rawTxIdOf (tk_task t)) of Some by \<Rightarrow> by | None \<Rightarrow> []) leader (ids_of (rawTxIdOf (tk_task t)) leader tm @ [tk_task t]))\<rparr>))"
    unfolding index_task_def Let_def f g ..
  note e = this
  show "tasks_of l (snd (index_task leader t tm)) =
      (if l = leader \<and> \<not> jhas (tasks_of leader tm) (tk_task t) then jset (tasks_of leader tm) (tk_task t) t else tasks_of l tm)"
    unfolding e using f[of l] by (simp add: tasks_of_def jmap_simps)
  show "ids_of i l (snd (index_task leader t tm)) =
      (if l = leader \<and> i = rawTxIdOf (tk_task t) \<and> \<not> jhas (tasks_of leader tm) (tk_task t)
       then ids_of i l tm @ [tk_task t] else ids_of i l tm)"
    unfolding e using g[of i l] by (auto simp: ids_of_def jmap_simps split: option.splits)
qed

lemma tasks_ok_index: "tasks_ok tm \<Longrightarrow> tasks_ok (snd (index_task leader t tm))"
  unfolding tasks_ok_def index_fields by (auto simp: jmap_simps jhas_jset split: if_splits) metis

lemma tasks_ok_assign: "tasks_ok (fst s) \<Longrightarrow> tasks_ok (fst (assignTasks i ts s))"
proof -
  have "tasks_ok tm \<Longrightarrow> tasks_ok (fold (\<lambda>t tm. snd (index_task (tk_leader t) t tm)) ts tm)" for tm
    by (induction ts arbitrary: tm) (simp_all add: tasks_ok_index)
  then show "tasks_ok (fst s) \<Longrightarrow> tasks_ok (fst (assignTasks i ts s))" by (simp add: assignTasks_def Let_def)
qed

text \<open>Assigning again what is assigned changes no task.\<close>

lemma assign_again:
  assumes "\<forall>t \<in> set ts. jhas (tasks_of (tk_leader t) (fst s)) (tk_task t)"
  shows "tasks_of l (fst (assignTasks i ts s)) = tasks_of l (fst s)"
proof -
  have "\<forall>t \<in> set ts. jhas (tasks_of (tk_leader t) tm) (tk_task t) \<Longrightarrow>
      tasks_of l (fold (\<lambda>t tm. snd (index_task (tk_leader t) t tm)) ts tm) = tasks_of l tm" for tm
    by (induction ts arbitrary: tm) (simp_all add: index_fields)
  then show ?thesis using assms by (simp add: assignTasks_def Let_def)
qed

lemma clear_leader_tasks:
  assumes "jmap_ok (tm_tasks tm)"
  shows "tasks_of l (fst (clear_leader i (leader, ids) (tm, m))) =
     (if l = leader then filter (\<lambda>(k, t). k \<notin> set ids) (tasks_of l tm) else tasks_of l tm)"
    "tm_byTx (fst (clear_leader i (leader, ids) (tm, m))) = tm_byTx tm"
    "jmap_ok (tm_tasks (fst (clear_leader i (leader, ids) (tm, m))))"
  using assms by (auto simp: clear_leader_def Let_def tasks_of_def jmap_simps intro: wf_intros split: option.splits)

lemma clear_fold_tasks:
  "jmap_ok by \<Longrightarrow> jmap_ok (tm_tasks tm) \<Longrightarrow>
   tasks_of l (fst (fold (clear_leader i) by (tm, m))) =
     filter (\<lambda>(k, t). k \<notin> set (case jget by l of Some ids \<Rightarrow> ids | None \<Rightarrow> [])) (tasks_of l tm) \<and>
   tm_byTx (fst (fold (clear_leader i) by (tm, m))) = tm_byTx tm"
proof (induction "by" arbitrary: tm m)
  case (Cons x xs)
  obtain leader ids where x: "x = (leader, ids)" by (cases x)
  obtain tm1 m1 where c: "clear_leader i (leader, ids) (tm, m) = (tm1, m1)" by fastforce
  note C = clear_leader_tasks[OF Cons.prems(2), where i = i and leader = leader and ids = ids and m = m, unfolded c fst_conv]
  have "jmap_ok xs" "jget xs leader = None" using Cons.prems(1) by (auto simp: x jmap_ok_def map_of_eq_None_iff)
  then show ?case using Cons.IH[OF _ C(3), of m1] C(1)[of l] C(2) by (simp add: x c)
qed simp

definition maps_ok :: "task_manager \<Rightarrow> bool" where
  "maps_ok tm \<longleftrightarrow> jmap_ok (tm_tasks tm) \<and> jmap_ok (tm_byTx tm) \<and> (\<forall>x \<in> set (tm_byTx tm). jmap_ok (snd x)) \<and> (\<forall>x \<in> set (tm_tasks tm). jmap_ok (snd x))"

text \<open>Clearing a transaction takes its tasks from every leader and no other task from any.\<close>

lemma clear_tasks:
  assumes "tasks_ok tm" "maps_ok tm"
  shows "tasks_of l (fst (clearTasksForRawTx i (tm, m))) = filter (\<lambda>(k, t). rawTxIdOf k \<noteq> i) (tasks_of l tm) \<and>
    leadersHolding i (fst (clearTasksForRawTx i (tm, m))) = []"
proof -
  have ids: "(k, t) \<in> set (tasks_of l tm) \<Longrightarrow> k \<in> set (ids_of i l tm) \<longleftrightarrow> rawTxIdOf k = i" for k t
  proof -
    assume kt: "(k, t) \<in> set (tasks_of l tm)"
    have "jmap_ok (tasks_of l tm)" using assms(2) by (auto simp: maps_ok_def tasks_of_def split: option.splits dest!: jget_in)
    then have "jget (tasks_of l tm) k = Some t" using kt by (simp add: jget_iff)
    then show ?thesis using assms(1) by (auto simp: tasks_ok_def)
  qed
  show ?thesis
  proof (cases "jget (tm_byTx tm) i")
    case None
    then have "ids_of i l tm = []" by (simp add: ids_of_def)
    then have "filter (\<lambda>(k, t). rawTxIdOf k \<noteq> i) (tasks_of l tm) = tasks_of l tm" using ids by (auto intro!: filter_True)
    then show ?thesis using None by (simp add: clearTasksForRawTx_def leadersHolding_def)
  next
    case (Some "by")
    have ok: "jmap_ok by" "jmap_ok (tm_tasks (tm\<lparr>tm_byTx := jdel (tm_byTx tm) i\<rparr>))"
      using assms(2) jget_in[OF Some] by (fastforce simp: maps_ok_def)+
    have "filter (\<lambda>(k, t). k \<notin> set (ids_of i l tm)) (tasks_of l tm) = filter (\<lambda>(k, t). rawTxIdOf k \<noteq> i) (tasks_of l tm)"
      by (rule filter_cong[OF refl]) (use ids in auto)
    then show ?thesis using clear_fold_tasks[OF ok, of l i m] Some
      by (simp add: clearTasksForRawTx_def leadersHolding_def ids_of_def tasks_of_def jmap_simps)
  qed
qed

end
