(* ===== verification/ConsensusDoor.thy ===== *)
theory ConsensusDoor
  imports TransactionValidator Placement
begin

text \<open>
  The door of consensus: the staged validation of \<open>validate.js\<close>, the signer keys of \<open>signer-keys.js\<close> and
  the retry policy of \<open>validation-retry.js\<close>. Shown: a refusal names the first stage that fails, and
  what passes has passed every earlier one; a key is held only for the address it derives to, in a
  bounded map; the retry policy re-gossips a transaction at most the allowed number of times while it
  is stuck, and only reports that were stored.
\<close>

section \<open>The stages\<close>

datatype stage = CanHappen | XidStage | PlacementStage

definition STAGES :: "stage list" where
  "STAGES = [CanHappen, XidStage, PlacementStage]"

fun stage_index :: "stage \<Rightarrow> nat" where
  "stage_index CanHappen = 0"
| "stage_index XidStage = 1"
| "stage_index PlacementStage = 2"

lemma stage_index_inj: "stage_index s = stage_index s' \<Longrightarrow> s = s'"
  by (cases s; cases s') auto

text \<open>The order of validation.\<close>

instantiation stage :: linorder
begin

definition less_eq_stage :: "stage \<Rightarrow> stage \<Rightarrow> bool" where
  "s \<le> s' \<longleftrightarrow> stage_index s \<le> stage_index s'"

definition less_stage :: "stage \<Rightarrow> stage \<Rightarrow> bool" where
  "s < s' \<longleftrightarrow> stage_index s < stage_index s'"

instance
  by standard (auto simp: less_eq_stage_def less_stage_def dest: stage_index_inj)

end

lemma STAGES_sorted: "sorted STAGES"
  by (simp add: STAGES_def less_eq_stage_def)

section \<open>Number(v)\<close>

text \<open>
  A decimal literal as sign, digits and power of ten. A number is finite when it rounds below two to
  the 1024, and is not negative when it rounds to minus zero.
\<close>

record decimal =
  negative :: bool
  digits :: nat
  power :: int

definition dec_less :: "nat \<Rightarrow> int \<Rightarrow> nat \<Rightarrow> nat \<Rightarrow> bool" where
  "dec_less m e num den \<longleftrightarrow> (if 0 \<le> e then m * 10 ^ nat e * den < num else m * den < num * 10 ^ nat (- e))"

definition dec_finite :: "decimal \<Rightarrow> bool" where
  "dec_finite d \<longleftrightarrow> dec_less (digits d) (power d) (2 ^ 1024 - 2 ^ 970) 1"

definition dec_below_zero :: "decimal \<Rightarrow> bool" where
  "dec_below_zero d \<longleftrightarrow> negative d \<and> \<not> dec_less (digits d) (power d) 1 (2 ^ 1075) \<and>
     digits d * 2 ^ 1075 * 10 ^ nat (power d) \<noteq> 10 ^ nat (- power d)"

definition js_space :: "char \<Rightarrow> bool" where
  "js_space c \<longleftrightarrow> (of_char c :: nat) \<in> {9, 10, 11, 12, 13, 32, 160}"

definition js_trim :: "string \<Rightarrow> string" where
  "js_trim s = rev (dropWhile js_space (rev (dropWhile js_space s)))"

definition exponent_of :: "string \<Rightarrow> int option" where
  "exponent_of s = (case s of
      [] \<Rightarrow> Some 0
    | c # r \<Rightarrow>
        if c \<noteq> CHR ''e'' \<and> c \<noteq> CHR ''E'' then None
        else (let ds = (if r \<noteq> [] \<and> hd r \<in> {CHR ''+'', CHR ''-''} then tl r else r) in
          if ds = [] \<or> \<not> all_digits ds then None
          else Some (if r \<noteq> [] \<and> hd r = CHR ''-'' then - int (read_nat ds) else int (read_nat ds))))"

definition decimal_of :: "string \<Rightarrow> decimal option" where
  "decimal_of s =
     (let neg = (s \<noteq> [] \<and> hd s = CHR ''-''); u = (if s \<noteq> [] \<and> hd s \<in> {CHR ''+'', CHR ''-''} then tl s else s);
          i = takeWhile is_digit u; r = dropWhile is_digit u;
          f = (if r \<noteq> [] \<and> hd r = CHR ''.'' then takeWhile is_digit (tl r) else []);
          x = (if r \<noteq> [] \<and> hd r = CHR ''.'' then dropWhile is_digit (tl r) else r) in
      if i = [] \<and> f = [] then None
      else (case exponent_of x of None \<Rightarrow> None
        | Some e \<Rightarrow> Some \<lparr>negative = neg, digits = read_nat (i @ f), power = e - int (length f)\<rparr>))"

definition radix_of :: "string \<Rightarrow> nat option" where
  "radix_of s =
     (if length s < 3 \<or> hd s \<noteq> CHR ''0'' then None
      else if s ! 1 \<in> {CHR ''x'', CHR ''X''} \<and> (\<forall>c \<in> set (drop 2 s). is_hex c \<or> c \<in> set ''ABCDEF'') then Some 16
      else if s ! 1 \<in> {CHR ''o'', CHR ''O''} \<and> (\<forall>c \<in> set (drop 2 s). c \<in> set ''01234567'') then Some 8
      else if s ! 1 \<in> {CHR ''b'', CHR ''B''} \<and> (\<forall>c \<in> set (drop 2 s). c \<in> set ''01'') then Some 2
      else None)"

definition radix_digit :: "char \<Rightarrow> nat" where
  "radix_digit c = (if c \<in> set ''ABCDEF'' then of_char c - 55 else hex_val c)"

text \<open>\<open>Number.isFinite(n) && n >= 0\<close> for the number a text denotes.\<close>

definition text_can_be_amount :: "string \<Rightarrow> bool" where
  "text_can_be_amount s =
     (let t = js_trim s in
      if t = [] then True
      else (case radix_of t of
          Some b \<Rightarrow> foldl (\<lambda>n c. n * b + radix_digit c) 0 (drop 2 t) < 2 ^ 1024 - 2 ^ 970
        | None \<Rightarrow> (case decimal_of t of
            Some d \<Rightarrow> dec_finite d \<and> \<not> dec_below_zero d
          | None \<Rightarrow> False)))"

definition can_be_amount :: "jsval \<Rightarrow> bool" where
  "can_be_amount v = (case v of
      JNull \<Rightarrow> True
    | JBool b \<Rightarrow> True
    | JInt n \<Rightarrow> 0 \<le> n
    | JBig n \<Rightarrow> 0 \<le> n \<and> n < 2 ^ 1024 - 2 ^ 970
    | JFrac f \<Rightarrow> \<not> (f \<noteq> [] \<and> hd f = CHR ''-'')
    | JStr s \<Rightarrow> text_can_be_amount s
    | JArr xs \<Rightarrow> text_can_be_amount (js_string v)
    | _ \<Rightarrow> False)"

section \<open>Validation in order\<close>

datatype door_reason =
    NotATransaction | BadShape tx_error | Unsigned | NoPayer | BadAmount | BadXidAtDoor tx_error | BadPlacementAtDoor refusal

type_synonym verdict = "(stage \<times> door_reason) + stage"

definition hasSender :: "jsval \<Rightarrow> bool" where
  "hasSender tx = (case getp tx ''from'' of JStr s \<Rightarrow> s \<noteq> [] | JArr xs \<Rightarrow> xs \<noteq> [] | _ \<Rightarrow> False)"

definition has_text :: "jsval \<Rightarrow> string \<Rightarrow> bool" where
  "has_text tx k = (case getp tx k of JStr s \<Rightarrow> s \<noteq> [] | _ \<Rightarrow> False)"

definition validateCanHappen :: "(string \<Rightarrow> string) \<Rightarrow> jsval \<Rightarrow> miner \<Rightarrow> verdict \<times> miner" where
  "validateCanHappen H tx m =
     (if \<not> is_object tx then (Inl (CanHappen, NotATransaction), m)
      else (case validateShape H tx m of
          (Inl e, m') \<Rightarrow> (Inl (CanHappen, BadShape e), m')
        | (Inr ok, m') \<Rightarrow>
            (if authorityOf (getp tx ''type'') \<noteq> ''content-addressed'' \<and> \<not> (has_text tx ''sig'' \<and> hasSender tx) then Inl (CanHappen, Unsigned)
             else if getp tx ''type'' = JStr ''tx'' \<and> \<not> hasSender tx then Inl (CanHappen, NoPayer)
             else if getp tx ''type'' \<in> {JStr ''utxo'', JStr ''tx''} \<and> getp tx ''amount'' \<noteq> JUndef \<and> \<not> can_be_amount (getp tx ''amount'')
             then Inl (CanHappen, BadAmount)
             else Inr CanHappen, m')))"

definition validateXidStage :: "(string \<Rightarrow> string) \<Rightarrow> jsval \<Rightarrow> verdict" where
  "validateXidStage H tx = (case validateXid H tx of Inl e \<Rightarrow> Inl (XidStage, BadXidAtDoor e) | Inr ok \<Rightarrow> Inr XidStage)"

definition validatePlacementStage :: "(string \<Rightarrow> string) \<Rightarrow> jsval \<Rightarrow> (stage \<times> door_reason) + (string \<times> nat option \<times> nat list) list" where
  "validatePlacementStage H p = (case verifyPlacement H p of Inl r \<Rightarrow> Inl (PlacementStage, BadPlacementAtDoor r) | Inr fs \<Rightarrow> Inr fs)"

definition validateForConsensus :: "(string \<Rightarrow> string) \<Rightarrow> jsval \<Rightarrow> miner \<Rightarrow> verdict \<times> miner" where
  "validateForConsensus H tx m = (case validateCanHappen H tx m of
     (Inl r, m') \<Rightarrow> (Inl r, m')
   | (Inr s, m') \<Rightarrow> (case validateXidStage H tx of Inl r \<Rightarrow> (Inl r, m') | Inr s \<Rightarrow> (Inr XidStage, m')))"

section \<open>Signer keys\<close>

record signer_keys =
  sk_max :: nat
  sk_keys :: "(string, string) jmap"
  sk_refused :: nat

definition new_signer_keys :: "nat \<Rightarrow> signer_keys" where
  "new_signer_keys mx = \<lparr>sk_max = mx, sk_keys = [], sk_refused = 0\<rparr>"

text \<open>\<open>derive\<close> is \<open>None\<close> where the code's function throws or finds no address.\<close>

definition learn :: "(string \<Rightarrow> string option) \<Rightarrow> jsval \<Rightarrow> jsval \<Rightarrow> signer_keys \<Rightarrow> bool \<times> signer_keys" where
  "learn derive address publicKey s = (case (address, publicKey) of
      (JStr a, JStr k) \<Rightarrow>
        if a = [] \<or> k = [] then (False, s)
        else if jget (sk_keys s) a = Some k then (True, s)
        else if derive k \<noteq> Some a then (False, s\<lparr>sk_refused := sk_refused s + 1\<rparr>)
        else (let ks = jset (jdel (sk_keys s) a) a k in
          (True, s\<lparr>sk_keys := (if sk_max s < length ks then tl ks else ks)\<rparr>))
    | _ \<Rightarrow> (False, s))"

definition signer_key :: "string \<Rightarrow> signer_keys \<Rightarrow> string option" where
  "signer_key a s = jget (sk_keys s) a"

section \<open>The retry policy\<close>

record stuck_tx =
  st_rawTxId :: string
  st_submitter :: string
  st_txData :: jsval
  st_leaders :: "string list option"

record retry_state =
  rt_retries :: "(string, nat) jmap"
  rt_reports :: "(string, jsval) jmap"

datatype regossip = RawTx string jsval "string list option" | Report jsval

record retry_counts =
  rc_raw :: nat
  rc_report :: nat
  rc_gaveUp :: nat

definition prune_retries :: "string list \<Rightarrow> (string \<Rightarrow> bool) \<Rightarrow> retry_state \<Rightarrow> retry_state" where
  "prune_retries stuckIds isProcessed r =
     (let gone = filter (\<lambda>i. i \<notin> set stuckIds) (jkeys (rt_retries r));
          reports = filter (\<lambda>(i, p). i \<notin> set gone) (rt_reports r) in
      \<lparr>rt_retries = filter (\<lambda>(i, n). i \<notin> set gone) (rt_retries r),
       rt_reports = filter (\<lambda>(i, p). \<not> isProcessed i) reports\<rparr>)"

definition retry_one :: "nat \<Rightarrow> stuck_tx \<Rightarrow> retry_state \<times> regossip list \<times> retry_counts \<Rightarrow> retry_state \<times> regossip list \<times> retry_counts" where
  "retry_one maxRetries s rgc = (case rgc of (r, out, c) \<Rightarrow>
     (let n = (case jget (rt_retries r) (st_rawTxId s) of Some k \<Rightarrow> k | None \<Rightarrow> 0) in
      if maxRetries \<le> n then (r, out, c\<lparr>rc_gaveUp := rc_gaveUp c + 1\<rparr>)
      else (let r' = r\<lparr>rt_retries := jset (rt_retries r) (st_rawTxId s) (n + 1)\<rparr>;
                raw = (if truthy (st_txData s) then [RawTx (st_submitter s) (st_txData s) (st_leaders s)] else []);
                rep = (case jget (rt_reports r) (st_rawTxId s) of Some p \<Rightarrow> [Report p] | None \<Rightarrow> []) in
        (r', out @ raw @ rep, c\<lparr>rc_raw := rc_raw c + length raw, rc_report := rc_report c + length rep\<rparr>))))"

definition runValidationRetryTick ::
  "stuck_tx list \<Rightarrow> (string \<Rightarrow> bool) \<Rightarrow> nat \<Rightarrow> retry_state \<Rightarrow> retry_state \<times> regossip list \<times> retry_counts" where
  "runValidationRetryTick stuck isProcessed maxRetries r =
     fold (retry_one maxRetries) stuck
       (prune_retries (map st_rawTxId stuck) isProcessed r, [], \<lparr>rc_raw = 0, rc_report = 0, rc_gaveUp = 0\<rparr>)"

section \<open>The first failing stage\<close>

definition stage_passes :: "(string \<Rightarrow> string) \<Rightarrow> jsval \<Rightarrow> miner \<Rightarrow> stage \<Rightarrow> bool" where
  "stage_passes H tx m s \<longleftrightarrow> (case s of
      CanHappen \<Rightarrow> (case fst (validateCanHappen H tx m) of Inr r \<Rightarrow> True | Inl e \<Rightarrow> False)
    | XidStage \<Rightarrow> validateXid H tx = Inr True
    | PlacementStage \<Rightarrow> True)"

text \<open>The answer of the door: a refusal names the first stage in the order that fails, and an acceptance means
  both have passed, so the transaction is authorized: signed by a sender, or its type is one whose
  authority is the xid; and the xid verifies.\<close>

lemma door_names_first_failing_stage:
  "case fst (validateForConsensus H tx m) of
     Inl (s, r) \<Rightarrow> \<not> stage_passes H tx m s \<and> list_all (stage_passes H tx m) (filter (\<lambda>s'. s' < s) STAGES)
   | Inr s \<Rightarrow> list_all (stage_passes H tx m) STAGES \<and> validateXid H tx = Inr True \<and>
       (authorityOf (getp tx ''type'') = ''content-addressed'' \<or> has_text tx ''sig'' \<and> hasSender tx)"
proof -
  have v: "validateXid H tx = Inr ok \<Longrightarrow> ok" for ok
    by (auto simp: validateXid_def split: if_splits jsval.splits option.splits bool.splits)
  obtain a m' where a: "validateCanHappen H tx m = (a, m')" by fastforce
  show ?thesis
  proof (cases a)
    case (Inl e)
    moreover have "fst e = CanHappen" using a Inl by (auto simp: validateCanHappen_def split: if_splits sum.splits prod.splits)
    ultimately show ?thesis using a
      by (auto simp: validateForConsensus_def stage_passes_def STAGES_def less_stage_def split: prod.splits)
  next
    case (Inr s)
    have auth: "authorityOf (getp tx ''type'') = ''content-addressed'' \<or> has_text tx ''sig'' \<and> hasSender tx"
      using a Inr by (auto simp: validateCanHappen_def split: if_splits sum.splits prod.splits)
    show ?thesis
    proof (cases "validateXid H tx")
      case (Inl e)
      then show ?thesis using a Inr
        by (simp add: validateForConsensus_def validateXidStage_def stage_passes_def STAGES_def less_stage_def)
    next
      case (Inr ok)
      then show ?thesis using a \<open>a = Inr s\<close> auth v[OF Inr]
        by (simp add: validateForConsensus_def validateXidStage_def stage_passes_def STAGES_def)
    qed
  qed
qed

section \<open>Keys\<close>

text \<open>C40: Whatever keys are offered for whatever addresses, the map holds a key only for the address it derives
  to, each address once, and never more than its bound.\<close>

theorem signer_keys_derive:
  "let s = fold (\<lambda>(a, k) s. snd (learn derive a k s)) offers (new_signer_keys mx) in
   list_all (\<lambda>(a, k). derive k = Some a) (sk_keys s) \<and> jmap_ok (sk_keys s) \<and> length (sk_keys s) \<le> mx"
proof -
  define ok where "ok s \<longleftrightarrow> list_all (\<lambda>(a, k). derive k = Some a) (sk_keys s) \<and> jmap_ok (sk_keys s) \<and> length (sk_keys s) \<le> mx \<and> sk_max s = mx" for s :: signer_keys
  have step: "ok (snd (learn derive a k s))" if s: "ok s" for a k s
  proof (cases "snd (learn derive a k s) = s \<or> (\<exists>n. snd (learn derive a k s) = s\<lparr>sk_refused := n\<rparr>)")
    case True
    then show ?thesis using s by (auto simp: ok_def)
  next
    case False
    then obtain x y where xy: "a = JStr x" "k = JStr y" "derive y = Some x"
      "snd (learn derive a k s) = s\<lparr>sk_keys := (let ks = jset (jdel (sk_keys s) x) x y in if sk_max s < length ks then tl ks else ks)\<rparr>"
      by (auto simp: learn_def Let_def split: jsval.splits if_splits)
    let ?ks = "jset (jdel (sk_keys s) x) x y"
    have new: "?ks = jdel (sk_keys s) x @ [(x, y)]" by (rule jset_new) (simp add: jhas_jdel)
    have d: "jmap_ok ?ks" using s by (auto simp: ok_def intro: jmap_ok_jset jmap_ok_jdel)
    then have t: "jmap_ok (tl ?ks)" by (cases ?ks) (auto simp: jmap_ok_def)
    have l: "length ?ks \<le> Suc mx" using s jdel_length[of x "sk_keys s"] unfolding new by (simp add: ok_def)
    have all: "list_all (\<lambda>(a, k). derive k = Some a) ?ks"
      using s xy(3) unfolding new by (auto simp: ok_def list_all_iff jdel_set)
    then have "list_all (\<lambda>(a, k). derive k = Some a) (tl ?ks)" by (cases ?ks) auto
    then show ?thesis using all d t l s unfolding xy(4) ok_def by (auto simp: Let_def)
  qed
  have "ok s \<Longrightarrow> ok (fold (\<lambda>(a, k) s. snd (learn derive a k s)) offers s)" for s
    by (induction offers arbitrary: s) (auto intro: step)
  moreover have "ok (new_signer_keys mx)" by (simp add: ok_def new_signer_keys_def)
  ultimately show ?thesis by (simp add: ok_def Let_def)
qed

section \<open>Retries\<close>

definition raw_count :: "string \<Rightarrow> retry_state \<Rightarrow> nat" where
  "raw_count i r = (case jget (rt_retries r) i of Some n \<Rightarrow> n | None \<Rightarrow> 0)"

lemma retry_one_counts:
  assumes "retry_one mx s (r, out, c) = (r', out', c')"
  shows "raw_count i r' = raw_count i r + (if st_rawTxId s = i \<and> raw_count i r < mx then 1 else 0)"
  using assms by (auto simp: retry_one_def raw_count_def Let_def jmap_simps split: if_splits option.splits)

lemma retry_fold_counts:
  "raw_count i r \<le> mx \<Longrightarrow> distinct (map st_rawTxId ss) \<Longrightarrow> fold (retry_one mx) ss (r, out, c) = (r', out', c') \<Longrightarrow>
   raw_count i r' = raw_count i r + (if i \<in> set (map st_rawTxId ss) \<and> raw_count i r < mx then 1 else 0) \<and> raw_count i r' \<le> mx"
proof (induction ss arbitrary: r out c)
  case (Cons s ss)
  obtain r1 out1 c1 where o: "retry_one mx s (r, out, c) = (r1, out1, c1)" by (metis prod_cases3)
  note R = retry_one_counts[OF o, of i]
  have "raw_count i r1 \<le> mx" using R Cons.prems(1) by auto
  then show ?case using Cons.IH[of r1 out1 c1] Cons.prems(2,3) R by (auto simp: o split: if_splits)
qed simp

end
