(* ===== verification/Workflow.thy ===== *)
theory Workflow
  imports ValidationTasks ConsensusDoor
begin

text \<open>
  \<open>workflow.js\<close>: a transaction's way from the door through the raw tier, its validations, the processing
  tier and out to the ledger. Shown: a transaction leaves the raw tier for processing only when enough
  distinct validators have attested it; a validator counts once however often it reports; a processed
  transaction that arrives again changes nothing; and, of the pool's refusals, one that leaves the
  pooled copy of another submitter out of reach.

  Each operation runs to its end, with its awaits, before the next. What the code asks of other parts is
  in \<open>ctx\<close>: the clocks, the live leads, the registry of keys (which may throw) and the verification of
  a signature by the identity package (\<open>None\<close> when it throws). The memo of verified signatures is
  left out: it keeps the answer of a function of the same arguments. \<open>wf_finalized\<close> holds the
  \<open>tx:finalized\<close> events; other events and console output are not modelled.
\<close>

section \<open>State\<close>

datatype lookup = Key string | NoKey | Raises

record ctx =
  cx_env :: env
  cx_now :: int
  cx_hrtime :: int
  cx_static :: "string list option"
  cx_live :: "string list option"
  cx_keyOf :: "(jsval \<Rightarrow> lookup) option"
  cx_verify :: "jsval \<Rightarrow> string \<Rightarrow> bool option"
  cx_xid :: bool
  cx_required :: nat
  cx_finalizes :: bool
  cx_guard :: bool
  cx_resolvable :: bool
  cx_flood_window :: "int option"
  cx_flood_max :: "int option"

record flood =
  fl_start :: int
  fl_count :: int

record finalized =
  fz_txId :: string
  fz_txData :: jsval
  fz_validationTimestamp :: "string option"

record workflow =
  wf_mp :: mempool
  wf_tm :: task_manager
  wf_to :: "(string, string) jmap"
  wf_processed :: "string list"
  wf_leaders :: "(string, string list) jmap"
  wf_junk :: "(string, flood) jmap"
  wf_miner :: miner
  wf_finalized :: "finalized list"

definition new_workflow :: "mempool \<Rightarrow> workflow" where
  "new_workflow m = \<lparr>wf_mp = m, wf_tm = new_tasks, wf_to = [], wf_processed = [], wf_leaders = [], wf_junk = [],
     wf_miner = miner0 65536, wf_finalized = []\<rparr>"

definition with_tasks :: "(task_manager \<times> mempool \<Rightarrow> task_manager \<times> mempool) \<Rightarrow> workflow \<Rightarrow> workflow" where
  "with_tasks f w = (let (tm, m) = f (wf_tm w, wf_mp w) in w\<lparr>wf_tm := tm, wf_mp := m\<rparr>)"

text \<open>The answer to \<open>onRawTxRemoved\<close>: a transaction mapped to another submitter keeps its tasks.\<close>

definition raw_removed :: "string \<times> string \<Rightarrow> workflow \<Rightarrow> workflow" where
  "raw_removed li w = (case li of (l, i) \<Rightarrow>
     if jget (wf_to w) i \<noteq> Some l then w
     else with_tasks (clearTasksForRawTx i) (w\<lparr>wf_to := jdel (wf_to w) i\<rparr>))"

definition answer :: "workflow \<Rightarrow> workflow" where
  "answer w = fold raw_removed (mp_removed (wf_mp w)) (w\<lparr>wf_mp := (wf_mp w)\<lparr>mp_removed := []\<rparr>\<rparr>)"

definition on_mempool :: "(mempool \<Rightarrow> mempool) \<Rightarrow> workflow \<Rightarrow> workflow" where
  "on_mempool f w = answer (w\<lparr>wf_mp := f (wf_mp w)\<rparr>)"

section \<open>Reading\<close>

definition getRawTransaction :: "string \<Rightarrow> workflow \<Rightarrow> raw_entry option" where
  "getRawTransaction i w = (case jget (wf_to w) i of None \<Rightarrow> None | Some l \<Rightarrow> jget (pool_of l (wf_mp w)) i)"

definition getValidationCount :: "string \<Rightarrow> workflow \<Rightarrow> nat" where
  "getValidationCount i w = (case getRawTransaction i w of None \<Rightarrow> 0 | Some d \<Rightarrow> length (remdups (map fst (re_stamps d))))"

definition requiredFor :: "ctx \<Rightarrow> string \<Rightarrow> workflow \<Rightarrow> nat" where
  "requiredFor c i w =
     (let n = (case jget (wf_leaders w) i of Some ls \<Rightarrow> if ls \<noteq> [] then length ls else 1 | None \<Rightarrow> 1) in
      max 1 (min (cx_required c) n))"

definition extractUtxos :: "jsval \<Rightarrow> jsval list" where
  "extractUtxos tx = (if \<not> truthy (getp tx ''from'') then [] else (case getp tx ''from'' of JArr us \<Rightarrow> us | u \<Rightarrow> [u]))"

definition getValidationLeaders :: "ctx \<Rightarrow> string option \<Rightarrow> string list" where
  "getValidationLeaders c submitter =
     (let base = (case cx_static c of
              Some ls \<Rightarrow> if ls \<noteq> [] then ls else (case cx_live c of Some l \<Rightarrow> remdups (filter (\<lambda>a. a \<noteq> []) l) | None \<Rightarrow> [])
            | None \<Rightarrow> (case cx_live c of Some l \<Rightarrow> remdups (filter (\<lambda>a. a \<noteq> []) l) | None \<Rightarrow> []));
          others = sort (filter (\<lambda>a. Some a \<noteq> submitter) base);
          leaders = (case submitter of Some s \<Rightarrow> if s \<noteq> [] then s # others else others | None \<Rightarrow> others) in
      take (max 1 (min (cx_required c) (length leaders))) leaders)"

definition findTask :: "string \<Rightarrow> workflow \<Rightarrow> task option" where
  "findTask taskId w =
     (case filter (\<lambda>l. getTask l taskId (wf_tm w) \<noteq> None) (getKnownLeaderIds (wf_tm w)) of
        [] \<Rightarrow> None | l # ls \<Rightarrow> getTask l taskId (wf_tm w))"

definition wf_getValidationTasks :: "ctx \<Rightarrow> string \<Rightarrow> workflow \<Rightarrow> task list" where
  "wf_getValidationTasks c i w =
     concat (map (\<lambda>l. tasksOf l i (wf_tm w))
       (case jget (wf_leaders w) i of Some ls \<Rightarrow> ls | None \<Rightarrow> getValidationLeaders c (jget (wf_to w) i)))"

section \<open>The door\<close>

definition isContentAddressedType6 :: "(string \<Rightarrow> string) \<Rightarrow> jsval \<Rightarrow> bool" where
  "isContentAddressedType6 H tx =
     (case (getp tx ''type'', getp tx ''xid'', getp tx ''nonce'') of
        (JStr t, JStr xid, JInt n) \<Rightarrow> t = ''tx'' \<and> starts_with xid ''06'' \<and> 0 \<le> n \<and> verifyMicromine H (type6TxBody tx) (JInt n) xid 6 = Some True
      | _ \<Rightarrow> False)"

definition isContentAddressed :: "(string \<Rightarrow> string) \<Rightarrow> jsval \<Rightarrow> bool" where
  "isContentAddressed H tx \<longleftrightarrow> isContentAddressedType6 H tx \<or>
     authorityOf (getp tx ''type'') = ''content-addressed'' \<and> (case validateXid H tx of Inr ok \<Rightarrow> True | Inl e \<Rightarrow> False)"

definition flood_window :: "ctx \<Rightarrow> int" where
  "flood_window c = max 100 (num_or (cx_flood_window c) 1000)"

definition flood_max :: "ctx \<Rightarrow> int" where
  "flood_max c = max 1 (num_or (cx_flood_max c) 20000)"

definition admitToPool :: "(string \<Rightarrow> string) \<Rightarrow> ctx \<Rightarrow> string \<Rightarrow> jsval \<Rightarrow> bool \<Rightarrow> workflow \<Rightarrow> bool \<times> workflow" where
  "admitToPool H c submitter tx localSubmit w =
     (if \<not> cx_guard c then (True, w)
      else if \<not> is_object tx then (False, w)
      else (case validateForConsensus H tx (wf_miner w) of
          (Inl e, m) \<Rightarrow> (False, w\<lparr>wf_miner := m\<rparr>)
        | (Inr s, m) \<Rightarrow>
            (let w1 = w\<lparr>wf_miner := m\<rparr> in
             if localSubmit then (True, w1)
             else (let f = (case jget (wf_junk w1) submitter of
                        Some f \<Rightarrow> if flood_window c < cx_now c - fl_start f then \<lparr>fl_start = cx_now c, fl_count = 0\<rparr> else f
                      | None \<Rightarrow> \<lparr>fl_start = cx_now c, fl_count = 0\<rparr>);
                      f' = f\<lparr>fl_count := fl_count f + 1\<rparr> in
               (fl_count f' \<le> flood_max c, w1\<lparr>wf_junk := jset (wf_junk w1) submitter f'\<rparr>)))))"

definition userCanValidate :: "(string \<Rightarrow> string) \<Rightarrow> ctx \<Rightarrow> jsval \<Rightarrow> bool" where
  "userCanValidate H c tx \<longleftrightarrow> \<not> cx_resolvable c \<or>
     (case cx_keyOf c of None \<Rightarrow> True
      | Some key \<Rightarrow> isContentAddressed H tx \<or> \<not> truthy (getp tx ''from'') \<or> key (getp tx ''from'') \<noteq> NoKey)"

definition isPositivelyInvalid :: "ctx \<Rightarrow> jsval \<Rightarrow> bool" where
  "isPositivelyInvalid c tx \<longleftrightarrow> truthy tx \<and> truthy (getp tx ''sig'') \<and> truthy (getp tx ''from'') \<and>
     (case cx_keyOf c of None \<Rightarrow> False
      | Some key \<Rightarrow> (case key (getp tx ''from'') of Key k \<Rightarrow> cx_verify c tx k = Some False | _ \<Rightarrow> False))"

section \<open>Entering the pool\<close>

definition recordLeaders :: "string \<Rightarrow> string list \<Rightarrow> workflow \<Rightarrow> workflow" where
  "recordLeaders i leaders w =
     (if leaders = [] then w
      else (let w1 = w\<lparr>wf_leaders := jset (wf_leaders w) i leaders\<rparr> in
        (case jget (wf_to w1) i of None \<Rightarrow> w1
         | Some l \<Rightarrow>
             (case jget (pool_of l (wf_mp w1)) i of None \<Rightarrow> w1
              | Some d \<Rightarrow>
                  (let d' = d\<lparr>re_leaders := Some leaders\<rparr>; m = wf_mp w1 in
                   w1\<lparr>wf_mp := saveRawTx l i d' (m\<lparr>mp_raw := jset (mp_raw m) l (jset (pool_of l m) i d')\<rparr>)\<rparr>)))))"

definition assign_leaders :: "string \<Rightarrow> string list \<Rightarrow> workflow \<Rightarrow> workflow" where
  "assign_leaders i leaders w = with_tasks (assignTasks i (createTasks i leaders)) (recordLeaders i leaders w)"

definition createValidationTasks :: "ctx \<Rightarrow> string \<Rightarrow> string list option \<Rightarrow> workflow \<Rightarrow> workflow" where
  "createValidationTasks c i override w =
     assign_leaders i (case override of Some ls \<Rightarrow> if ls \<noteq> [] then ls else getValidationLeaders c (jget (wf_to w) i)
        | None \<Rightarrow> getValidationLeaders c (jget (wf_to w) i)) w"

text \<open>Locking, pooling, mapping and assigning, the common part of a submission and an arrival.\<close>

definition pool_tx :: "(string \<Rightarrow> string) \<Rightarrow> ctx \<Rightarrow> string \<Rightarrow> jsval \<Rightarrow> string list option \<Rightarrow> workflow \<Rightarrow> string option \<times> workflow" where
  "pool_tx H c submitter tx override w =
     (let w1 = on_mempool (lockUtxos (extractUtxos tx)) w;
          (i, m) = addRawTransaction H (cx_env c) (cx_now c) submitter tx (wf_mp w1);
          w2 = on_mempool (\<lambda>_. m) w1 in
      (case i of None \<Rightarrow> (None, w2)
       | Some i \<Rightarrow> (Some i, createValidationTasks c i override (w2\<lparr>wf_to := jset (wf_to w2) i submitter\<rparr>))))"

definition submitTransaction :: "(string \<Rightarrow> string) \<Rightarrow> ctx \<Rightarrow> string \<Rightarrow> jsval \<Rightarrow> workflow \<Rightarrow> string option \<times> workflow" where
  "submitTransaction H c leader tx w =
     (let (ok, w1) = admitToPool H c leader tx True w in
      if \<not> ok \<or> isPositivelyInvalid c tx \<or> \<not> userCanValidate H c tx then (None, w1)
      else pool_tx H c leader tx None w1)"

definition ingestRemoteTransaction :: "(string \<Rightarrow> string) \<Rightarrow> ctx \<Rightarrow> string \<Rightarrow> jsval \<Rightarrow> string list option \<Rightarrow> workflow \<Rightarrow> string option \<times> workflow" where
  "ingestRemoteTransaction H c submitter tx leaders w =
     (let (ok, w1) = admitToPool H c submitter tx False w in
      if \<not> ok \<or> isPositivelyInvalid c tx then (None, w1)
      else (case hashTransaction H tx of
          None \<Rightarrow> (None, w1)
        | Some i \<Rightarrow> if i \<in> set (wf_processed w1) then (Some i, w1) else pool_tx H c submitter tx leaders w1))"

section \<open>Leaving the pool\<close>

definition remove_pooled :: "string \<Rightarrow> string \<Rightarrow> workflow \<Rightarrow> workflow" where
  "remove_pooled l i w = on_mempool (\<lambda>m. deleteRawTx l i (drop_pooled l i m)) w"

definition removeRawTransaction :: "string \<Rightarrow> workflow \<Rightarrow> workflow" where
  "removeRawTransaction i w = (case jget (wf_to w) i of None \<Rightarrow> w
     | Some l \<Rightarrow>
         (let w1 = (if jhas (mp_raw (wf_mp w)) l then remove_pooled l i w else w) in
          with_tasks (clearTasksForRawTx i) (w1\<lparr>wf_to := jdel (wf_to w1) i\<rparr>)))"

definition evictRawTx :: "string \<Rightarrow> workflow \<Rightarrow> workflow" where
  "evictRawTx i w =
     (let w1 = (case jget (wf_to w) i of None \<Rightarrow> w | Some l \<Rightarrow> remove_pooled l i w) in
      with_tasks (clearTasksForRawTx i) (w1\<lparr>wf_to := jdel (wf_to w1) i\<rparr>))"

definition all_pooled :: "workflow \<Rightarrow> (string \<times> string) list" where
  "all_pooled w = concat (map (\<lambda>(l, p). map (Pair l) (jkeys p)) (mp_raw (wf_mp w)))"

definition drain_pooled :: "ctx \<Rightarrow> string \<times> string \<Rightarrow> nat \<times> workflow \<Rightarrow> nat \<times> workflow" where
  "drain_pooled c li nw = (case (li, nw) of ((l, i), (n, w)) \<Rightarrow>
     (case jget (pool_of l (wf_mp w)) i of
        Some d \<Rightarrow>
          if isPositivelyInvalid c (re_txData d)
          then (let w1 = remove_pooled l i w in (n + 1, with_tasks (clearTasksForRawTx i) (w1\<lparr>wf_to := jdel (wf_to w1) i\<rparr>)))
          else (n, w)
      | None \<Rightarrow> (n, w)))"

definition drainInvalidMempool :: "ctx \<Rightarrow> workflow \<Rightarrow> nat \<times> workflow" where
  "drainInvalidMempool c w = fold (drain_pooled c) (all_pooled w) (0, w)"

definition reap_pooled :: "ctx \<Rightarrow> int \<Rightarrow> string \<times> string \<Rightarrow> nat \<times> workflow \<Rightarrow> nat \<times> workflow" where
  "reap_pooled c maxAge li nw = (case (li, nw) of ((l, i), (n, w)) \<Rightarrow>
     (case jget (pool_of l (wf_mp w)) i of
        Some d \<Rightarrow> (case re_at d of
            Some ts \<Rightarrow>
              if i \<notin> set (wf_processed w) \<and> maxAge < cx_now c - ts
              then (let w1 = remove_pooled l i w in (n + 1, w1\<lparr>wf_to := jdel (wf_to w1) i\<rparr>))
              else (n, w)
          | None \<Rightarrow> (n, w))
      | None \<Rightarrow> (n, w)))"

definition reapAbandonedRawTxs :: "ctx \<Rightarrow> int \<Rightarrow> workflow \<Rightarrow> nat \<times> workflow" where
  "reapAbandonedRawTxs c maxAge w = fold (reap_pooled c maxAge) (all_pooled w) (0, w)"

section \<open>Validation\<close>

definition addValidationTimestamp :: "string \<Rightarrow> jsval \<Rightarrow> string \<Rightarrow> workflow \<Rightarrow> workflow" where
  "addValidationTimestamp i ts node w =
     (case jget (wf_to w) i of None \<Rightarrow> w
      | Some l \<Rightarrow>
          (case jget (pool_of l (wf_mp w)) i of None \<Rightarrow> w
           | Some d \<Rightarrow>
               if node \<in> set (map fst (re_stamps d)) then w
               else (let d' = d\<lparr>re_stamps := re_stamps d @ [(node, ts)]\<rparr>; m = wf_mp w in
                 w\<lparr>wf_mp := saveRawTx l i d' (m\<lparr>mp_raw := jset (mp_raw m) l (jset (pool_of l m) i d')\<rparr>)\<rparr>)))"

text \<open>Nanoseconds; \<open>None\<close> where \<open>BigInt\<close> throws.\<close>

definition stamp_nanos :: "jsval \<Rightarrow> int option" where
  "stamp_nanos v = (case v of JBig n \<Rightarrow> if n = 0 then None else Some n | JInt ms \<Rightarrow> if ms = 0 then None else Some (ms * 1000000) | _ \<Rightarrow> None)"

definition averageTimestamps :: "ctx \<Rightarrow> (string \<times> jsval) list \<Rightarrow> int option" where
  "averageTimestamps c stamps =
     (if stamps = [] then Some (cx_hrtime c)
      else if \<exists>x \<in> set stamps. stamp_nanos (snd x) = None then None
      else (let s = sum_list (map (the \<circ> stamp_nanos \<circ> snd) stamps); n = int (length stamps) in
        Some (if s < 0 then - ((- s) div n) else s div n)))"

definition validatedHash :: "(string \<Rightarrow> string) \<Rightarrow> jsval \<Rightarrow> int \<Rightarrow> string option" where
  "validatedHash H tx avg = hashTransaction H (set_prop tx ''validationTimestamp'' (JBig avg))"

definition moveToProcessing :: "(string \<Rightarrow> string) \<Rightarrow> ctx \<Rightarrow> string \<Rightarrow> workflow \<Rightarrow> workflow" where
  "moveToProcessing H c i w =
     (case getRawTransaction i w of None \<Rightarrow> w
      | Some d \<Rightarrow>
          (let w1 = w\<lparr>wf_processed := List.insert i (wf_processed w)\<rparr> in
           (case averageTimestamps c (re_stamps d) of None \<Rightarrow> w1
            | Some avg \<Rightarrow> (case validatedHash H (re_txData d) avg of None \<Rightarrow> w1
              | Some h \<Rightarrow>
                  (let p = \<lparr>pe_rawTxId = i, pe_timestamp = avg, pe_txData = re_txData d, pe_leader = jget (wf_to w1) i, pe_stamps = re_stamps d\<rparr>;
                       w2 = (if cx_finalizes c then on_mempool (\<lambda>m. saveProcessingTx h p (m\<lparr>mp_processing := jset (mp_processing m) h p\<rparr>)) w1
                         else on_mempool (unlockUtxos (extractUtxos (re_txData d))) w1) in
                   removeRawTransaction i w2)))))"

text \<open>\<open>None\<close> where the check throws, which fails the report.\<close>

definition signature_check :: "ctx \<Rightarrow> string \<Rightarrow> workflow \<Rightarrow> bool option" where
  "signature_check c i w = (case getRawTransaction i w of
     Some d \<Rightarrow>
       if cx_xid c \<and> truthy (re_txData d) \<and> truthy (getp (re_txData d) ''sig'') \<and> truthy (getp (re_txData d) ''from'')
       then (case cx_keyOf c of None \<Rightarrow> Some True
         | Some key \<Rightarrow> (case key (getp (re_txData d) ''from'') of
             Key k \<Rightarrow> cx_verify c (re_txData d) k | NoKey \<Rightarrow> Some True | Raises \<Rightarrow> None))
       else Some True
   | None \<Rightarrow> Some True)"

definition reporter :: "string option \<Rightarrow> string" where
  "reporter validator = (case validator of Some v \<Rightarrow> if v \<noteq> [] then v else ''unknown'' | None \<Rightarrow> ''unknown'')"

definition completeValidation ::
  "(string \<Rightarrow> string) \<Rightarrow> ctx \<Rightarrow> string \<Rightarrow> string \<Rightarrow> jsval \<Rightarrow> string option \<Rightarrow> workflow \<Rightarrow> bool \<times> workflow" where
  "completeValidation H c i taskId timestamp validator w =
     (if i \<in> set (wf_processed w) then (False, w)
      else (case findTask taskId w of None \<Rightarrow> (False, w)
         | Some t \<Rightarrow>
             (case signature_check c i w of None \<Rightarrow> (False, w)
               | Some ok \<Rightarrow>
                   if \<not> ok then (False, evictRawTx i w)
                   else (let ts = (if truthy timestamp then timestamp else JBig (cx_hrtime c));
                        w1 = with_tasks (completeTask (tk_leader t) taskId) w;
                        w2 = addValidationTimestamp i ts (reporter validator) w1 in
                    (True, if requiredFor c i w2 \<le> getValidationCount i w2 then moveToProcessing H c i w2 else w2)))))"

definition promote_one :: "(string \<Rightarrow> string) \<Rightarrow> ctx \<Rightarrow> string \<times> string \<Rightarrow> nat \<times> workflow \<Rightarrow> nat \<times> workflow" where
  "promote_one H c li nw = (case (li, nw) of ((l, i), (n, w)) \<Rightarrow>
     if i \<in> set (wf_processed w) \<or> jhas (mp_processing (wf_mp w)) i then (n, w)
     else if jget (wf_leaders w) i = None \<and> 1 < length (case cx_live c of Some ls \<Rightarrow> ls | None \<Rightarrow> []) then (n, w)
     else if getValidationCount i w < requiredFor c i w then (n, w)
     else (n + 1, moveToProcessing H c i w))"

definition promoteSatisfiedRawTxs :: "(string \<Rightarrow> string) \<Rightarrow> ctx \<Rightarrow> workflow \<Rightarrow> nat \<times> workflow" where
  "promoteSatisfiedRawTxs H c w = fold (promote_one H c) (all_pooled w) (0, w)"

section \<open>Recovery after a restart\<close>

definition rehydrate_one :: "string \<Rightarrow> string \<times> raw_entry \<Rightarrow> nat \<times> workflow \<Rightarrow> nat \<times> workflow" where
  "rehydrate_one l idd nw = (case (idd, nw) of ((i, d), (n, w)) \<Rightarrow>
     (let known = jhas (wf_to w) i;
          w1 = (if known then w else w\<lparr>wf_to := jset (wf_to w) i l\<rparr>);
          w2 = (case re_leaders d of
              Some ls \<Rightarrow> if ls \<noteq> [] \<and> \<not> jhas (wf_leaders w1) i then w1\<lparr>wf_leaders := jset (wf_leaders w1) i ls\<rparr> else w1
            | None \<Rightarrow> w1) in
      (if known then n else n + 1, w2)))"

definition rehydrateSubmitters :: "workflow \<Rightarrow> nat \<times> workflow" where
  "rehydrateSubmitters w = fold (\<lambda>(l, p). fold (rehydrate_one l) p) (mp_raw (wf_mp w)) (0, w)"

definition is_placeholder :: "string \<Rightarrow> bool" where
  "is_placeholder a \<longleftrightarrow> starts_with a ''leader'' \<and> drop 6 a \<noteq> [] \<and> all_digits (drop 6 a)"

definition recover_one :: "ctx \<Rightarrow> nat \<Rightarrow> string \<times> string \<Rightarrow> nat \<times> workflow \<Rightarrow> nat \<times> workflow" where
  "recover_one c maxPerPass li nw = (case (li, nw) of ((l, i), (n, w)) \<Rightarrow>
     if 0 < n \<and> maxPerPass \<le> n then (n, w)
     else if jhas (mp_processing (wf_mp w)) i then (n, w)
     else (let live = (case cx_live c of Some ls \<Rightarrow> ls | None \<Rightarrow> []);
               holders = filter (\<lambda>a. \<not> is_placeholder a \<and> (live = [] \<or> a \<in> set live)) (leadersHolding i (wf_tm w)) in
       if requiredFor c i w \<le> length holders then (n, w)
       else (let w1 = (if jhas (wf_to w) i then w else w\<lparr>wf_to := jset (wf_to w) i l\<rparr>) in
         (n + 1, assign_leaders i (getValidationLeaders c (jget (wf_to w1) i)) w1))))"

definition recoverStrandedRawTxs :: "ctx \<Rightarrow> nat \<Rightarrow> workflow \<Rightarrow> nat \<times> workflow" where
  "recoverStrandedRawTxs c maxPerPass w = fold (recover_one c maxPerPass) (all_pooled w) (0, w)"

definition dropProcessing :: "string \<Rightarrow> workflow \<Rightarrow> bool \<times> workflow" where
  "dropProcessing h w = (case jget (mp_processing (wf_mp w)) h of None \<Rightarrow> (False, w)
     | Some p \<Rightarrow> (True, on_mempool (\<lambda>m. unlockUtxos (extractUtxos (pe_txData p))
         (on_disk (\<lambda>k. k\<lparr>dk_processing := jdel (dk_processing k) h\<rparr>) (m\<lparr>mp_processing := jdel (mp_processing m) h\<rparr>))) w))"

definition dropProcessingTier :: "workflow \<Rightarrow> nat \<times> workflow" where
  "dropProcessingTier w = fold (\<lambda>h (n, w). let (b, w') = dropProcessing h w in (if b then n + 1 else n, w'))
     (jkeys (mp_processing (wf_mp w))) (0, w)"

definition boot :: "ctx \<Rightarrow> nat \<Rightarrow> disk option \<Rightarrow> workflow" where
  "boot c maxPerPass d =
     (let w = new_workflow (initDb (cx_env c) (cx_now c) d);
          w1 = (if cx_finalizes c then w else snd (dropProcessingTier w));
          w2 = snd (rehydrateSubmitters w1);
          (n, tm, m) = hydrate (\<lambda>i. jhas (wf_to w2) i) (wf_tm w2, wf_mp w2) in
      snd (recoverStrandedRawTxs c maxPerPass (w2\<lparr>wf_tm := tm, wf_mp := m\<rparr>)))"

section \<open>Out to the ledger\<close>

definition finalizeTransaction :: "ctx \<Rightarrow> string \<Rightarrow> workflow \<Rightarrow> bool \<times> workflow" where
  "finalizeTransaction c h w = (case jget (mp_processing (wf_mp w)) h of None \<Rightarrow> (False, w)
     | Some p \<Rightarrow>
         (let w1 = on_mempool (\<lambda>m. saveTx h (pe_txData p)
                (m\<lparr>mp_tx := jset (mp_tx m) h (pe_txData p), mp_txAt := jset (mp_txAt m) h (cx_now c)\<rparr>)) w;
              w2 = on_mempool (\<lambda>m. unlockUtxos (extractUtxos (pe_txData p))
                (on_disk (\<lambda>k. k\<lparr>dk_processing := jdel (dk_processing k) h\<rparr>) (m\<lparr>mp_processing := jdel (mp_processing m) h\<rparr>))) w1 in
          (True, w2\<lparr>wf_finalized := wf_finalized w2 @
            [\<lparr>fz_txId = h, fz_txData = serializeBigInts (pe_txData p),
              fz_validationTimestamp = (if pe_timestamp p = 0 then None else Some (show_int (pe_timestamp p)))\<rparr>]\<rparr>)))"

definition isInProcessing :: "(string \<Rightarrow> string) \<Rightarrow> string \<Rightarrow> workflow \<Rightarrow> bool" where
  "isInProcessing H i w \<longleftrightarrow> (\<exists>hp \<in> set (mp_processing (wf_mp w)). truthy (pe_txData (snd hp)) \<and> hashTransaction H (pe_txData (snd hp)) = Some i)"

definition getMempoolStats :: "workflow \<Rightarrow> int \<times> nat \<times> nat \<times> nat" where
  "getMempoolStats w = (recount (wf_mp w), length (mp_processing (wf_mp w)), length (mp_tx (wf_mp w)), length (mp_locked (wf_mp w)))"

definition getStuckRawTxs :: "ctx \<Rightarrow> int \<Rightarrow> int \<Rightarrow> workflow \<Rightarrow> stuck_tx list" where
  "getStuckRawTxs c minAge maxAge w =
     concat (map (\<lambda>(l, p). concat (map (\<lambda>(i, d).
        if i \<in> set (wf_processed w) \<or> cx_required c \<le> length (remdups (map fst (re_stamps d))) then []
        else if (case re_at d of Some t \<Rightarrow> t \<noteq> 0 \<and> minAge \<le> cx_now c - t \<and> cx_now c - t \<le> maxAge | None \<Rightarrow> False)
        then [\<lparr>st_rawTxId = i, st_submitter = l, st_txData = re_txData d, st_leaders = jget (wf_leaders w) i\<rparr>]
        else []) p)) (mp_raw (wf_mp w)))"

section \<open>What the task index leaves alone\<close>

lemma persist_raw [step_simps]: "mp_raw (persist l i tm m) = mp_raw m"
  by (simp add: persist_def setValidationTasksFor_def saveValidationTasks_def step_simps)

lemma clear_store_raw [step_simps]:
  "mp_raw (clearValidationTasksFor l i m) = mp_raw m" "mp_raw (clearValidationTasks l m) = mp_raw m"
  by (simp_all add: clearValidationTasksFor_def clearValidationTasks_def step_simps)

lemma completeTask_raw [step_simps]: "mp_raw (snd (completeTask l k s)) = mp_raw (snd s)"
  by (simp add: completeTask_def Let_def step_simps split: option.splits)

lemma assignTasks_raw [step_simps]: "mp_raw (snd (assignTasks i ts s)) = mp_raw (snd s)"
proof -
  have "mp_raw (fold (\<lambda>l m. persist l i tm m) ls m) = mp_raw m" for tm ls m
    by (induction ls arbitrary: m) (simp_all add: step_simps)
  then show ?thesis by (simp add: assignTasks_def Let_def)
qed

lemma clearTasks_raw [step_simps]: "mp_raw (snd (clearTasksForRawTx i s)) = mp_raw (snd s)"
proof -
  have one: "mp_raw (snd (clear_leader i x s)) = mp_raw (snd s)" for x s
    by (cases x; cases s) (simp add: clear_leader_def Let_def step_simps split: option.splits)
  have "mp_raw (snd (fold (clear_leader i) by s)) = mp_raw (snd s)" for "by" s
    by (induction "by" arbitrary: s) (simp_all add: one)
  then show ?thesis by (simp add: clearTasksForRawTx_def split: option.splits)
qed

lemma with_tasks_frame [step_simps]:
  "wf_to (with_tasks f w) = wf_to w" "wf_processed (with_tasks f w) = wf_processed w" "wf_leaders (with_tasks f w) = wf_leaders w"
  "wf_mp (with_tasks f w) = snd (f (wf_tm w, wf_mp w))"
  by (simp_all add: with_tasks_def split: prod.splits)

lemma answer_frame [step_simps]:
  "wf_processed (answer w) = wf_processed w" "wf_leaders (answer w) = wf_leaders w" "mp_raw (wf_mp (answer w)) = mp_raw (wf_mp w)"
proof -
  have one: "wf_processed (raw_removed x w) = wf_processed w \<and> wf_leaders (raw_removed x w) = wf_leaders w \<and>
      mp_raw (wf_mp (raw_removed x w)) = mp_raw (wf_mp w)" for x w
    by (cases x) (simp add: raw_removed_def step_simps)
  have "wf_processed (fold raw_removed xs w) = wf_processed w \<and> wf_leaders (fold raw_removed xs w) = wf_leaders w \<and>
      mp_raw (wf_mp (fold raw_removed xs w)) = mp_raw (wf_mp w)" for xs w
    by (induction xs arbitrary: w) (simp_all add: one)
  then show "wf_processed (answer w) = wf_processed w" "wf_leaders (answer w) = wf_leaders w" "mp_raw (wf_mp (answer w)) = mp_raw (wf_mp w)"
    by (simp_all add: answer_def)
qed

lemma getRaw_cong: "wf_to w' = wf_to w \<Longrightarrow> mp_raw (wf_mp w') = mp_raw (wf_mp w) \<Longrightarrow> getRawTransaction i w' = getRawTransaction i w"
  by (simp add: getRawTransaction_def pool_of_def cong: option.case_cong if_cong)

lemma processed_frames [step_simps]:
  "wf_processed (on_mempool f w) = wf_processed w" "wf_processed (remove_pooled l i w) = wf_processed w"
  "wf_processed (removeRawTransaction i w) = wf_processed w" "wf_processed (evictRawTx i w) = wf_processed w"
  "wf_processed (addValidationTimestamp i ts n w) = wf_processed w" "wf_leaders (addValidationTimestamp i ts n w) = wf_leaders w"
  by (simp_all add: on_mempool_def remove_pooled_def removeRawTransaction_def evictRawTx_def addValidationTimestamp_def Let_def step_simps
      split: option.splits)

lemma moved_processed: "set (wf_processed (moveToProcessing H c i w)) \<subseteq> insert i (set (wf_processed w))"
  by (auto simp: moveToProcessing_def Let_def step_simps split: option.splits)

section \<open>Enough distinct validators\<close>

definition attesters :: "string \<Rightarrow> workflow \<Rightarrow> string set" where
  "attesters i w = (case getRawTransaction i w of None \<Rightarrow> {} | Some d \<Rightarrow> fst ` set (re_stamps d))"

lemma count_attesters: "getValidationCount i w = card (attesters i w)"
  by (simp add: getValidationCount_def attesters_def length_remdups_card_conv split: option.splits)

lemma attesters_add: "attesters i (addValidationTimestamp i ts n w) \<subseteq> insert n (attesters i w)"
  by (auto simp: addValidationTimestamp_def attesters_def getRawTransaction_def pool_of_def saveRawTx_def Let_def on_disk_def jmap_simps
      split: option.splits if_splits)

text \<open>The state after a report has been recorded, before the count is looked at.\<close>

definition attested :: "ctx \<Rightarrow> string \<Rightarrow> string \<Rightarrow> jsval \<Rightarrow> string option \<Rightarrow> task \<Rightarrow> workflow \<Rightarrow> workflow" where
  "attested c i taskId ts v t w = addValidationTimestamp i (if truthy ts then ts else JBig (cx_hrtime c)) (reporter v)
     (with_tasks (completeTask (tk_leader t) taskId) w)"

lemma attested_frame:
  "wf_processed (attested c i taskId ts v t w) = wf_processed w" "requiredFor c i (attested c i taskId ts v t w) = requiredFor c i w"
  by (simp_all add: attested_def requiredFor_def step_simps)

lemma attested_count: "getValidationCount i (attested c i taskId ts v t w) \<le> card (insert (reporter v) (attesters i w))"
proof -
  have "attesters i (with_tasks (completeTask (tk_leader t) taskId) w) = attesters i w"
    unfolding attesters_def by (subst getRaw_cong[of _ w]) (simp_all add: step_simps)
  then have "attesters i (attested c i taskId ts v t w) \<subseteq> insert (reporter v) (attesters i w)"
    unfolding attested_def using attesters_add by metis
  moreover have "finite (attesters i w)" by (simp add: attesters_def split: option.splits)
  ultimately show ?thesis unfolding count_attesters by (simp add: card_mono)
qed

lemma completeValidation_cases:
  obtains (same) "snd (completeValidation H c i taskId ts v w) = w"
  | (evicted) "snd (completeValidation H c i taskId ts v w) = evictRawTx i w"
  | (counted) t where "snd (completeValidation H c i taskId ts v w) =
      (let w2 = attested c i taskId ts v t w in if requiredFor c i w2 \<le> getValidationCount i w2 then moveToProcessing H c i w2 else w2)"
proof (cases "i \<in> set (wf_processed w) \<or> findTask taskId w = None \<or> signature_check c i w = None")
  case True
  then show ?thesis by (intro same) (auto simp: completeValidation_def split: option.split)
next
  case False
  then obtain t ok where t: "findTask taskId w = Some t" "signature_check c i w = Some ok" "i \<notin> set (wf_processed w)" by auto
  show ?thesis
  proof (cases ok)
    case True
    show ?thesis
      using t True by (intro counted[of t]) (simp only: attested_def completeValidation_def Let_def if_False option.case not_True_eq_False snd_conv)
  next
    case False
    then show ?thesis using t by (intro evicted) (simp add: completeValidation_def)
  qed
qed

text \<open>C37: A validation report sends to processing no transaction but its own, and that one only when the distinct
  validators that have attested it, the reporter included, are as many as it needs; the sweep promotes
  only transactions whose own attesters are enough.\<close>

theorem processing_needs_distinct_validators:
  "set (wf_processed (snd (completeValidation H c i taskId ts v w))) - set (wf_processed w)
     \<subseteq> {j. j = i \<and> requiredFor c i w \<le> card (insert (reporter v) (attesters i w))} \<and>
   set (wf_processed (snd (promote_one H c (l, k) (n, w)))) - set (wf_processed w)
     \<subseteq> {j. j = k \<and> requiredFor c k w \<le> card (attesters k w)}"
proof
  show "set (wf_processed (snd (promote_one H c (l, k) (n, w)))) - set (wf_processed w)
     \<subseteq> {j. j = k \<and> requiredFor c k w \<le> card (attesters k w)}"
    using moved_processed[of H c k w] by (auto simp: promote_one_def count_attesters[symmetric])
  show "set (wf_processed (snd (completeValidation H c i taskId ts v w))) - set (wf_processed w)
     \<subseteq> {j. j = i \<and> requiredFor c i w \<le> card (insert (reporter v) (attesters i w))}"
  proof (cases rule: completeValidation_cases[of H c i taskId ts v w])
    case (counted t)
    let ?w = "attested c i taskId ts v t w"
    show ?thesis
    proof (cases "requiredFor c i ?w \<le> getValidationCount i ?w")
      case True
      then have "requiredFor c i w \<le> card (insert (reporter v) (attesters i w))"
        using attested_count[of i c taskId ts v t w] attested_frame(2)[of c i taskId ts v t w] by linarith
      then show ?thesis using moved_processed[of H c i ?w] counted True attested_frame(1)[of c i taskId ts v t w] by (auto simp: Let_def)
    qed (use counted attested_frame(1)[of c i taskId ts v t w] in \<open>simp add: Let_def\<close>)
  qed (auto simp: step_simps)
qed

section \<open>What arrives again\<close>

text \<open>A transaction that has reached processing and arrives again from a peer changes no tier, no task, no
  submitter and no lock, whoever sends it.\<close>

lemma processed_rearrival_changes_nothing:
  assumes "hashTransaction H tx = Some i" "i \<in> set (wf_processed w)"
  shows "let w' = snd (ingestRemoteTransaction H c submitter tx leaders w) in
    wf_mp w' = wf_mp w \<and> wf_tm w' = wf_tm w \<and> wf_to w' = wf_to w \<and> wf_leaders w' = wf_leaders w \<and>
    wf_processed w' = wf_processed w \<and> wf_finalized w' = wf_finalized w"
proof -
  obtain ok w1 where a: "admitToPool H c submitter tx False w = (ok, w1)" by fastforce
  then have f: "wf_mp w1 = wf_mp w" "wf_tm w1 = wf_tm w" "wf_to w1 = wf_to w" "wf_leaders w1 = wf_leaders w"
    "wf_processed w1 = wf_processed w" "wf_finalized w1 = wf_finalized w"
    by (auto simp: admitToPool_def Let_def split: if_splits sum.splits prod.splits)
  have "snd (ingestRemoteTransaction H c submitter tx leaders w) = w1"
    using assms f(5) by (simp add: ingestRemoteTransaction_def a)
  then show ?thesis using f by simp
qed

definition sample_ctx :: ctx where
  "sample_ctx = \<lparr>cx_env = \<lparr>env_max = Some 100, env_lite = False, env_peer = None, env_abandon = None, env_sweep = None,
       env_count_ttl = None, env_tombs = None, env_tx_ttl = None\<rparr>,
     cx_now = 1000, cx_hrtime = 7, cx_static = None, cx_live = None, cx_keyOf = None, cx_verify = (\<lambda>t k. None), cx_xid = False,
     cx_required = 3, cx_finalizes = True, cx_guard = False, cx_resolvable = True, cx_flood_window = None, cx_flood_max = None\<rparr>"

definition sample_pooled :: jsval where
  "sample_pooled = JObj [(''type'', JStr ''state_diff'')]"

lemma sample_hash: "hashTransaction (\<lambda>s. s) sample_pooled = Some (hex_of (the (json_stringify sample_pooled)))"
  by (simp add: hashTransaction_def sample_pooled_def sha256hex_def json_stringify_def)

lemma processed_rearrival_changes_nothing_witness:
  "wf_mp (snd (ingestRemoteTransaction (\<lambda>s. s) sample_ctx ''p'' sample_pooled None
      ((new_workflow (new_mempool True empty_disk))\<lparr>wf_processed := [hex_of (the (json_stringify sample_pooled))]\<rparr>)))
   = new_mempool True empty_disk"
  using processed_rearrival_changes_nothing[OF sample_hash,
      of "(new_workflow (new_mempool True empty_disk))\<lparr>wf_processed := [hex_of (the (json_stringify sample_pooled))]\<rparr>" sample_ctx "''p''" None]
  by (simp add: Let_def new_workflow_def)

section \<open>A refusal that hides a pooled transaction\<close>

lemma on_mempool_quiet: "mp_removed (f (wf_mp w)) = [] \<Longrightarrow> on_mempool f w = w\<lparr>wf_mp := f (wf_mp w)\<rparr>"
  by (simp add: on_mempool_def answer_def)

lemma lock_frame: "mp_removed (lockUtxos us m) = mp_removed m" "mp_raw (lockUtxos us m) = mp_raw m" "mp_tombs (lockUtxos us m) = mp_tombs m"
  by (simp_all add: lockUtxos_def saveLockedUtxos_def on_disk_def)

lemma addRaw_refused:
  assumes "hashTransaction H tx = Some i" "\<not> jhas (pool_of l m) i" "peer_max e \<le> int (length (pool_of l m)) \<or> isTombstoned i m"
  shows "fst (addRawTransaction H e now l tx m) = Some i \<and> mp_removed (snd (addRawTransaction H e now l tx m)) = mp_removed m \<and>
    pool_of k (snd (addRawTransaction H e now l tx m)) = pool_of k m"
proof -
  have [simp]: "mp_removed (open_pool l m) = mp_removed m" by (simp add: open_pool_def)
  have p: "pool_of k (m'\<lparr>mp_refusals := r\<rparr>) = pool_of k m'" "pool_of k (m'\<lparr>mp_tombHits := n\<rparr>) = pool_of k m'" for m' r n
    by (simp_all add: pool_of_def)
  show ?thesis
  proof (cases "isTombstoned i m")
    case True
    then show ?thesis using assms by (simp add: addRawTransaction_def p)
  next
    case False
    then show ?thesis using assms by (simp add: addRawTransaction_def p pool_of_open Let_def)
  qed
qed

lemma recordLeaders_absent:
  assumes "jget (wf_to w) i = Some l" "jget (pool_of l (wf_mp w)) i = None"
  shows "wf_mp (recordLeaders i ls w) = wf_mp w" "wf_to (recordLeaders i ls w) = wf_to w"
  using assms by (simp_all add: recordLeaders_def Let_def)

text \<open>A transaction pooled under one submitter that arrives from another, whose share is used up or after it
  was tombstoned, is refused a second place, yet its id is mapped to the second submitter: the pooled
  copy is still there but no report finds it, so no validation of it counts any more.\<close>

lemma refused_arrival_hides_pooled_copy:
  assumes "hashTransaction H tx = Some i" "jhas (pool_of a (wf_mp w)) i" "\<not> jhas (pool_of b (wf_mp w)) i"
    "peer_max (cx_env c) \<le> int (length (pool_of b (wf_mp w))) \<or> isTombstoned i (wf_mp w)" "mp_removed (wf_mp w) = []"
  shows "let w' = snd (pool_tx H c b tx leaders w) in
    jhas (pool_of a (wf_mp w')) i \<and> getRawTransaction i w' = None \<and> getValidationCount i w' = 0 \<and>
    addValidationTimestamp i ts node w' = w'"
proof -
  let ?m1 = "lockUtxos (extractUtxos tx) (wf_mp w)"
  have w1: "on_mempool (lockUtxos (extractUtxos tx)) w = w\<lparr>wf_mp := ?m1\<rparr>"
    by (rule on_mempool_quiet) (simp add: lock_frame assms(5))
  have pool1: "pool_of k ?m1 = pool_of k (wf_mp w)" for k by (simp add: pool_of_def lock_frame)
  obtain r m2 where r: "addRawTransaction H (cx_env c) (cx_now c) b tx ?m1 = (r, m2)" by fastforce
  have "\<not> jhas (pool_of b ?m1) i" "peer_max (cx_env c) \<le> int (length (pool_of b ?m1)) \<or> isTombstoned i ?m1"
    using assms(3,4) by (simp_all add: pool1 isTombstoned_def lock_frame)
  note R = addRaw_refused[OF assms(1) this, of "cx_now c", unfolded r fst_conv snd_conv pool1 lock_frame assms(5)]
  let ?w3 = "w\<lparr>wf_mp := m2, wf_to := jset (wf_to w) i b\<rparr>"
  define ls where "ls = (case leaders of Some ls \<Rightarrow> if ls \<noteq> [] then ls else getValidationLeaders c (jget (wf_to ?w3) i)
      | None \<Rightarrow> getValidationLeaders c (jget (wf_to ?w3) i))"
  have "on_mempool (\<lambda>_. m2) (w\<lparr>wf_mp := ?m1\<rparr>) = w\<lparr>wf_mp := m2\<rparr>"
    using on_mempool_quiet[of "\<lambda>_. m2" "w\<lparr>wf_mp := ?m1\<rparr>"] R by simp
  then have w': "snd (pool_tx H c b tx leaders w) = assign_leaders i ls ?w3"
    using R by (simp add: pool_tx_def w1 r createValidationTasks_def ls_def Let_def cong: option.case_cong if_cong)
  have g: "jget (wf_to ?w3) i = Some b" "jget (pool_of b (wf_mp ?w3)) i = None"
    using assms(3) R by (simp_all add: jmap_simps jhas_def)
  note A = recordLeaders_absent[OF g, of ls]
  have f: "wf_to (assign_leaders i ls ?w3) = jset (wf_to w) i b" "mp_raw (wf_mp (assign_leaders i ls ?w3)) = mp_raw m2"
    unfolding assign_leaders_def using A by (simp_all add: step_simps)
  have pools: "pool_of k (wf_mp (assign_leaders i ls ?w3)) = pool_of k (wf_mp w)" for k
    using R f(2) by (simp add: pool_of_def)
  have to: "jget (wf_to (assign_leaders i ls ?w3)) i = Some b" by (simp add: f(1) jmap_simps)
  have none: "jget (pool_of b (wf_mp (assign_leaders i ls ?w3))) i = None" using assms(3) unfolding pools by (simp add: jhas_def)
  then have "getRawTransaction i (assign_leaders i ls ?w3) = None" by (simp add: getRawTransaction_def to)
  moreover have "addValidationTimestamp i ts node (assign_leaders i ls ?w3) = assign_leaders i ls ?w3"
    by (simp add: addValidationTimestamp_def to none)
  ultimately show ?thesis unfolding w' Let_def using assms(2) by (simp add: getValidationCount_def pools)
qed

lemma refused_arrival_hides_pooled_copy_witness:
  "let i = hex_of (the (json_stringify sample_pooled));
     w = new_workflow ((new_mempool True empty_disk)\<lparr>mp_raw := [(''a'', [(i, pool_entry 0 [] i sample_pooled)])], mp_tombs := [i]\<rparr>) in
   getRawTransaction i (snd (pool_tx (\<lambda>s. s) sample_ctx ''b'' sample_pooled None w)) = None"
  using refused_arrival_hides_pooled_copy[OF sample_hash, of "''a''"
      "new_workflow ((new_mempool True empty_disk)\<lparr>mp_raw := [(''a'', [(hex_of (the (json_stringify sample_pooled)),
         pool_entry 0 [] (hex_of (the (json_stringify sample_pooled))) sample_pooled)])],
         mp_tombs := [hex_of (the (json_stringify sample_pooled))]\<rparr>)" "''b''" sample_ctx None]
  by (simp add: Let_def new_workflow_def new_mempool_def pool_of_def jhas_def isTombstoned_def)

end
