(* ===== verification/DelegationProps.thy ===== *)
theory DelegationProps
  imports Delegation
begin

text \<open>
  What a passed presentation has proved, that what the package mints passes, and that an authorization is
  used once, for every registry that keeps the contract \<open>single_use\<close>: the one in memory and the table.
\<close>

section \<open>Every hop is checked\<close>

lemma fail_if_Passed [simp]: "fail_if c r k = Passed h n a \<longleftrightarrow> c = Some False \<and> k = Passed h n a"
  by (auto simp: fail_if_def split: option.splits bool.splits)

lemma bad_sig_False [simp]: "bad_sig E m s pub = Some False \<longleftrightarrow> (\<exists>x. m = Some x \<and> de_verify E x s pub = Some True)"
  by (auto simp: bad_sig_def split: option.splits)

lemma bad_address_False [simp]: "bad_address E pub a = Some False \<longleftrightarrow> (\<exists>d. deriveAddress E pub = Some d \<and> a = JStr d)"
  by (auto simp: bad_address_def)

lemma every_in_array: "every_in xs (JArr ys) = Some True \<Longrightarrow> set xs \<subseteq> set ys"
  by (induction xs) (auto simp: js_includes_def split: option.splits bool.splits)

lemma substring_of_iff: "substring_of p s \<longleftrightarrow> (\<exists>u v. s = u @ p @ v)"
proof (induction s)
  case (Cons c s)
  have "(\<exists>u v. c # s = u @ p @ v) \<longleftrightarrow> (\<exists>v. c # s = p @ v) \<or> (\<exists>u v. s = u @ p @ v)"
    by (metis append_Cons append_Nil list.exhaust list.sel(3))
  moreover have "starts_with (c # s) p \<longleftrightarrow> (\<exists>v. c # s = p @ v)"
    by (auto simp: starts_with_def) (metis append_take_drop_id)
  ultimately show ?case using Cons by simp
qed simp

lemma every_in_text: "every_in xs (JStr s) = Some True \<Longrightarrow> \<forall>x \<in> set xs. \<exists>u v. s = u @ js_string x @ v"
  by (induction xs) (auto simp: js_includes_def substring_of_iff split: option.splits bool.splits)

lemma every_in_other: "every_in xs b = Some True \<Longrightarrow> xs \<noteq> [] \<Longrightarrow> (\<exists>ys. b = JArr ys) \<or> (\<exists>s. b = JStr s)"
  by (cases xs) (auto simp: js_includes_def split: jsval.splits)

text \<open>What a grant's scope gives: an array gives its members; a text, which the mint never writes but the check
  lets by, gives every action whose text occurs in it; no other value gives anything.\<close>

definition grants :: "jsval \<Rightarrow> jsval \<Rightarrow> bool" where
  "grants scope action = (case scope of
     JArr have \<Rightarrow> action \<in> set have
   | JStr s \<Rightarrow> \<exists>u v. s = u @ js_string action @ v
   | _ \<Rightarrow> False)"

lemma every_in_grants: "every_in xs b = Some True \<Longrightarrow> x \<in> set xs \<Longrightarrow> grants b x"
proof -
  assume e: "every_in xs b = Some True" and x: "x \<in> set xs"
  from x have "xs \<noteq> []" by auto
  from every_in_other[OF e this] show ?thesis
  proof (elim disjE exE)
    fix ys assume "b = JArr ys"
    then show ?thesis using every_in_array[of xs ys] e x by (auto simp: grants_def)
  next
    fix s assume "b = JStr s"
    then show ?thesis using every_in_text[of xs s] e x by (auto simp: grants_def)
  qed
qed

text \<open>What the gate promises of a presentation: the grant, the token and the action of an authorised call.\<close>

definition grant_authorised :: "deleg_env \<Rightarrow> deleg_policy \<Rightarrow> jsval \<Rightarrow> bool" where
  "grant_authorised E P g \<longleftrightarrow>
     (\<exists>m. dcanon (grantBody g) = Some m \<and> de_verify E m (getp g ''sig'') (getp g ''root_pub'') = Some True)
   \<and> (\<exists>a. deriveAddress E (getp g ''root_pub'') = Some a \<and> dp_root P = JStr a)
   \<and> \<not> below (dp_now P) (to_num (getp g ''nbf'')) \<and> \<not> past (dp_now P) (to_num (getp g ''exp''))"

definition token_authorised :: "deleg_env \<Rightarrow> deleg_policy \<Rightarrow> jsval \<Rightarrow> jsval \<Rightarrow> string \<Rightarrow> bool" where
  "token_authorised E P g t h \<longleftrightarrow>
     (\<exists>m. dcanon (tokenBody t) = Some m \<and> de_verify E m (getp t ''sig'') (getp g ''coordinator_pub'') = Some True)
   \<and> (\<exists>a. deriveAddress E (getp g ''coordinator_pub'') = Some a \<and> getp g ''coordinator_address'' = JStr a)
   \<and> (\<exists>r. grantHash E g = Some r \<and> getp t ''grant_ref'' = JStr r)
   \<and> \<not> below (dp_now P) (to_num (getp t ''nbf'')) \<and> \<not> past (dp_now P) (to_num (getp t ''exp''))
   \<and> (dp_aud P \<noteq> JUndef \<longrightarrow> getp t ''aud'' = dp_aud P)
   \<and> tokenHash E t = Some h \<and> (\<forall>burned. dp_revoked P = Some burned \<longrightarrow> \<not> burned h)"

definition action_authorised :: "deleg_env \<Rightarrow> jsval \<Rightarrow> jsval \<Rightarrow> jsval \<Rightarrow> string \<Rightarrow> bool" where
  "action_authorised E g t pres n \<longleftrightarrow>
     (\<exists>ask. getp t ''scope'' = JArr ask \<and> getp pres ''action'' \<in> set ask
        \<and> (\<forall>x \<in> set ask. grants (getp g ''scope'') x))
   \<and> (\<exists>a. deriveAddress E (getp t ''agent_pub'') = Some a \<and> getp t ''agent_address'' = JStr a)
   \<and> (\<exists>m. actionMessage E t (getp pres ''action'') (getp pres ''args'') (JStr n) = Some m
        \<and> de_verify E m (getp pres ''actionSig'') (getp t ''agent_pub'') = Some True) \<and> n \<noteq> []"

text \<open>C19: A presentation that passes has been authorised at every hop: the grant is signed by the key whose
  address is the trusted root and is in its time; the token is signed by the very coordinator the grant
  names, refers to this grant, is in its time, has the required audience and is not revoked (where a
  revocation check is given); its scope is an array that lists the action, and each action it lists is
  given by the grant: a member of the grant's scope where that is an array, a piece of it where it is a
  text (the check then allows any substring), and no other scope passes; the coordinator is attested
  where that is required; and the action with its nonce is signed by the key the token names. A time
  bound that is no number bounds nothing.\<close>

theorem verified_chain_is_authorised:
  assumes "verifyChain E P pres = Passed h n attested"
  shows "grant_authorised E P (getp pres ''grant'')
    \<and> token_authorised E P (getp pres ''grant'') (getp pres ''token'') h
    \<and> action_authorised E (getp pres ''grant'') (getp pres ''token'') pres n
    \<and> (dp_require P \<longrightarrow> attested) \<and> dp_attest P (getp (getp pres ''grant'') ''tee'') = Some attested"
proof -
  define g t where gt: "g = getp pres ''grant''" "t = getp pres ''token''"
  note A = assms[unfolded verifyChain_def Let_def gt[symmetric] fail_if_Passed]
  have last: "tokenHash E t = Some h" "getp pres ''nonce'' = JStr n" "dp_attest P (getp g ''tee'') = Some attested"
    using A by (auto split: option.splits jsval.splits)
  have pub: "getp t ''coordinator_pub'' = getp g ''coordinator_pub''" using A by (simp add: strict_eq_def)
  have g: "grant_authorised E P g" using A by (auto simp: grant_authorised_def strict_eq_def)
  have rev: "\<forall>burned. dp_revoked P = Some burned \<longrightarrow> \<not> burned h" using A last(1) by (auto split: option.splits)
  have aud: "dp_aud P \<noteq> JUndef \<longrightarrow> getp t ''aud'' = dp_aud P" using A by (auto simp: strict_eq_def)
  have t: "token_authorised E P g t h"
    using A last(1) rev aud unfolding pub token_authorised_def by auto
  have s: "subset_scope (getp t ''scope'') (getp g ''scope'') = Some True" "js_includes (getp t ''scope'') (getp pres ''action'') = Some True"
    using A by auto
  obtain ask where ask: "getp t ''scope'' = JArr ask" using s(1) by (auto simp: subset_scope_def split: jsval.splits)
  have "getp pres ''action'' \<in> set ask" using s(2) by (simp add: ask js_includes_def)
  moreover have "\<forall>x \<in> set ask. grants (getp g ''scope'') x"
    using s(1) every_in_grants by (simp add: ask subset_scope_def)
  ultimately have "\<exists>ask. getp t ''scope'' = JArr ask \<and> getp pres ''action'' \<in> set ask \<and> (\<forall>x \<in> set ask. grants (getp g ''scope'') x)"
    using ask by blast
  then have a: "action_authorised E g t pres n" using A last(2) unfolding action_authorised_def by auto
  show ?thesis using g t a last(3) A unfolding gt by (auto simp: gt)
qed

section \<open>Single use\<close>

text \<open>A stretch of calls of the gate, each with its own policy and clock.\<close>

definition gate_run ::
  "(string \<Rightarrow> jsval \<Rightarrow> int \<Rightarrow> 'r \<Rightarrow> bool option \<times> 'r) \<Rightarrow> deleg_env \<Rightarrow> (deleg_policy \<times> int \<times> jsval) list \<Rightarrow> 'r \<Rightarrow> 'r" where
  "gate_run consume E calls r = fold (\<lambda>(P, u, pres) r. snd (authorize consume E P u pres r)) calls r"

text \<open>What the gate relies on in a registry: a pair is won only when it is not there, it is there once won,
  and it stays until its expiry has passed.\<close>

locale single_use =
  fixes consume :: "string \<Rightarrow> jsval \<Rightarrow> int \<Rightarrow> 'r \<Rightarrow> bool option \<times> 'r"
    and entry :: "'r \<Rightarrow> string \<Rightarrow> 'e option"
    and kept :: "jsval \<Rightarrow> 'e"
    and dead :: "'e \<Rightarrow> int \<Rightarrow> bool"
  assumes won_fresh: "consume k x u r = (Some True, r') \<Longrightarrow> entry r k = None"
    and won_entry: "consume k x u r = (Some True, r') \<Longrightarrow> entry r' k = Some (kept x) \<or> dead (kept x) u"
    and keeps: "entry r k = Some e \<Longrightarrow> entry (snd (consume j x u r)) k = Some e \<or> dead e u"
    and dead_mono: "dead e u \<Longrightarrow> u \<le> v \<Longrightarrow> dead e v"
    and dead_past: "dead (kept x) u \<Longrightarrow> past u (to_num x)"
begin

lemma authorize_keeps: "entry r k = Some e \<Longrightarrow> entry (snd (authorize consume E P u pres r)) k = Some e \<or> dead e u"
proof (cases "verifyChain E P pres")
  case (Passed h n a)
  assume e: "entry r k = Some e"
  obtain w r' where c: "consume (nonce_key h n) (getp (getp pres ''token'') ''exp'') u r = (w, r')" by fastforce
  have "snd (authorize consume E P u pres r) = r'" by (simp add: authorize_def Passed c split: option.split bool.split)
  then show ?thesis using keeps[OF e, of "nonce_key h n" "getp (getp pres ''token'') ''exp''" u] c by simp
qed (simp_all add: authorize_def)

lemma run_keeps:
  assumes "entry r k = Some e \<or> dead e v" "\<forall>(P, u, pres) \<in> set calls. u \<le> v"
  shows "entry (gate_run consume E calls r) k = Some e \<or> dead e v"
  using assms
proof (induction calls arbitrary: r)
  case (Cons c calls)
  obtain P u pres where c: "c = (P, u, pres)" by (cases c) auto
  have "entry (snd (authorize consume E P u pres r)) k = Some e \<or> dead e v"
    using Cons.prems authorize_keeps[of r k e E P u pres] dead_mono[of e u v] by (auto simp: c)
  then show ?case using Cons by (simp add: gate_run_def c)
qed (simp add: gate_run_def)

lemma passes_once:
  assumes "authorize consume E P u pres r = (Passed h n a, r1)" "authorize consume E P' (dp_now P') pres' (gate_run consume E calls r1) = (Passed h n a', r2)"
    "u \<le> dp_now P'" "\<forall>(P, w, pres) \<in> set calls. w \<le> dp_now P'"
    "getp (getp pres' ''token'') ''exp'' = getp (getp pres ''token'') ''exp''"
  shows False
proof -
  let ?x = "getp (getp pres ''token'') ''exp''"
  have c: "consume (nonce_key h n) ?x u r = (Some True, r1)"
    using assms(1) by (auto simp: authorize_def split: chain_outcome.splits prod.splits option.splits bool.splits)
  have v: "verifyChain E P' pres' = Passed h n a'" "consume (nonce_key h n) ?x (dp_now P') (gate_run consume E calls r1) = (Some True, r2)"
    using assms(2) assms(5) by (auto simp: authorize_def split: chain_outcome.splits prod.splits option.splits bool.splits)
  have "entry r1 (nonce_key h n) = Some (kept ?x) \<or> dead (kept ?x) (dp_now P')"
    using won_entry[OF c] dead_mono assms(3) by blast
  then have "entry (gate_run consume E calls r1) (nonce_key h n) = Some (kept ?x) \<or> dead (kept ?x) (dp_now P')"
    by (rule run_keeps[OF _ assms(4)])
  then have "dead (kept ?x) (dp_now P')" using won_fresh[OF v(2)] by simp
  then have "past (dp_now P') (to_num (getp (getp pres' ''token'') ''exp''))" using dead_past assms(5) by simp
  moreover have "\<not> past (dp_now P') (to_num (getp (getp pres' ''token'') ''exp''))"
    using verified_chain_is_authorised[OF v(1)] by (simp add: token_authorised_def)
  ultimately show False by blast
qed

end

lemma past_mono: "past u x \<Longrightarrow> u \<le> v \<Longrightarrow> past v x"
  by (cases x) auto

text \<open>An expired row is dead weight: the first row of a key decides.\<close>

lemma map_of_filter_live: "map_of xs k = Some e \<Longrightarrow> Q (k, e) \<Longrightarrow> map_of (filter Q xs) k = Some e"
  by (induction xs) (auto split: if_splits)

lemma sweep_entry:
  "map_of (nr_used r) k = Some e \<Longrightarrow> map_of (nr_used (maybeSweep u r)) k = Some e \<or> truthy e \<and> past u (to_num e)"
  using map_of_filter_live[of "nr_used r" k e "\<lambda>(k, e). \<not> (truthy e \<and> past u (to_num e))"]
  by (auto simp: maybeSweep_def Let_def)

interpretation memory: single_use memory_consume "\<lambda>r k. jget (nr_used r) k" "\<lambda>x. js_or x (JInt 0)" "\<lambda>e u. truthy e \<and> past u (to_num e)"
proof
  show "jget (nr_used r) k = None" if "memory_consume k x u r = (Some True, r')" for k x u r r'
    using that by (auto simp: memory_consume_def nonce_consume_def jhas_def split: if_splits)
  show "jget (nr_used r') k = Some (js_or x (JInt 0)) \<or> truthy (js_or x (JInt 0)) \<and> past u (to_num (js_or x (JInt 0)))"
    if "memory_consume k x u r = (Some True, r')" for k x u r r'
    using that sweep_entry[of "r\<lparr>nr_used := jset (nr_used r) k (js_or x (JInt 0))\<rparr>" k "js_or x (JInt 0)" u]
    by (auto simp: memory_consume_def nonce_consume_def jget_jset split: if_splits)
  show "jget (nr_used (snd (memory_consume j x u r))) k = Some e \<or> truthy e \<and> past u (to_num e)" if "jget (nr_used r) k = Some e" for r k e j x u
    using that sweep_entry[of "r\<lparr>nr_used := jset (nr_used r) j (js_or x (JInt 0))\<rparr>" k e u]
    by (cases "k = j") (auto simp: memory_consume_def nonce_consume_def jget_jset jhas_def split: if_splits)
  show "truthy e \<and> past v (to_num e)" if "truthy e \<and> past u (to_num e)" "u \<le> v" for e u v using that past_mono by blast
  show "past u (to_num x)" if "truthy (js_or x (JInt 0)) \<and> past u (to_num (js_or x (JInt 0)))" for x u
    using that by (auto simp: js_or_def split: if_splits)
qed

definition stored_kept :: "jsval \<Rightarrow> jnum" where
  "stored_kept x = (case stored_exp x of Some e \<Rightarrow> e | None \<Rightarrow> NInt 0)"

lemma sweepExpired_entry:
  "map_of (dr_rows r) k = Some e \<Longrightarrow> map_of (dr_rows (snd (sweepExpired u r))) k = Some e \<or> e \<noteq> NInt 0 \<and> past u e"
  using map_of_filter_live[of "dr_rows r" k e "\<lambda>(k, e). \<not> (e \<noteq> NInt 0 \<and> past u e)"]
  by (auto simp: sweepExpired_def Let_def)

lemma stored_past: "past u (stored_kept x) \<Longrightarrow> stored_kept x \<noteq> NInt 0 \<Longrightarrow> past u (to_num x)"
  by (cases "to_num x"; cases x) (auto simp: stored_kept_def stored_exp_def)

interpretation durable: single_use durable_consume "\<lambda>r k. jget (dr_rows r) k" stored_kept "\<lambda>e u. e \<noteq> NInt 0 \<and> past u e"
proof
  show "jget (dr_rows r) k = None" if "durable_consume k x u r = (Some True, r')" for k x u r r'
    using that by (auto simp: durable_consume_def jhas_def split: if_splits option.splits)
  show "jget (dr_rows r') k = Some (stored_kept x) \<or> stored_kept x \<noteq> NInt 0 \<and> past u (stored_kept x)"
    if c: "durable_consume k x u r = (Some True, r')" for k x u r r'
  proof -
    obtain e where e: "stored_exp x = Some e" using c by (auto simp: durable_consume_def split: option.splits)
    show ?thesis
      using c e sweepExpired_entry[of "r\<lparr>dr_rows := jset (dr_rows r) k e, dr_since := 0\<rparr>" k e u]
      by (auto simp: durable_consume_def stored_kept_def Let_def jget_jset split: if_splits)
  qed
  show "jget (dr_rows (snd (durable_consume j x u r))) k = Some e \<or> e \<noteq> NInt 0 \<and> past u e" if "jget (dr_rows r) k = Some e" for r k e j x u
    using that sweepExpired_entry[of "r\<lparr>dr_rows := jset (dr_rows r) j (stored_kept x), dr_since := 0\<rparr>" k e u]
    by (cases "k = j") (auto simp: durable_consume_def stored_kept_def Let_def jget_jset jhas_def split: if_splits option.split)
  show "e \<noteq> NInt 0 \<and> past v e" if "e \<noteq> NInt 0 \<and> past u e" "u \<le> v" for e u v using that past_mono by blast
  show "past u (to_num x)" if "stored_kept x \<noteq> NInt 0 \<and> past u (stored_kept x)" for x u using that stored_past by blast
qed

text \<open>C20: An authorization is used once. When the gate has let a presentation through, no later presentation of
  the same token and nonce passes, whatever calls come between them and whatever the registry has swept
  in the meantime, as long as the gate checks expiry against the clock of the registry.\<close>

theorem authorization_used_once:
  assumes "authorize memory_consume E P u pres r = (Passed h n a, r1)" "u \<le> dp_now P'"
    "\<forall>(Q, w, p) \<in> set calls. w \<le> dp_now P'" "getp (getp pres' ''token'') ''exp'' = getp (getp pres ''token'') ''exp''"
  shows "fst (authorize memory_consume E P' (dp_now P') pres' (gate_run memory_consume E calls r1)) \<noteq> Passed h n a'"
proof
  obtain o2 r2 where x: "authorize memory_consume E P' (dp_now P') pres' (gate_run memory_consume E calls r1) = (o2, r2)" by fastforce
  assume "fst (authorize memory_consume E P' (dp_now P') pres' (gate_run memory_consume E calls r1)) = Passed h n a'"
  then show False using memory.passes_once[OF assms(1) _ assms(2-4)] x by auto
qed

text \<open>The same over the table: also after a restart, since the rows are the state.\<close>

lemma authorization_used_once_durable:
  assumes "authorize durable_consume E P u pres r = (Passed h n a, r1)" "u \<le> dp_now P'"
    "\<forall>(Q, w, p) \<in> set calls. w \<le> dp_now P'" "getp (getp pres' ''token'') ''exp'' = getp (getp pres ''token'') ''exp''"
  shows "fst (authorize durable_consume E P' (dp_now P') pres' (gate_run durable_consume E calls r1)) \<noteq> Passed h n a'"
proof
  obtain o2 r2 where x: "authorize durable_consume E P' (dp_now P') pres' (gate_run durable_consume E calls r1) = (o2, r2)" by fastforce
  assume "fst (authorize durable_consume E P' (dp_now P') pres' (gate_run durable_consume E calls r1)) = Passed h n a'"
  then show False using durable.passes_once[OF assms(1) _ assms(2-4)] x by auto
qed

section \<open>What is minted passes\<close>

text \<open>The signer's contract for an identity: what it signs verifies under its public key.\<close>

definition signs :: "deleg_env \<Rightarrow> (string \<Rightarrow> jsval \<Rightarrow> jsval option) \<Rightarrow> identity \<Rightarrow> bool" where
  "signs E sign who \<longleftrightarrow> (\<forall>m s. sign m (id_priv who) = Some s \<longrightarrow> de_verify E m s (id_pub who) = Some True)"

definition plain :: "jsval \<Rightarrow> bool" where
  "plain v \<longleftrightarrow> \<not> is_object v \<and> v \<noteq> JNaN"

lemma signedD:
  assumes "signed sign who body = Some v" "signs E sign who" "body = JObj kvs" "\<not> jhas kvs ''sig''"
  shows "v = JObj (kvs @ [(''sig'', getp v ''sig'')]) \<and> (\<exists>m. dcanon body = Some m \<and> de_verify E m (getp v ''sig'') (id_pub who) = Some True)"
  using assms by (auto simp: signed_def signs_def jset_new split: option.splits) (simp_all add: jhas_def)

lemma every_in_subset: "set xs \<subseteq> set ys \<Longrightarrow> \<forall>x \<in> set xs. \<not> is_object x \<Longrightarrow> every_in xs (JArr ys) = Some True"
  by (induction xs) (auto simp: js_includes_def)

lemma minted_grant:
  assumes "mintGrant E sign root cpub scope exp tee nbf n1 = Some g" "signs E sign root"
  shows "truthy g \<and> getp g ''root_pub'' = id_pub root \<and> getp g ''root_address'' = JStr (id_address root) \<and> getp g ''coordinator_pub'' = cpub
    \<and> (\<exists>a. deriveAddress E cpub = Some a \<and> getp g ''coordinator_address'' = JStr a) \<and> getp g ''scope'' = JArr scope
    \<and> getp g ''nbf'' = JInt nbf \<and> getp g ''exp'' = exp \<and> getp g ''tee'' = nullish tee JNull
    \<and> (\<exists>m. dcanon (grantBody g) = Some m \<and> de_verify E m (getp g ''sig'') (id_pub root) = Some True)"
proof -
  obtain a where a: "deriveAddress E cpub = Some a" using assms(1) by (auto simp: mintGrant_def split: option.splits)
  define kvs where "kvs = [(''v'', JInt 1), (''root_address'', JStr (id_address root)), (''root_pub'', id_pub root),
    (''coordinator_address'', JStr a), (''coordinator_pub'', cpub), (''tee'', nullish tee JNull), (''scope'', JArr scope),
    (''nbf'', JInt nbf), (''exp'', exp), (''nonce'', JStr n1)]"
  have s: "signed sign root (JObj kvs) = Some g" using assms(1) by (simp add: mintGrant_def a kvs_def)
  obtain m where m: "g = JObj (kvs @ [(''sig'', getp g ''sig'')])" "dcanon (JObj kvs) = Some m" "de_verify E m (getp g ''sig'') (id_pub root) = Some True"
    using signedD[OF s assms(2)] by (auto simp: kvs_def jhas_def)
  have n: "nullish (nullish tee JNull) JNull = nullish tee JNull" by (cases tee) simp_all
  have "grantBody (JObj (kvs @ [(''sig'', v)])) = JObj kvs" for v by (simp add: grantBody_def pick_fields_def kvs_def n)
  then have "grantBody g = JObj kvs" by (subst m(1)) simp
  moreover have "truthy (JObj (kvs @ [(''sig'', v)])) \<and> getp (JObj (kvs @ [(''sig'', v)])) ''root_pub'' = id_pub root \<and> getp (JObj (kvs @ [(''sig'', v)])) ''root_address'' = JStr (id_address root)
    \<and> getp (JObj (kvs @ [(''sig'', v)])) ''coordinator_pub'' = cpub \<and> getp (JObj (kvs @ [(''sig'', v)])) ''coordinator_address'' = JStr a
    \<and> getp (JObj (kvs @ [(''sig'', v)])) ''scope'' = JArr scope \<and> getp (JObj (kvs @ [(''sig'', v)])) ''nbf'' = JInt nbf
    \<and> getp (JObj (kvs @ [(''sig'', v)])) ''exp'' = exp \<and> getp (JObj (kvs @ [(''sig'', v)])) ''tee'' = nullish tee JNull" for v
    by (simp add: kvs_def)
  ultimately show ?thesis using a m by metis
qed

lemma minted_token:
  assumes "mintZspToken E sign coord g apub aud ask ttl nbf n2 = Some t" "signs E sign coord"
  shows "truthy t \<and> getp t ''coordinator_pub'' = id_pub coord \<and> (\<exists>h. grantHash E g = Some h \<and> getp t ''grant_ref'' = JStr h)
    \<and> getp t ''agent_pub'' = apub \<and> (\<exists>a. deriveAddress E apub = Some a \<and> getp t ''agent_address'' = JStr a) \<and> getp t ''aud'' = aud
    \<and> getp t ''scope'' = JArr ask \<and> getp t ''nbf'' = JInt nbf \<and> getp t ''exp'' = JInt (nbf + to_int32 ttl)
    \<and> (\<exists>m. dcanon (tokenBody t) = Some m \<and> de_verify E m (getp t ''sig'') (id_pub coord) = Some True)"
proof -
  obtain h a where a: "grantHash E g = Some h" "deriveAddress E apub = Some a" using assms(1) by (auto simp: mintZspToken_def split: option.splits)
  define kvs where "kvs = [(''v'', JInt 1), (''grant_ref'', JStr h), (''coordinator_pub'', id_pub coord),
          (''agent_address'', JStr a), (''agent_pub'', apub), (''aud'', aud), (''scope'', JArr ask), (''nbf'', JInt nbf),
          (''exp'', JInt (nbf + to_int32 ttl)), (''nonce'', JStr n2)]"
  have s: "signed sign coord (JObj kvs) = Some t" using assms(1) by (simp add: mintZspToken_def a kvs_def)
  obtain m where m: "t = JObj (kvs @ [(''sig'', getp t ''sig'')])" "dcanon (JObj kvs) = Some m" "de_verify E m (getp t ''sig'') (id_pub coord) = Some True"
    using signedD[OF s assms(2)] by (auto simp: kvs_def jhas_def)
  have "tokenBody (JObj (kvs @ [(''sig'', v)])) = JObj kvs" for v by (simp add: tokenBody_def pick_fields_def kvs_def)
  then have "tokenBody t = JObj kvs" by (subst m(1)) simp
  moreover have "truthy (JObj (kvs @ [(''sig'', v)])) \<and> getp (JObj (kvs @ [(''sig'', v)])) ''coordinator_pub'' = id_pub coord
    \<and> getp (JObj (kvs @ [(''sig'', v)])) ''grant_ref'' = JStr h \<and> getp (JObj (kvs @ [(''sig'', v)])) ''agent_pub'' = apub
    \<and> getp (JObj (kvs @ [(''sig'', v)])) ''agent_address'' = JStr a \<and> getp (JObj (kvs @ [(''sig'', v)])) ''aud'' = aud
    \<and> getp (JObj (kvs @ [(''sig'', v)])) ''scope'' = JArr ask \<and> getp (JObj (kvs @ [(''sig'', v)])) ''nbf'' = JInt nbf
    \<and> getp (JObj (kvs @ [(''sig'', v)])) ''exp'' = JInt (nbf + to_int32 ttl)" for v
    by (simp add: kvs_def)
  ultimately show ?thesis using a m by metis
qed

lemma minted_passes:
  assumes "mintGrant E sign root (id_pub coord) scope exp tee nbf n1 = Some g"
    "mintZspToken E sign coord g (id_pub agent) aud ask ttl nbf2 n2 = Some t"
    "signAction E sign agent t action args n3 = Some s" "signs E sign root" "signs E sign coord" "signs E sign agent"
    "deriveAddress E (id_pub root) = Some (id_address root)" "dp_root P = JStr (id_address root)" "plain (id_pub coord)"
    "nbf \<le> dp_now P" "\<not> past (dp_now P) (to_num exp)" "nbf2 \<le> dp_now P" "dp_now P \<le> nbf2 + ttl" "0 \<le> ttl" "ttl < 2 ^ 31"
    "set ask \<subseteq> set scope" "\<forall>x \<in> set ask. \<not> is_object x" "action \<in> set ask" "dp_aud P = aud" "plain aud"
    "dp_attest P (nullish tee JNull) = Some b" "dp_require P \<longrightarrow> b"
    "\<forall>burned h. dp_revoked P = Some burned \<longrightarrow> tokenHash E t = Some h \<longrightarrow> \<not> burned h" "truthy s" "n3 \<noteq> []"
  shows "\<exists>h. tokenHash E t = Some h \<and> verifyChain E P (presentation g t action args s n3) = Passed h n3 b"
proof -
  let ?p = "presentation g t action args s n3"
  obtain ca mg where g: "truthy g" "getp g ''root_pub'' = id_pub root" "getp g ''root_address'' = JStr (id_address root)"
    "getp g ''coordinator_pub'' = id_pub coord" "deriveAddress E (id_pub coord) = Some ca" "getp g ''coordinator_address'' = JStr ca"
    "getp g ''scope'' = JArr scope" "getp g ''nbf'' = JInt nbf" "getp g ''exp'' = exp" "getp g ''tee'' = nullish tee JNull"
    "dcanon (grantBody g) = Some mg" "de_verify E mg (getp g ''sig'') (id_pub root) = Some True"
    using minted_grant[OF assms(1,4)] by blast
  obtain r aa mt where t: "truthy t" "getp t ''coordinator_pub'' = id_pub coord" "grantHash E g = Some r" "getp t ''grant_ref'' = JStr r"
    "getp t ''agent_pub'' = id_pub agent" "deriveAddress E (id_pub agent) = Some aa" "getp t ''agent_address'' = JStr aa"
    "getp t ''aud'' = aud" "getp t ''scope'' = JArr ask" "getp t ''nbf'' = JInt nbf2" "getp t ''exp'' = JInt (nbf2 + to_int32 ttl)"
    "dcanon (tokenBody t) = Some mt" "de_verify E mt (getp t ''sig'') (id_pub coord) = Some True"
    using minted_token[OF assms(2,5)] by blast
  have p: "getp ?p ''grant'' = g" "getp ?p ''token'' = t" "getp ?p ''action'' = action" "getp ?p ''args'' = args"
    "getp ?p ''actionSig'' = s" "getp ?p ''nonce'' = JStr n3" by (simp_all add: presentation_def)
  obtain m where am: "actionMessage E t action args (JStr n3) = Some m" "de_verify E m s (id_pub agent) = Some True"
    using assms(3,6) by (auto simp: signAction_def signs_def split: option.splits)
  obtain h where h: "tokenHash E t = Some h" by (simp add: tokenHash_def t)
  have ttl: "to_int32 ttl = ttl" using assms(14,15) by (simp add: to_int32_def)
  have sub: "subset_scope (JArr ask) (JArr scope) = Some True" by (simp add: subset_scope_def every_in_subset assms(16,17))
  have inc: "js_includes (JArr ask) action = Some True" using assms(17,18) by (simp add: js_includes_def)
  have eq: "strict_eq aud aud" "strict_eq (id_pub coord) (id_pub coord)" "strict_eq (JStr a) (JStr a)" for a
    using assms(9,20) by (simp_all add: strict_eq_def plain_def)
  have num: "to_num (JInt i) = NInt i" for i by (simp add: to_num_def)
  have "verifyChain E P ?p = Passed h n3 b"
    unfolding verifyChain_def Let_def p fail_if_Passed g t
    using assms(10-13,23) h by (auto simp: assms(7,8,11,19,21,22,24,25) g t am sub inc eq ttl num split: option.split)
  with h show ?thesis by blast
qed

lemma memory_consume_twice:
  assumes "memory_consume k x u new_registry = (Some True, r)" "\<not> past u (to_num x)"
  shows "memory_consume k y u r = (Some False, r)"
proof -
  have "jhas (nr_used r) k" using assms by (auto simp: memory_consume_def nonce_consume_def new_registry_def maybeSweep_def jhas_def js_or_def)
  then show ?thesis by (simp add: memory_consume_def nonce_consume_def)
qed

text \<open>C21: What the package mints passes its own gate, once. A grant signed by the trusted root for a coordinator, a
  token that coordinator mints under it for an agent, and an action that agent signs make a presentation
  that passes and is refused as a replay when presented again, as long as the token asks for no more than
  the grant gives (actions that are no objects), the action and the audience are the token's, both are in
  their time, the lifetime fits 32 bits, the coordinator's quote attests where the gate requires it, the
  gate's revocation list, if it has one, does not hold the token's hash, and the in-memory registry is
  fresh.\<close>

theorem minted_chain_passes_once:
  assumes "mintGrant E sign root (id_pub coord) scope exp tee nbf n1 = Some g"
    "mintZspToken E sign coord g (id_pub agent) aud ask ttl nbf2 n2 = Some t"
    "signAction E sign agent t action args n3 = Some s" "signs E sign root" "signs E sign coord" "signs E sign agent"
    "deriveAddress E (id_pub root) = Some (id_address root)" "dp_root P = JStr (id_address root)" "plain (id_pub coord)"
    "nbf \<le> dp_now P" "\<not> past (dp_now P) (to_num exp)" "nbf2 \<le> dp_now P" "dp_now P \<le> nbf2 + ttl" "0 \<le> ttl" "ttl < 2 ^ 31"
    "set ask \<subseteq> set scope" "\<forall>x \<in> set ask. \<not> is_object x" "action \<in> set ask" "dp_aud P = aud" "plain aud"
    "dp_attest P (nullish tee JNull) = Some b" "dp_require P \<longrightarrow> b"
    "\<forall>burned h. dp_revoked P = Some burned \<longrightarrow> tokenHash E t = Some h \<longrightarrow> \<not> burned h" "truthy s" "n3 \<noteq> []"
  shows "\<exists>h r. authorize memory_consume E P (dp_now P) (presentation g t action args s n3) new_registry = (Passed h n3 b, r)
    \<and> authorize memory_consume E P (dp_now P) (presentation g t action args s n3) r = (Refuse ActionReplayed, r)"
proof -
  obtain h where h: "verifyChain E P (presentation g t action args s n3) = Passed h n3 b" using minted_passes[OF assms] by blast
  obtain r where r: "memory_consume (nonce_key h n3) (getp t ''exp'') (dp_now P) new_registry = (Some True, r)"
    by (simp add: memory_consume_def nonce_consume_def new_registry_def jhas_def)
  have "getp t ''exp'' = JInt (nbf2 + to_int32 ttl)" using minted_token[OF assms(2,5)] by blast
  then have "\<not> past (dp_now P) (to_num (getp t ''exp''))" using assms(13-15) by (simp add: to_num_def to_int32_def)
  then have "memory_consume (nonce_key h n3) (getp t ''exp'') (dp_now P) r = (Some False, r)" using memory_consume_twice[OF r] by blast
  then show ?thesis using h r by (simp add: authorize_def presentation_def)
qed

text \<open>A concrete chain: a toy scheme that signs by putting the key before the text, a root, a coordinator and an
  agent, and the time 150 within a grant to 200 and a token of 90 seconds.\<close>

definition text_of :: "jsval \<Rightarrow> string" where
  "text_of v = (case v of JStr s \<Rightarrow> s | _ \<Rightarrow> [])"

definition toy_sign :: "string \<Rightarrow> jsval \<Rightarrow> jsval option" where
  "toy_sign m k = Some (JStr (text_of k @ '':'' @ m))"

definition toy_env :: deleg_env where
  "toy_env = \<lparr>de_hash = take 4, de_bytes = (\<lambda>v. Some (text_of v)), de_verify = (\<lambda>m s pub. Some (s = JStr (text_of pub @ '':'' @ m)))\<rparr>"

definition toy_who :: "string \<Rightarrow> identity" where
  "toy_who k = \<lparr>id_address = ''xmb'' @ take 40 (sha256hex (take 4) k), id_pub = JStr k, id_priv = JStr k\<rparr>"

definition toy_policy :: "int \<Rightarrow> deleg_policy" where
  "toy_policy now = \<lparr>dp_root = JStr (id_address (toy_who ''root'')), dp_now = now, dp_aud = JStr ''shop'', dp_attest = (\<lambda>v. Some (v = JNull)),
     dp_require = True, dp_revoked = Some (\<lambda>h. False)\<rparr>"

lemma toy_signs [simp]: "signs toy_env toy_sign (toy_who k)"
  by (auto simp: signs_def toy_env_def toy_sign_def toy_who_def)

definition toy_grant :: "jsval option" where
  "toy_grant = mintGrant toy_env toy_sign (toy_who ''root'') (id_pub (toy_who ''coor'')) [JStr ''buy'', JStr ''sell''] (JInt 200) JUndef 100 ''g''"

definition toy_token :: "jsval option" where
  "toy_token = mintZspToken toy_env toy_sign (toy_who ''coor'') (the toy_grant) (id_pub (toy_who ''agen'')) (JStr ''shop'') [JStr ''buy''] 90 100 ''t''"

definition toy_sig :: "jsval option" where
  "toy_sig = signAction toy_env toy_sign (toy_who ''agen'') (the toy_token) (JStr ''buy'') (JArr [JInt 3]) ''n''"

lemma toy_minted: "toy_grant \<noteq> None" "toy_token \<noteq> None" "toy_sig \<noteq> None"
  by code_simp+

lemma toy_minted_all: "\<exists>g t s. toy_grant = Some g \<and> toy_token = Some t \<and> toy_sig = Some s \<and> truthy s"
  using toy_minted by (auto simp: toy_sig_def signAction_def toy_sign_def split: option.splits)

lemmas toy_defs = deriveAddress_def toy_env_def toy_who_def toy_policy_def plain_def to_num_def text_of_def

lemma minted_chain_passes_once_witness:
  "\<exists>g t s h r. toy_grant = Some g \<and> toy_token = Some t \<and> toy_sig = Some s
     \<and> authorize memory_consume toy_env (toy_policy 150) 150 (presentation g t (JStr ''buy'') (JArr [JInt 3]) s ''n'') new_registry = (Passed h ''n'' True, r)"
proof -
  obtain g t s where m: "toy_grant = Some g" "toy_token = Some t" "toy_sig = Some s" "truthy s" using toy_minted_all by blast
  have now: "dp_now (toy_policy 150) = 150" by (simp add: toy_policy_def)
  have "\<exists>h r. authorize memory_consume toy_env (toy_policy 150) (dp_now (toy_policy 150)) (presentation g t (JStr ''buy'') (JArr [JInt 3]) s ''n'') new_registry
        = (Passed h ''n'' True, r)
      \<and> authorize memory_consume toy_env (toy_policy 150) (dp_now (toy_policy 150)) (presentation g t (JStr ''buy'') (JArr [JInt 3]) s ''n'') r
        = (Refuse ActionReplayed, r)"
    by (rule minted_chain_passes_once[OF m(1)[unfolded toy_grant_def] m(2)[unfolded toy_token_def m(1) option.sel]
          m(3)[unfolded toy_sig_def m(2) option.sel] toy_signs toy_signs toy_signs]) (simp_all add: m(4) toy_defs)
  then have "\<exists>h r. authorize memory_consume toy_env (toy_policy 150) 150 (presentation g t (JStr ''buy'') (JArr [JInt 3]) s ''n'') new_registry
        = (Passed h ''n'' True, r)" unfolding now by blast
  with m(1-3) show ?thesis by blast
qed

definition toy_presentation :: jsval where
  "toy_presentation = presentation (the toy_grant) (the toy_token) (JStr ''buy'') (JArr [JInt 3]) (the toy_sig) ''n''"

lemma toy_passes: "\<exists>h. verifyChain toy_env (toy_policy 150) toy_presentation = Passed h ''n'' True"
proof -
  obtain g t s where m: "toy_grant = Some g" "toy_token = Some t" "toy_sig = Some s" "truthy s" using toy_minted_all by blast
  have "\<exists>h. tokenHash toy_env t = Some h
      \<and> verifyChain toy_env (toy_policy 150) (presentation g t (JStr ''buy'') (JArr [JInt 3]) s ''n'') = Passed h ''n'' True"
    by (rule minted_passes[OF m(1)[unfolded toy_grant_def] m(2)[unfolded toy_token_def m(1) option.sel]
          m(3)[unfolded toy_sig_def m(2) option.sel] toy_signs toy_signs toy_signs]) (simp_all add: m(4) toy_defs)
  then show ?thesis unfolding toy_presentation_def m(1-3) option.sel by blast
qed

lemma verified_chain_is_authorised_witness:
  "\<exists>h. verifyChain toy_env (toy_policy 150) toy_presentation = Passed h ''n'' True
     \<and> token_authorised toy_env (toy_policy 150) (the toy_grant) (the toy_token) h"
proof -
  obtain h where h: "verifyChain toy_env (toy_policy 150) toy_presentation = Passed h ''n'' True" using toy_passes by blast
  have "getp toy_presentation ''grant'' = the toy_grant" "getp toy_presentation ''token'' = the toy_token"
    by (simp_all add: toy_presentation_def presentation_def)
  then show ?thesis using verified_chain_is_authorised[OF h] h by auto
qed

lemma authorization_used_once_witness:
  "\<exists>h r. authorize memory_consume toy_env (toy_policy 150) 150 toy_presentation new_registry = (Passed h ''n'' True, r)
     \<and> fst (authorize memory_consume toy_env (toy_policy 160) 160 toy_presentation r) \<noteq> Passed h ''n'' True"
proof -
  obtain h where h: "verifyChain toy_env (toy_policy 150) toy_presentation = Passed h ''n'' True" using toy_passes by blast
  obtain r where r: "authorize memory_consume toy_env (toy_policy 150) 150 toy_presentation new_registry = (Passed h ''n'' True, r)"
    by (simp add: authorize_def h memory_consume_def nonce_consume_def new_registry_def jhas_def)
  have "fst (authorize memory_consume toy_env (toy_policy 160) (dp_now (toy_policy 160)) toy_presentation
      (gate_run memory_consume toy_env [] r)) \<noteq> Passed h ''n'' True"
    by (rule authorization_used_once[OF r]) (simp_all add: toy_policy_def)
  then show ?thesis using r by (auto simp: gate_run_def toy_policy_def)
qed

end
