(* ===== verification/Spec2Isabelle.thy ===== *)
theory Spec2Isabelle
  imports StateMachineProps Sha256 CubeSample GossipProps TxQueue SealRound Workflow DelegationProps
begin

text \<open>
  XMBL mainnet: the consensus, ledger, state and delegation code of a node.

  \<^bold>\<open>The program.\<close> A client's transaction enters a node through consensus (\<open>packages/consensus\<close>): the
  staged validation and the mempool (\<open>validate.js\<close>, \<open>mempool.js\<close>), the validation tasks and the workflow
  that counts attestations (\<open>validation-tasks.js\<close>, \<open>workflow.js\<close>), with gossip between the nodes
  (\<open>gossip.js\<close>). What is attested is handed to the ledger (\<open>packages/cubic-ledger\<close>), which keeps one
  block for each content, pools the blocks, seals nines of them into faces and threes of faces into
  cubes, and recurses above them (\<open>ledger.js\<close>, \<open>face.js\<close>, \<open>cube.js\<close>, \<open>deterministic-placement.js\<close>). Which nine
  are sealed is agreed between the leads (\<open>seal-agreement.js\<close>, \<open>seal-round.js\<close>); cubes are exchanged
  between nodes (\<open>cube-sync.js\<close>, \<open>cube-sync-manager.js\<close>). Blocks change the state machine
  (\<open>packages/state-machine\<close>), whose keys and values are committed to by a 256-ary hashed trie
  (\<open>verkle-tree.js\<close>). An agent acts for a user by a chain of delegations (\<open>packages/identity\<close>).

  \<^bold>\<open>How the code is modelled.\<close> A class is a record of its fields and a method is a function from the record
  to its answer and the record after it. A thrown error is an \<open>Inl\<close> or a \<open>None\<close>; a JavaScript value is the
  datatype \<open>jsval\<close>, with \<open>undefined\<close>, \<open>null\<close>, BigInts and fractions apart; a \<open>Map\<close> is an association list in
  insertion order (\<open>jmap\<close>); a text is a list of code units up to \<open>\xFF\<close>. A LevelDB store is the map of its
  rows, \<open>None\<close> or a closed flag when it is not open; a row holds what its JSON text parses back to, and
  the ranges of iterators and clears are written out. Clocks are arguments, and an \<open>await\<close> on the store is
  done at once. Code outside the repository is an argument: the digest \<open>H\<close>, signature verification, the
  attestation verifier, the reading of a date text \<open>D\<close>, \<open>localeCompare\<close>.

  \<^bold>\<open>Theories and sources.\<close>

  \<^item> \<open>Prelude\<close>, \<open>JsValue\<close>: maps, sorting by a key, chunks, decimal and hexadecimal text; JavaScript values,
    property access, \<open>String(v)\<close>, \<open>JSON.stringify\<close>. \<open>Sha256\<close>: the digest's contract (locale \<open>digest\<close>: 32
    bytes) and SHA-256 itself, on 32-bit words, which keeps it.
  \<^item> \<open>Micromine\<close> (\<open>micromine.js\<close>), \<open>TransactionValidator\<close> (\<open>transaction-validator.js\<close> and its type tables):
    content addressing by a mined nonce, and what a valid transaction of each type is.
  \<^item> \<open>VerkleTree\<close>, \<open>VerkleWrites\<close>, \<open>VerkleStore\<close>, \<open>VerkleProof\<close> (\<open>verkle-tree.js\<close>): the compressed trie with
    cached hashes, its refinement of the per-level trie over the set of entries, the class with its rows
    and reload, and proofs. \<open>StateMachine\<close>, \<open>StateMachineProps\<close> (\<open>state-machine.js\<close>, \<open>state-diff.js\<close>,
    \<open>state-assembly.js\<close>, \<open>sharding.js\<close>).
  \<^item> \<open>Geometry\<close> (\<open>geometry.js\<close>, \<open>digital-root.js\<close>), \<open>Placement\<close>, \<open>PlacementProps\<close>
    (\<open>deterministic-placement.js\<close>).
  \<^item> \<open>LedgerBlock\<close> (\<open>block.js\<close>, \<open>timestamp.js\<close>), \<open>LedgerFaces\<close> (\<open>face.js\<close>, \<open>cube.js\<close>, \<open>face-sealing.js\<close>), and the class
    of \<open>ledger.js\<close>: its state (\<open>LedgerState\<close>), sealing and the recursion (\<open>LedgerSeal\<close>), admission
    (\<open>LedgerAdmit\<close>), compaction, boot and rebuild (\<open>LedgerRebuild\<close>); what its operations leave alone
    (\<open>LedgerFrames\<close>) and keep (\<open>LedgerTower\<close>, \<open>LedgerProps\<close>, \<open>LedgerDoors\<close>).
  \<^item> \<open>CubeSync\<close> (\<open>cube-sync.js\<close>), \<open>CubeSyncManager\<close>, \<open>CubeSyncProps\<close>, \<open>CubeSyncServe\<close>
    (\<open>cube-sync-manager.js\<close>), \<open>CubeSample\<close> (27 anchors that make a cube that verifies).
  \<^item> \<open>TxQueue\<close> (\<open>txqueue.js\<close>), \<open>SealRound\<close> (\<open>seal-agreement.js\<close>, \<open>seal-round.js\<close>, the adoption in
    \<open>core/index.js\<close>), \<open>Gossip\<close>, \<open>GossipProps\<close> (\<open>gossip.js\<close>), \<open>Mempool\<close>, \<open>ValidationTasks\<close>, \<open>ConsensusDoor\<close>
    (\<open>validate.js\<close>, \<open>signer-keys.js\<close>, \<open>validation-retry.js\<close>), \<open>Workflow\<close>.
  \<^item> \<open>Delegation\<close>, \<open>DelegationProps\<close> (\<open>delegation.js\<close>, \<open>durable-nonce-registry.js\<close>).

  \<^bold>\<open>What the lemmas show.\<close>

  \<^item> Commitment: the root is a function of the state map, whatever writes, cached hashes and shortened chains
    led to it; proofs are complete, and a proof that verifies shows the committed value or exhibits a break
    of the hash; a restart keeps what the reload's range covers. The state machine counts a change once,
    converges by a canonical rebuild, and keeps the types of transactions apart.
  \<^item> Content addressing: \<open>micromine\<close> with its memo is the least-nonce search; mined transactions validate; a
    block's id is its content.
  \<^item> Order independence: placement, sealing, the candidate of a round and the id of a set are functions of the
    set, by the locale \<open>set_determined\<close>, which each of them interprets.
  \<^item> The ledger: an eviction is for good; a rebuild does not empty what memory holds; an agreed seal takes and
    places its nine; the recursion ends, conserves the base cubes and leaves no level over its threshold.
  \<^item> Agreement: a quorum stands behind every seal, as an invariant of the network of leads
    (\<open>seal_reach\<close>); resolved sets keep answering; a lead that changes its candidate can fork
    the round (\<open>changed_vote_forks\<close>).
  \<^item> Cube exchange: cubes enter by content only, over any interleaving of messages (\<open>sync_reach\<close>), and an adopted
    cube can be served on.
  \<^item> Consensus: distinct validators behind every processed transaction, pool shares, the conditions of an
    eviction, joined messages that are transparent and bounded, keys that derive their addresses.
  \<^item> Delegation: what a passing chain has proved, and single use, by the locale \<open>single_use\<close>, which both
    registries interpret.

  Lemmas named after a defect (\<open>getState_breaks_the_index\<close>, \<open>forgotten_keys_come_back\<close>,
  \<open>restarted_node_is_wiped\<close>, \<open>rows_outside_the_range\<close>, \<open>two_keys_are_mixed\<close>, \<open>in_flight_bound_not_kept\<close>, and
  others) show concrete runs in which the code does not do what its comments say.

  \<^bold>\<open>Bounds and fuel.\<close> The nonce search ends at \<open>nonce_limit\<close>, the code's own bound. The loop that seals until
  nothing is left runs on the code's guard, \<open>guard_limit = 200001\<close> passes; one pass seals the whole pool, so
  the second finds nothing. The recursion above the cubes is a \<open>function\<close> with a measure, the number
  of towers and faces waiting, which each completion lowers; no fuel is used there. \<open>chunks\<close> and the Merkle
  routines end because their lists shrink; the trie ends at depth 32, the length of a digest.

  \<^bold>\<open>What is not modelled.\<close> Floating-point vectors of blocks; timers, events other than those recorded in a
  state, console output and I/O errors of the database; the network transports; leader election and the
  worker thread, whose results are arguments; the signature schemes, attestation and lattice
  encryption, which are arguments; the zero-knowledge prover, storage and compute, the lng compiler, the
  anchoring feed, offline tools, clients, viewers and the assembly of the node's process.
\<close>

end
